(* ===== verification/Prelude.thy ===== *)
theory Prelude
  imports Main "HOL-Library.Word" "HOL-Library.Sublist"
begin

text \<open>
  The shared base of the development: the collections the component proofs draw on, the
  fragment of Go's integers, strings, time and slices that the sources under \<open>src/\<close> use,
  and the generic lemmas about lists that the components share.

  \<^item> Go's \<open>int\<close> and \<open>int64\<close> are \<open>int\<close>, with \<open>wrap64\<close> written out where the
    source can leave the 64-bit range; division is Go's truncating division \<open>go_quot\<close>.
  \<^item> A Go string is a \<open>string\<close>: a list of bytes.
  \<^item> A byte slice that goes over the wire is a list of \<open>8 word\<close>.
  \<^item> \<open>time.Time\<close> is the number of nanoseconds since Go's zero time (January 1 of year 1),
    so that \<open>IsZero\<close> is equality with 0; \<open>time.Duration\<close> is a number of nanoseconds.
\<close>

named_theorems go_defs \<open>definitions of the Go base that simp may unfold\<close>
named_theorems pool_len \<open>how pool operations act on the length of lists\<close>
named_theorems frame_simps \<open>fields that an operation leaves alone\<close>

type_synonym byte = "8 word"
type_synonym bytes = "8 word list"
type_synonym gotime = int
type_synonym duration = int

section \<open>Go integers\<close>

definition wrap64 :: "int \<Rightarrow> int" where
  "wrap64 x = (x + 2 ^ 63) mod 2 ^ 64 - 2 ^ 63"

definition go_quot :: "int \<Rightarrow> int \<Rightarrow> int" where
  "go_quot a b = sgn a * sgn b * (\<bar>a\<bar> div \<bar>b\<bar>)"

lemma wrap64_id: "- (2 ^ 63) \<le> x \<Longrightarrow> x < 2 ^ 63 \<Longrightarrow> wrap64 x = x"
  by (simp add: wrap64_def)

lemma wrap64_range: "- (2 ^ 63) \<le> wrap64 x \<and> wrap64 x < 2 ^ 63"
  using pos_mod_bound [of "2 ^ 64" "x + 2 ^ 63"] pos_mod_sign [of "2 ^ 64" "x + 2 ^ 63"]
  by (simp add: wrap64_def)

lemma go_quot_nonneg: "0 \<le> a \<Longrightarrow> 0 < b \<Longrightarrow> go_quot a b = a div b"
  by (cases "a = 0") (simp_all add: go_quot_def)

lemma go_quot_le: "a \<le> 0 \<Longrightarrow> 0 < b \<Longrightarrow> go_quot a b \<le> 0"
  by (cases "a = 0")
    (simp_all add: go_quot_def pos_imp_zdiv_nonneg_iff)

section \<open>Go time\<close>

definition second :: duration where "second = 1000000000"
definition millisecond :: duration where "millisecond = 1000000"
definition minute :: duration where "minute = 60 * second"

lemmas time_units [go_defs] = second_def millisecond_def minute_def

definition unixToInternal :: int where
  "unixToInternal = 62135596800"

text \<open>\<open>time.Unix (ts, 0)\<close>: the seconds are shifted to the year-1 epoch in 64-bit arithmetic.\<close>

definition time_Unix :: "int \<Rightarrow> gotime" where
  "time_Unix ts = wrap64 (ts + unixToInternal) * second"

text \<open>\<open>Time.Unix\<close>: whole seconds since 1970, rounding down.\<close>

definition unix_of :: "gotime \<Rightarrow> int" where
  "unix_of t = t div second - unixToInternal"

text \<open>\<open>Time.Sub\<close> saturates at the ends of the duration range.\<close>

definition time_Sub :: "gotime \<Rightarrow> gotime \<Rightarrow> duration" where
  "time_Sub t u = max (- (2 ^ 63)) (min (2 ^ 63 - 1) (t - u))"

abbreviation (input) IsZero :: "gotime \<Rightarrow> bool" where
  "IsZero t \<equiv> t = 0"

lemma second_pos [simp]: "0 < second" "second \<noteq> 0"
  by (simp_all add: second_def)

lemma time_Sub_less: "d \<le> 2 ^ 63 - 1 \<Longrightarrow> time_Sub t u < d \<longleftrightarrow> (t - u < d \<and> - (2 ^ 63) < d)"
  by (auto simp: time_Sub_def)

lemma time_Sub_greater: "- (2 ^ 63) \<le> d \<Longrightarrow> d < time_Sub t u \<longleftrightarrow> (d < t - u \<and> d < 2 ^ 63 - 1)"
  by (auto simp: time_Sub_def)

lemma time_Sub_in_range: "- (2 ^ 63) \<le> t - u \<Longrightarrow> t - u < 2 ^ 63 \<Longrightarrow> time_Sub t u = t - u"
  by (simp add: time_Sub_def)

lemma unix_of_time_Unix:
  assumes "- (2 ^ 63) \<le> ts + unixToInternal" and "ts + unixToInternal < 2 ^ 63"
  shows "unix_of (time_Unix ts) = ts"
  using assms by (simp add: unix_of_def time_Unix_def wrap64_id)

lemma time_Unix_unix_of:
  assumes "0 \<le> t" and "t < 2 ^ 63 * second"
  shows "time_Unix (unix_of t) = t div second * second"
proof -
  have "0 \<le> t div second" using assms(1) by (simp add: pos_imp_zdiv_nonneg_iff)
  moreover have "t div second < 2 ^ 63"
    using assms(2) by (simp add: div_less_iff_less_mult second_def)
  ultimately show ?thesis by (simp add: time_Unix_def unix_of_def wrap64_id)
qed

section \<open>Go strings\<close>

text \<open>\<open>strings.IndexByte\<close>: the first position of a byte, or -1.\<close>

definition IndexByte :: "string \<Rightarrow> char \<Rightarrow> int" where
  "IndexByte s c = (if c \<in> set s then int (length (takeWhile (\<lambda>d. d \<noteq> c) s)) else - 1)"

text \<open>\<open>strings.Contains\<close>.\<close>

definition Contains :: "string \<Rightarrow> string \<Rightarrow> bool" where
  "Contains s sub \<longleftrightarrow> sublist sub s"

definition is_digit :: "char \<Rightarrow> bool" where
  "is_digit c \<longleftrightarrow> 48 \<le> (of_char c :: nat) \<and> (of_char c :: nat) \<le> 57"

definition digit_val :: "char \<Rightarrow> nat" where
  "digit_val c = (of_char c :: nat) - 48"

definition digits_val :: "string \<Rightarrow> nat" where
  "digits_val s = foldl (\<lambda>n c. n * 10 + digit_val c) 0 s"

text \<open>
  \<open>strconv.ParseInt (s, 10, 64)\<close>: an optional sign, at least one digit, digits only (base 10
  admits no underscores), and a value in the signed 64-bit range. Every error is \<open>None\<close>.
\<close>

definition ParseInt64 :: "string \<Rightarrow> int option" where
  "ParseInt64 s =
     (let neg = (case s of c # _ \<Rightarrow> c = CHR ''-'' | [] \<Rightarrow> False);
          signed = (case s of c # _ \<Rightarrow> c = CHR ''-'' \<or> c = CHR ''+'' | [] \<Rightarrow> False);
          ds = (if signed then tl s else s)
      in if ds = [] \<or> \<not> list_all is_digit ds then None
         else if neg then (if digits_val ds \<le> 2 ^ 63 then Some (- int (digits_val ds)) else None)
         else (if digits_val ds < 2 ^ 63 then Some (int (digits_val ds)) else None))"

lemma ParseInt64_range: "ParseInt64 s = Some v \<Longrightarrow> - (2 ^ 63) \<le> v \<and> v < 2 ^ 63"
  by (auto simp: ParseInt64_def Let_def split: if_splits)

section \<open>Lists: the shared lemmas\<close>

lemma length_filter_list_update:
  assumes "i < length xs"
  shows "length (filter P (xs[i := y])) + (if P (xs ! i) then 1 else 0)
       = length (filter P xs) + (if P y then 1 else 0)"
  using assms
proof (induction xs arbitrary: i)
  case Nil
  then show ?case by simp
next
  case (Cons x xs)
  then show ?case by (cases i) auto
qed

lemma length_filter_update_le:
  assumes "i < length xs" and "P y \<Longrightarrow> P (xs ! i)"
  shows "length (filter P (xs[i := y])) \<le> length (filter P xs)"
  using length_filter_list_update [OF assms(1), of P y] assms(2) by (auto split: if_splits)

lemma list_all_update:
  "list_all P xs \<Longrightarrow> P y \<Longrightarrow> list_all P (xs[i := y])"
  by (auto simp: list_all_iff dest: subsetD [OF set_update_subset_insert])

lemma list_all_nthD: "list_all P xs \<Longrightarrow> i < length xs \<Longrightarrow> P (xs ! i)"
  by (simp add: list_all_length)

lemma length_filter_upt_Suc:
  "length (filter P [0..<Suc n]) = length (filter P [0..<n]) + (if P n then 1 else 0)"
  by simp

end
