(* ===== verification/CredEntry.thy ===== *)
theory CredEntry
  imports Prelude
begin

text \<open>
  The data of \<open>src/pkg/proxy/creds.go\<close>: a TURN credential set, one slot of the credential
  pool, the constants of the pool's timing, and the predicates on a single slot
  (\<open>parseCredExpiry\<close>, \<open>entryIsFresh\<close>, \<open>entryIsAvailable\<close>, \<open>entryIsPending\<close>). The
  current time is an argument of every definition that reads the clock.
\<close>

section \<open>Constants\<close>

definition credExpiryBuffer :: duration where "credExpiryBuffer = 30 * minute"
definition credSaturationCooldown :: duration where "credSaturationCooldown = 10 * minute"
definition credPeriodicSaveInterval :: duration where "credPeriodicSaveInterval = 60 * second"
definition vkSaturationCooldown :: duration where "vkSaturationCooldown = 3 * minute"
definition vkActiveAllocationsCooldown :: duration where
  "vkActiveAllocationsCooldown = 11 * minute"
definition activeAllocationsWindow :: duration where "activeAllocationsWindow = 12 * minute"
definition pauseAcquireAfterPathEvent :: duration where
  "pauseAcquireAfterPathEvent = 500 * millisecond"
definition cascadeDetectionWindow :: duration where "cascadeDetectionWindow = 90 * second"
definition cascadePauseDuration :: duration where "cascadePauseDuration = 30 * second"
definition connsPerSlot :: int where "connsPerSlot = 10"
definition credCacheVersion :: int where "credCacheVersion = 2"

lemmas cred_consts [go_defs] =
  credExpiryBuffer_def credSaturationCooldown_def credPeriodicSaveInterval_def
  vkSaturationCooldown_def vkActiveAllocationsCooldown_def activeAllocationsWindow_def
  pauseAcquireAfterPathEvent_def cascadeDetectionWindow_def cascadePauseDuration_def
  connsPerSlot_def credCacheVersion_def

section \<open>Credentials and slots\<close>

record TURNCreds =
  Username :: string
  Password :: string
  Address :: string
  Addresses :: "string list"

text \<open>
  One slot. A timer created by \<open>time.AfterFunc\<close> is a natural number, the identity of an
  entry in the pool's list of running timers.
\<close>

record credPoolEntry =
  addr :: string
  creds :: "TURNCreds option"
  ts :: gotime
  cooldownUntil :: gotime
  fetching :: bool
  active :: int
  availableAt :: gotime
  lastUsedAt :: gotime
  saturatedUntil :: gotime
  saturationTimer :: "nat option"

text \<open>Go's zero value \<open>credPoolEntry{}\<close>, and the literal that fills a slot.\<close>

definition emptyEntry :: credPoolEntry where
  "emptyEntry = \<lparr>addr = [], creds = None, ts = 0, cooldownUntil = 0, fetching = False,
     active = 0, availableAt = 0, lastUsedAt = 0, saturatedUntil = 0, saturationTimer = None\<rparr>"

definition filledEntry :: "string \<Rightarrow> TURNCreds option \<Rightarrow> gotime \<Rightarrow> int \<Rightarrow> credPoolEntry" where
  "filledEntry a c now n = emptyEntry\<lparr>addr := a, creds := c, ts := now, active := n\<rparr>"

lemma emptyEntry_simps [simp]:
  "addr emptyEntry = []" "creds emptyEntry = None" "ts emptyEntry = 0"
  "cooldownUntil emptyEntry = 0" "\<not> fetching emptyEntry" "active emptyEntry = 0"
  "availableAt emptyEntry = 0" "lastUsedAt emptyEntry = 0" "saturatedUntil emptyEntry = 0"
  "saturationTimer emptyEntry = None"
  by (simp_all add: emptyEntry_def)

lemma filledEntry_simps [simp]:
  "addr (filledEntry a c now n) = a" "creds (filledEntry a c now n) = c"
  "ts (filledEntry a c now n) = now" "cooldownUntil (filledEntry a c now n) = 0"
  "\<not> fetching (filledEntry a c now n)" "active (filledEntry a c now n) = n"
  "availableAt (filledEntry a c now n) = 0" "lastUsedAt (filledEntry a c now n) = 0"
  "saturatedUntil (filledEntry a c now n) = 0" "saturationTimer (filledEntry a c now n) = None"
  by (simp_all add: filledEntry_def)

section \<open>Expiry, freshness, pending state\<close>

definition parseCredExpiry :: "string \<Rightarrow> gotime option" where
  "parseCredExpiry username =
     (let idx = IndexByte username CHR '':''
      in if idx \<le> 0 then None
         else (case ParseInt64 (take (nat idx) username) of
                 None \<Rightarrow> None
               | Some t \<Rightarrow> Some (time_Unix t)))"

text \<open>The cred's expiry is further away than the safety margin.\<close>

definition expiryOK :: "gotime \<Rightarrow> TURNCreds \<Rightarrow> bool" where
  "expiryOK now c =
     (case parseCredExpiry (Username c) of
        None \<Rightarrow> False
      | Some e \<Rightarrow> now + credExpiryBuffer < e)"

definition entryIsFresh :: "gotime \<Rightarrow> credPoolEntry \<Rightarrow> bool" where
  "entryIsFresh now e =
     (case creds e of
        None \<Rightarrow> False
      | Some c \<Rightarrow>
          if \<not> expiryOK now c then False
          else if \<not> IsZero (availableAt e) \<and> now < availableAt e then False
          else True)"

definition entryIsAvailable :: "gotime \<Rightarrow> credPoolEntry \<Rightarrow> bool" where
  "entryIsAvailable now e =
     (if \<not> entryIsFresh now e then False
      else if \<not> IsZero (saturatedUntil e) \<and> now < saturatedUntil e then False
      else True)"

definition entryIsPending :: "gotime \<Rightarrow> credPoolEntry \<Rightarrow> bool" where
  "entryIsPending now e =
     (case creds e of
        None \<Rightarrow> False
      | Some c \<Rightarrow>
          if IsZero (availableAt e) \<or> \<not> now < availableAt e then False
          else expiryOK now c)"

text \<open>The condition \<open>countWithUsableCredsLocked\<close> counts.\<close>

definition entryUsable :: "gotime \<Rightarrow> credPoolEntry \<Rightarrow> bool" where
  "entryUsable now e = (case creds e of None \<Rightarrow> False | Some c \<Rightarrow> expiryOK now c)"

lemmas entry_preds = entryIsFresh_def entryIsAvailable_def entryIsPending_def entryUsable_def

lemma entry_preds_empty [simp]:
  "\<not> entryIsFresh now emptyEntry" "\<not> entryIsPending now emptyEntry"
  "\<not> entryIsAvailable now emptyEntry" "\<not> entryUsable now emptyEntry"
  by (simp_all add: entry_preds)

text \<open>The predicates read the credential and one deadline each, nothing else.\<close>

lemma entry_preds_frame [simp]:
  "entryIsFresh now (e\<lparr>active := a\<rparr>) = entryIsFresh now e"
  "entryIsFresh now (e\<lparr>fetching := b\<rparr>) = entryIsFresh now e"
  "entryIsFresh now (e\<lparr>cooldownUntil := t\<rparr>) = entryIsFresh now e"
  "entryIsFresh now (e\<lparr>lastUsedAt := t\<rparr>) = entryIsFresh now e"
  "entryIsFresh now (e\<lparr>saturatedUntil := t, saturationTimer := i\<rparr>) = entryIsFresh now e"
  "entryUsable now (e\<lparr>active := a\<rparr>) = entryUsable now e"
  "entryUsable now (e\<lparr>fetching := b\<rparr>) = entryUsable now e"
  "entryUsable now (e\<lparr>cooldownUntil := t\<rparr>) = entryUsable now e"
  "entryUsable now (e\<lparr>lastUsedAt := t\<rparr>) = entryUsable now e"
  "entryUsable now (e\<lparr>saturatedUntil := t, saturationTimer := i\<rparr>) = entryUsable now e"
  "entryIsPending now (e\<lparr>active := a\<rparr>) = entryIsPending now e"
  "entryIsPending now (e\<lparr>fetching := b\<rparr>) = entryIsPending now e"
  "entryIsPending now (e\<lparr>cooldownUntil := t\<rparr>) = entryIsPending now e"
  by (simp_all add: entry_preds split: option.split)

text \<open>A slot with a usable credential is fresh or pending, never both.\<close>

lemma usable_iff_fresh_or_pending:
  "entryUsable now e \<longleftrightarrow> entryIsFresh now e \<or> entryIsPending now e"
  by (auto simp: entry_preds split: option.splits)

lemma fresh_not_pending: "entryIsFresh now e \<Longrightarrow> \<not> entryIsPending now e"
  by (auto simp: entry_preds split: option.splits)

lemma fresh_usable: "entryIsFresh now e \<Longrightarrow> entryUsable now e"
  by (simp add: usable_iff_fresh_or_pending)

lemma available_fresh: "entryIsAvailable now e \<Longrightarrow> entryIsFresh now e"
  by (simp add: entryIsAvailable_def split: if_splits)

lemma fresh_creds: "entryIsFresh now e \<Longrightarrow> \<exists>c. creds e = Some c"
  by (auto simp: entryIsFresh_def split: option.splits)

text \<open>Time only takes a usable credential away; it never brings one back.\<close>

lemma expiryOK_antimono: "expiryOK now' c \<Longrightarrow> now \<le> now' \<Longrightarrow> expiryOK now c"
  by (auto simp: expiryOK_def split: option.splits)

lemma usable_antimono: "entryUsable now' e \<Longrightarrow> now \<le> now' \<Longrightarrow> entryUsable now e"
  by (auto simp: entryUsable_def intro: expiryOK_antimono split: option.splits)

lemma pending_becomes_fresh:
  assumes "entryIsPending now e" and "entryUsable now' e" and "availableAt e \<le> now'"
  shows "entryIsFresh now' e"
  using assms by (auto simp: entry_preds split: option.splits if_splits)

lemma parseCredExpiry_None_colon: "CHR '':'' \<notin> set u \<Longrightarrow> parseCredExpiry u = None"
  by (simp add: parseCredExpiry_def IndexByte_def)

lemma parseCredExpiry_digits:
  assumes "ds \<noteq> []" and "list_all is_digit ds" and "digits_val ds < 2 ^ 62"
  shows "parseCredExpiry (ds @ CHR '':'' # k) = Some ((int (digits_val ds) + unixToInternal) * second)"
proof -
  have digit: "\<forall>d \<in> set ds. d \<noteq> CHR '':'' \<and> d \<noteq> CHR ''-'' \<and> d \<noteq> CHR ''+''"
    using assms(2) by (auto simp: list_all_iff is_digit_def)
  then have nocolon: "\<forall>d \<in> set ds. d \<noteq> CHR '':''" and nosign: "hd ds \<noteq> CHR ''-''" "hd ds \<noteq> CHR ''+''"
    using assms(1) by auto
  have tw: "takeWhile (\<lambda>d. d \<noteq> CHR '':'') (ds @ CHR '':'' # k) = ds"
    using nocolon by (simp add: takeWhile_append2)
  have "ParseInt64 ds = Some (int (digits_val ds))"
    using assms nosign by (cases ds) (simp_all add: ParseInt64_def Let_def)
  moreover have "wrap64 (int (digits_val ds) + unixToInternal) = int (digits_val ds) + unixToInternal"
    using assms(3) by (intro wrap64_id) (simp_all add: unixToInternal_def)
  ultimately show ?thesis
    using assms(1) by (simp add: parseCredExpiry_def IndexByte_def tw time_Unix_def Let_def)
qed

end
