(* ===== verification/CredPool.thy ===== *)
theory CredPool
  imports CredEntry
begin

text \<open>
  The credential pool of \<open>src/pkg/proxy/creds.go\<close> (\<open>type credPool\<close> and its methods), in the
  order of the source. Each method is a function on the record \<open>credPool\<close>. A method that drops
  the mutex across the VK fetch (\<open>get\<close>, \<open>tryFill\<close>) is two functions, one per critical
  section, so that other operations can run between them; all clock readings of one critical
  section are one argument \<open>now\<close>.

  Besides the fields of the Go struct the record holds what those fields point to: the running
  \<open>time.AfterFunc\<close> timers (\<open>armed\<close>, pairs of identity and deadline; \<open>nextTimer\<close> is the next
  identity) and the file at \<open>cachePath\<close> (\<open>disk\<close>). The broadcast channel
  \<open>slotAvailableCh\<close> is a generation number: closing the channel and installing a new one is
  an increment, and a connection that captured generation \<open>g\<close> has been woken when
  \<open>g < slotAvailableCh\<close>. Log lines are left out. An index out of range is a Go panic and is
  an explicit outcome.
\<close>

section \<open>Data\<close>

record credCacheEntry =
  Slot :: int
  ce_Address :: string
  ce_Username :: string
  ce_Password :: string
  LastUsedAt :: int

record credCacheFile =
  Version :: int
  SavedAt :: int
  Creds :: "credCacheEntry list"

record credPool =
  pool :: "credPoolEntry list"
  psize :: nat
  cooldown :: duration
  authErrors :: "int list"
  freshLastTick :: "bool list"
  pauseAcquireUntil :: gotime
  pauseAcquireTimer :: "nat option"
  lastPathEventAt :: gotime
  cachePath :: string
  slotAvailableCh :: nat
  armed :: "(nat \<times> gotime) list"
  nextTimer :: nat
  disk :: "credCacheFile option"

section \<open>Timers and the wake-up channel\<close>

definition stopTimer :: "nat option \<Rightarrow> credPool \<Rightarrow> credPool" where
  "stopTimer t cp =
     (case t of None \<Rightarrow> cp | Some i \<Rightarrow> cp\<lparr>armed := filter (\<lambda>p. fst p \<noteq> i) (armed cp)\<rparr>)"

definition afterFunc :: "gotime \<Rightarrow> credPool \<Rightarrow> credPool" where
  "afterFunc deadline cp =
     cp\<lparr>armed := (nextTimer cp, deadline) # armed cp, nextTimer := Suc (nextTimer cp)\<rparr>"

definition broadcastSlotAvailable :: "credPool \<Rightarrow> credPool" where
  "broadcastSlotAvailable cp = cp\<lparr>slotAvailableCh := Suc (slotAvailableCh cp)\<rparr>"

definition slotAvailableChannel :: "credPool \<Rightarrow> nat" where
  "slotAvailableChannel cp = slotAvailableCh cp"

text \<open>A due timer runs its function, \<open>broadcastSlotAvailable\<close>, once.\<close>

definition fireTimer :: "nat \<Rightarrow> credPool \<Rightarrow> credPool" where
  "fireTimer i cp = broadcastSlotAvailable (stopTimer (Some i) cp)"

section \<open>Sizing and construction\<close>

definition poolSizeForNumConns :: "int \<Rightarrow> int" where
  "poolSizeForNumConns n =
     (let n' = (if n \<le> 0 then 1 else n);
          sz = go_quot (wrap64 (wrap64 (n' * 2) + 4)) 5
      in if sz < 2 then 2 else sz)"

text \<open>The slice is extended with zero entries until index \<open>n - 1\<close> exists.\<close>

definition growTo :: "nat \<Rightarrow> credPoolEntry list \<Rightarrow> credPoolEntry list" where
  "growTo n es = es @ replicate (n - length es) emptyEntry"

definition setEntry :: "nat \<Rightarrow> credPoolEntry \<Rightarrow> credPool \<Rightarrow> credPool" where
  "setEntry i e cp = cp\<lparr>pool := (pool cp)[i := e]\<rparr>"

section \<open>Freshness over the pool and the counters\<close>

definition isFreshLocked :: "gotime \<Rightarrow> credPool \<Rightarrow> int \<Rightarrow> bool" where
  "isFreshLocked now cp slot =
     (if slot < 0 \<or> int (length (pool cp)) \<le> slot then False
      else entryIsFresh now (pool cp ! nat slot))"

definition countFreshLocked :: "gotime \<Rightarrow> credPool \<Rightarrow> nat" where
  "countFreshLocked now cp = length (filter (entryIsFresh now) (pool cp))"

definition countAvailableLocked :: "gotime \<Rightarrow> credPool \<Rightarrow> nat" where
  "countAvailableLocked now cp = length (filter (entryIsAvailable now) (pool cp))"

definition countWithUsableCredsLocked :: "gotime \<Rightarrow> credPool \<Rightarrow> nat" where
  "countWithUsableCredsLocked now cp = length (filter (entryUsable now) (pool cp))"

definition countWithCredsLocked :: "credPool \<Rightarrow> nat" where
  "countWithCredsLocked cp = length (filter (\<lambda>e. creds e \<noteq> None) (pool cp))"

definition inFlight :: "credPool \<Rightarrow> nat" where
  "inFlight cp = length (filter fetching (pool cp))"

definition snapshotSize :: "gotime \<Rightarrow> credPool \<Rightarrow> nat \<times> nat \<times> nat" where
  "snapshotSize now cp = (countAvailableLocked now cp, countWithUsableCredsLocked now cp, psize cp)"

definition distinctRelays :: "credPool \<Rightarrow> nat" where
  "distinctRelays cp =
     length (remdups (map addr (filter (\<lambda>e. creds e \<noteq> None \<and> addr e \<noteq> []) (pool cp))))"

section \<open>Authentication errors per slot\<close>

definition recordAuthError :: "int \<Rightarrow> credPool \<Rightarrow> credPool" where
  "recordAuthError slot cp =
     (if slot < 0 \<or> int (length (authErrors cp)) \<le> slot then cp
      else cp\<lparr>authErrors := (authErrors cp)[nat slot := wrap64 (authErrors cp ! nat slot + 1)]\<rparr>)"

definition authErrorCount :: "int \<Rightarrow> credPool \<Rightarrow> int" where
  "authErrorCount slot cp =
     (if slot < 0 \<or> int (length (authErrors cp)) \<le> slot then - 1 else authErrors cp ! nat slot)"

definition resetAuthErrors :: "nat \<Rightarrow> credPool \<Rightarrow> credPool" where
  "resetAuthErrors slot cp =
     (if slot < length (authErrors cp) then cp\<lparr>authErrors := (authErrors cp)[slot := 0]\<rparr> else cp)"

section \<open>The cache file\<close>

definition snapshotEntry :: "gotime \<Rightarrow> nat \<Rightarrow> credPoolEntry \<Rightarrow> credCacheEntry list" where
  "snapshotEntry now slot e =
     (case creds e of
        None \<Rightarrow> []
      | Some c \<Rightarrow>
          [\<lparr>Slot = int slot, ce_Address = addr e, ce_Username = Username c,
            ce_Password = Password c,
            LastUsedAt = (if active e > 0 then unix_of now
                          else if \<not> IsZero (lastUsedAt e) then unix_of (lastUsedAt e)
                          else 0)\<rparr>])"

definition snapshotPool :: "gotime \<Rightarrow> credPool \<Rightarrow> credCacheFile" where
  "snapshotPool now cp =
     \<lparr>Version = credCacheVersion, SavedAt = unix_of now,
      Creds = concat (map (\<lambda>i. snapshotEntry now i (pool cp ! i)) [0..<length (pool cp)])\<rparr>"

text \<open>
  \<open>wr\<close> is whether the file system let the temporary file be written and renamed: the rename is
  atomic, so the file holds the new snapshot or is untouched.
\<close>

definition saveToDisk :: "gotime \<Rightarrow> bool \<Rightarrow> credPool \<Rightarrow> credPool" where
  "saveToDisk now wr cp =
     (if cachePath cp = [] then cp
      else if wr then cp\<lparr>disk := Some (snapshotPool now cp)\<rparr> else cp)"

definition loadEntry :: "gotime \<Rightarrow> credCacheEntry \<Rightarrow> credPool \<Rightarrow> credPool" where
  "loadEntry now entry cp =
     (if Slot entry < 0 \<or> int (psize cp) \<le> Slot entry then cp
      else (case parseCredExpiry (ce_Username entry) of
              None \<Rightarrow> cp
            | Some e \<Rightarrow>
                if time_Sub e now < credExpiryBuffer then cp
                else
                  let lastUsed = (if LastUsedAt entry > 0 then time_Unix (LastUsedAt entry) else 0);
                      ready = lastUsed + credSaturationCooldown;
                      availAt = (if LastUsedAt entry > 0 \<and> now < ready then ready else 0);
                      slot = nat (Slot entry);
                      c = \<lparr>Username = ce_Username entry, Password = ce_Password entry,
                           Address = ce_Address entry, Addresses = []\<rparr>
                  in cp\<lparr>pool := (growTo (Suc slot) (pool cp))
                          [slot := (filledEntry (ce_Address entry) (Some c) now 0)
                             \<lparr>lastUsedAt := lastUsed, availableAt := availAt\<rparr>]\<rparr>))"

datatype cacheRead = ReadError | CorruptJSON | CacheFile credCacheFile

definition loadFromDisk :: "gotime \<Rightarrow> cacheRead \<Rightarrow> credPool \<Rightarrow> credPool" where
  "loadFromDisk now rd cp =
     (case rd of
        ReadError \<Rightarrow> cp
      | CorruptJSON \<Rightarrow> cp
      | CacheFile f \<Rightarrow>
          if Version f \<noteq> credCacheVersion then cp else fold (loadEntry now) (Creds f) cp)"

definition newCredPool ::
  "gotime \<Rightarrow> int \<Rightarrow> duration \<Rightarrow> string \<Rightarrow> cacheRead \<Rightarrow> credCacheFile option \<Rightarrow> credPool" where
  "newCredPool now n cd path rd f =
     (let sz = nat (if n < 1 then 1 else n);
          cp = \<lparr>pool = replicate sz emptyEntry, psize = sz,
                cooldown = (if cd \<le> 0 then 2 * minute else cd),
                authErrors = replicate sz 0, freshLastTick = [], pauseAcquireUntil = 0,
                pauseAcquireTimer = None, lastPathEventAt = 0, cachePath = path,
                slotAvailableCh = 0, armed = [], nextTimer = 0, disk = f\<rparr>
      in if path \<noteq> [] then loadFromDisk now rd cp else cp)"

section \<open>Seeding a slot\<close>

definition clearDuplicates :: "nat \<Rightarrow> string \<Rightarrow> credPoolEntry list \<Rightarrow> credPoolEntry list" where
  "clearDuplicates slot user es =
     map (\<lambda>i. if i \<noteq> slot \<and> map_option Username (creds (es ! i)) = Some user
              then emptyEntry else es ! i) [0..<length es]"

fun relocate :: "credPoolEntry \<Rightarrow> credPoolEntry list \<Rightarrow> credPoolEntry list" where
  "relocate d [] = []"
| "relocate d (e # es) = (if creds e = None then d # es else e # relocate d es)"

text \<open>
  \<open>None\<close> is a panic: a negative slot, or a nil credential over a slot that holds one. The two
  callers pass slot 0 and a credential.
\<close>

definition seedSlot ::
  "gotime \<Rightarrow> bool \<Rightarrow> int \<Rightarrow> string \<Rightarrow> TURNCreds option \<Rightarrow> credPool \<Rightarrow> credPool option" where
  "seedSlot now wr slot a c cp =
     (if int (length (pool cp)) > slot \<and> isFreshLocked now cp slot then Some cp
      else if slot < 0 then None
      else
        let s = nat slot;
            es = growTo (Suc s) (pool cp);
            old = es ! s;
            user = (case c of None \<Rightarrow> [] | Some c' \<Rightarrow> Username c');
            displaced = (case creds old of None \<Rightarrow> False | Some oc \<Rightarrow> Username oc \<noteq> user);
            es1 = es[s := filledEntry a c now 0];
            es2 = (if c = None then es1 else clearDuplicates s user es1);
            es3 = (if displaced then relocate old es2 else es2);
            cp1 = cp\<lparr>pool := es3\<rparr>;
            cp2 = (if c \<noteq> None then resetAuthErrors s cp1 else cp1)
        in if creds old \<noteq> None \<and> c = None then None
           else Some (broadcastSlotAvailable (saveToDisk now wr cp2)))"

section \<open>Picking a slot to acquire\<close>

fun scanAcquire :: "gotime \<Rightarrow> credPool \<Rightarrow> nat \<Rightarrow> nat list \<Rightarrow> int \<times> int \<Rightarrow> int \<times> int" where
  "scanAcquire now cp ownSlot [] best = best"
| "scanAcquire now cp ownSlot (i # is) (bestSlot, bestActive) =
     (if i = ownSlot then scanAcquire now cp ownSlot is (bestSlot, bestActive)
      else if \<not> isFreshLocked now cp (int i) \<or> active (pool cp ! i) \<ge> connsPerSlot
        then scanAcquire now cp ownSlot is (bestSlot, bestActive)
      else if now < saturatedUntil (pool cp ! i)
        then scanAcquire now cp ownSlot is (bestSlot, bestActive)
      else if active (pool cp ! i) > bestActive
        then scanAcquire now cp ownSlot is (int i, active (pool cp ! i))
      else scanAcquire now cp ownSlot is (bestSlot, bestActive))"

definition pickAcquireSlotLocked :: "gotime \<Rightarrow> nat \<Rightarrow> credPool \<Rightarrow> int \<times> string" where
  "pickAcquireSlotLocked now ownSlot cp =
     (if isFreshLocked now cp (int ownSlot) \<and> active (pool cp ! ownSlot) < connsPerSlot
         \<and> \<not> now < saturatedUntil (pool cp ! ownSlot)
      then (int ownSlot, ''own'')
      else
        let (bestSlot, bestActive) = scanAcquire now cp ownSlot [0..<psize cp] (- 1, - 1)
        in if bestSlot < 0 then (- 1, [])
           else if bestActive > 0 then (bestSlot, ''compact'')
           else (bestSlot, ''fresh''))"

section \<open>get\<close>

datatype 'e getError =
    Paused duration
  | ColdStartCap int int
  | NoSlotAvailable
  | FetchFailed 'e

datatype 'e getResult =
    Acquired string "TURNCreds option" nat
  | Failed "'e getError"
  | StartFetch nat
  | Panicked

type_synonym 'e fetchResult = "'e + string \<times> TURNCreds"

definition ownSlotOf :: "int \<Rightarrow> credPool \<Rightarrow> nat" where
  "ownSlotOf connIdx cp =
     (let o1 = go_quot connIdx connsPerSlot;
          o2 = (if o1 < 0 then 0 else o1);
          o3 = (if o2 \<ge> int (psize cp) then int (psize cp) - 1 else o2)
      in nat o3)"

definition coldStartTarget :: "credPool \<Rightarrow> int" where
  "coldStartTarget cp = (let t = (int (psize cp) + 3) div 4 in if t < 1 then 1 else t)"

text \<open>The scan over \<open>candidatesOrdered ()\<close>; \<open>None\<close> is an index out of range.\<close>

fun pickFetchTarget :: "gotime \<Rightarrow> credPool \<Rightarrow> nat list \<Rightarrow> int option" where
  "pickFetchTarget now cp [] = Some (- 1)"
| "pickFetchTarget now cp (slot # slots) =
     (if isFreshLocked now cp (int slot) then pickFetchTarget now cp slots
      else if length (pool cp) \<le> slot then None
      else if entryIsPending now (pool cp ! slot) then pickFetchTarget now cp slots
      else if now < cooldownUntil (pool cp ! slot) then pickFetchTarget now cp slots
      else if fetching (pool cp ! slot) then pickFetchTarget now cp slots
      else Some (int slot))"

definition candidatesOrdered :: "nat \<Rightarrow> credPool \<Rightarrow> nat list" where
  "candidatesOrdered ownSlot cp = ownSlot # filter (\<lambda>i. i \<noteq> ownSlot) [0..<psize cp]"

definition acquireSlot :: "nat \<Rightarrow> credPool \<Rightarrow> credPool \<times> 'e getResult" where
  "acquireSlot slot cp =
     (let e = (pool cp ! slot)\<lparr>active := active (pool cp ! slot) + 1\<rparr>
      in (setEntry slot e cp, Acquired (addr e) (creds e) slot))"

definition getBegin :: "gotime \<Rightarrow> int \<Rightarrow> credPool \<Rightarrow> credPool \<times> 'e getResult" where
  "getBegin now connIdx cp =
     (if \<not> IsZero (pauseAcquireUntil cp) \<and> now < pauseAcquireUntil cp
      then (cp, Failed (Paused (pauseAcquireUntil cp - now)))
      else
        let ownSlot = ownSlotOf connIdx cp;
            cp1 = cp\<lparr>pool := growTo (Suc ownSlot) (pool cp)\<rparr>;
            slot = fst (pickAcquireSlotLocked now ownSlot cp1)
        in if slot \<ge> 0 then acquireSlot (nat slot) cp1
           else
             let n = int (countWithUsableCredsLocked now cp1) + int (inFlight cp1)
             in if n \<ge> coldStartTarget cp1 then (cp1, Failed (ColdStartCap n (coldStartTarget cp1)))
                else (case pickFetchTarget now cp1 (candidatesOrdered ownSlot cp1) of
                        None \<Rightarrow> (cp1, Panicked)
                      | Some target \<Rightarrow>
                          if target = - 1 then (cp1, Failed NoSlotAvailable)
                          else (setEntry (nat target) ((pool cp1 ! nat target)\<lparr>fetching := True\<rparr>) cp1,
                                StartFetch (nat target))))"

definition getFinish ::
  "gotime \<Rightarrow> bool \<Rightarrow> int \<Rightarrow> nat \<Rightarrow> 'e fetchResult \<Rightarrow> credPool \<Rightarrow> credPool \<times> 'e getResult" where
  "getFinish now wr connIdx target res cp =
     (if length (pool cp) \<le> target then (cp, Panicked)
      else
        let cp1 = setEntry target ((pool cp ! target)\<lparr>fetching := False\<rparr>) cp
        in case res of
             Inr (a, c) \<Rightarrow>
               (broadcastSlotAvailable (saveToDisk now wr (resetAuthErrors target
                  (setEntry target (filledEntry a (Some c) now 1) cp1))),
                Acquired a (Some c) target)
           | Inl err \<Rightarrow>
               let cp2 = setEntry target
                           ((pool cp1 ! target)\<lparr>cooldownUntil := now + cooldown cp1\<rparr>) cp1;
                   slot = fst (pickAcquireSlotLocked now (ownSlotOf connIdx cp2) cp2)
               in if slot \<ge> 0 then acquireSlot (nat slot) cp2
                  else (cp2, Failed (FetchFailed err)))"

text \<open>A whole call of \<open>get\<close> with nothing interleaved.\<close>

definition get ::
  "gotime \<Rightarrow> gotime \<Rightarrow> bool \<Rightarrow> (nat \<Rightarrow> 'e fetchResult) \<Rightarrow> int \<Rightarrow> credPool \<Rightarrow>
     credPool \<times> 'e getResult" where
  "get now now' wr fetch connIdx cp =
     (case getBegin now connIdx cp of
        (cp1, StartFetch t) \<Rightarrow> getFinish now' wr connIdx t (fetch t) cp1
      | r \<Rightarrow> r)"

section \<open>release\<close>

definition release :: "gotime \<Rightarrow> int \<Rightarrow> credPool \<Rightarrow> credPool" where
  "release now slot cp =
     (if slot < 0 then cp
      else if slot \<ge> int (psize cp) \<or> slot \<ge> int (length (pool cp)) then cp
      else
        let s = nat slot;
            e = pool cp ! s;
            becomesUsable = (active e = connsPerSlot \<and> entryIsFresh now e
                             \<and> \<not> now < saturatedUntil e);
            e1 = (if active e > 0
                  then (let e' = e\<lparr>active := active e - 1\<rparr>
                        in if active e' = 0 then e'\<lparr>lastUsedAt := now\<rparr> else e')
                  else e);
            cp1 = setEntry s e1 cp
        in if becomesUsable then broadcastSlotAvailable cp1 else cp1)"

section \<open>Saturation\<close>

definition saturationSnapshot :: "gotime \<Rightarrow> credPool \<Rightarrow> nat \<times> nat \<times> duration" where
  "saturationSnapshot now cp =
     (let sat = filter (\<lambda>i. now < saturatedUntil (pool cp ! i))
                  [0..<min (psize cp) (length (pool cp))]
      in (length sat, psize cp,
          fold (\<lambda>i m. if time_Sub (saturatedUntil (pool cp ! i)) now > m
                      then time_Sub (saturatedUntil (pool cp ! i)) now else m) sat 0))"

definition applySaturationLocked :: "gotime \<Rightarrow> nat \<Rightarrow> duration \<Rightarrow> credPool \<Rightarrow> credPool" where
  "applySaturationLocked now slot cd cp =
     (let cp1 = stopTimer (saturationTimer (pool cp ! slot)) cp;
          cp2 = afterFunc (now + cd) cp1
      in setEntry slot ((pool cp ! slot)\<lparr>saturatedUntil := now + cd,
                                       saturationTimer := Some (nextTimer cp1)\<rparr>) cp2)"

definition markSaturated :: "gotime \<Rightarrow> int \<Rightarrow> credPool \<Rightarrow> credPool \<times> duration" where
  "markSaturated now slot cp =
     (if slot < 0 then (cp, 0)
      else if slot \<ge> int (psize cp) \<or> slot \<ge> int (length (pool cp)) then (cp, 0)
      else
        let e = pool cp ! nat slot;
            recent = (\<not> IsZero (lastUsedAt e)
                      \<and> time_Sub now (lastUsedAt e) < activeAllocationsWindow);
            cd = (if active e > 0 then vkActiveAllocationsCooldown
                  else if recent then vkActiveAllocationsCooldown
                  else vkSaturationCooldown)
        in (applySaturationLocked now (nat slot) cd cp, cd))"

section \<open>Path changes\<close>

definition vkAllocLifetime :: duration where "vkAllocLifetime = 600 * second"
definition safetyBuffer :: duration where "safetyBuffer = 30 * second"
definition minRealUseAge :: duration where "minRealUseAge = 2 * second"

lemmas path_consts [go_defs] = vkAllocLifetime_def safetyBuffer_def minRealUseAge_def

text \<open>The cooldown the smart pause gives a slot, or \<open>None\<close> where the loop body continues.\<close>

definition smartPause :: "gotime \<Rightarrow> credPoolEntry \<Rightarrow> duration option" where
  "smartPause now e =
     (if \<not> IsZero (saturatedUntil e) \<and> now < saturatedUntil e then None
      else if creds e = None then None
      else if \<not> IsZero (availableAt e) \<and> now < availableAt e then None
      else
        let anchor = (if active e > 0 then Some now
                      else if \<not> IsZero (lastUsedAt e)
                              \<and> time_Sub now (lastUsedAt e) > minRealUseAge
                              \<and> time_Sub now (lastUsedAt e) < activeAllocationsWindow
                           then Some (lastUsedAt e) else None)
        in case anchor of
             None \<Rightarrow> None
           | Some t \<Rightarrow>
               let remaining = vkAllocLifetime - time_Sub now t + safetyBuffer
               in if remaining \<le> 0 then None else Some remaining)"

definition markSlotForPathChange :: "gotime \<Rightarrow> nat \<Rightarrow> credPool \<Rightarrow> credPool" where
  "markSlotForPathChange now slot cp =
     (case smartPause now (pool cp ! slot) of
        None \<Rightarrow> cp
      | Some d \<Rightarrow> applySaturationLocked now slot d cp)"

definition armPauseAcquireBroadcastLocked :: "gotime \<Rightarrow> credPool \<Rightarrow> credPool" where
  "armPauseAcquireBroadcastLocked now cp =
     (let cp1 = (stopTimer (pauseAcquireTimer cp) cp)\<lparr>pauseAcquireTimer := None\<rparr>;
          delay = pauseAcquireUntil cp1 - now
      in if delay \<le> 0 then cp1
         else (afterFunc (now + delay) cp1)\<lparr>pauseAcquireTimer := Some (nextTimer cp1)\<rparr>)"

definition extendPause :: "gotime \<Rightarrow> duration \<Rightarrow> credPool \<Rightarrow> credPool" where
  "extendPause now d cp =
     (if now + d > pauseAcquireUntil cp
      then armPauseAcquireBroadcastLocked now (cp\<lparr>pauseAcquireUntil := now + d\<rparr>)
      else cp)"

definition ExtendPauseAcquireForTransition :: "gotime \<Rightarrow> duration \<Rightarrow> credPool \<Rightarrow> credPool" where
  "ExtendPauseAcquireForTransition now d cp = extendPause now d cp"

definition pauseDuration :: "gotime \<Rightarrow> credPool \<Rightarrow> duration" where
  "pauseDuration now cp =
     (if \<not> IsZero (lastPathEventAt cp)
         \<and> time_Sub now (lastPathEventAt cp) \<ge> pauseAcquireAfterPathEvent
         \<and> time_Sub now (lastPathEventAt cp) < cascadeDetectionWindow
      then cascadePauseDuration else pauseAcquireAfterPathEvent)"

definition MarkInUseSlotsForPathChange :: "gotime \<Rightarrow> credPool \<Rightarrow> credPool" where
  "MarkInUseSlotsForPathChange now cp =
     (let cp1 = fold (markSlotForPathChange now) [0..<min (psize cp) (length (pool cp))] cp
      in (extendPause now (pauseDuration now cp1) cp1)\<lparr>lastPathEventAt := now\<rparr>)"

section \<open>The background grower's operations\<close>

datatype fillStep = FillDone bool | FillFetch | FillPanic

definition tryFillBegin :: "gotime \<Rightarrow> int \<Rightarrow> int \<Rightarrow> credPool \<Rightarrow> credPool \<times> fillStep" where
  "tryFillBegin now slot abortIfAvailableGTE cp =
     (if slot < 0 \<or> slot \<ge> int (psize cp) then (cp, FillDone False)
      else
        let s = nat slot;
            cp1 = cp\<lparr>pool := growTo (Suc s) (pool cp)\<rparr>
        in if isFreshLocked now cp1 slot then (cp1, FillDone True)
           else if entryIsPending now (pool cp1 ! s) then (cp1, FillDone True)
           else if now < cooldownUntil (pool cp1 ! s) \<or> fetching (pool cp1 ! s)
             then (cp1, FillDone False)
           else if abortIfAvailableGTE > 0
                   \<and> int (countAvailableLocked now cp1) \<ge> abortIfAvailableGTE
             then (cp1, FillDone False)
           else (setEntry s ((pool cp1 ! s)\<lparr>fetching := True\<rparr>) cp1, FillFetch))"

definition tryFillFinish ::
  "gotime \<Rightarrow> bool \<Rightarrow> nat \<Rightarrow> int \<Rightarrow> 'e fetchResult \<Rightarrow> credPool \<Rightarrow> credPool \<times> fillStep" where
  "tryFillFinish now wr slot abortIfAvailableGTE res cp =
     (if length (pool cp) \<le> slot then (cp, FillPanic)
      else
        let cp1 = setEntry slot ((pool cp ! slot)\<lparr>fetching := False\<rparr>) cp
        in case res of
             Inr (a, c) \<Rightarrow>
               if abortIfAvailableGTE > 0
                  \<and> int (countAvailableLocked now cp1) \<ge> abortIfAvailableGTE
               then (cp1, FillDone False)
               else (broadcastSlotAvailable (saveToDisk now wr (resetAuthErrors slot
                       (setEntry slot (filledEntry a (Some c) now 0) cp1))), FillDone True)
           | Inl err \<Rightarrow>
               (setEntry slot ((pool cp1 ! slot)\<lparr>cooldownUntil := now + cooldown cp1\<rparr>) cp1,
                FillDone False))"

definition eligibleToFill :: "gotime \<Rightarrow> credPoolEntry \<Rightarrow> bool" where
  "eligibleToFill now e \<longleftrightarrow> \<not> entryIsFresh now e \<and> \<not> entryIsPending now e \<and> \<not> fetching e
     \<and> \<not> now < cooldownUntil e"

fun firstEligible :: "gotime \<Rightarrow> credPoolEntry list \<Rightarrow> nat list \<Rightarrow> int" where
  "firstEligible now es [] = - 1"
| "firstEligible now es (i # is) =
     (if eligibleToFill now (es ! i) then int i else firstEligible now es is)"

definition pickSlotToFill :: "gotime \<Rightarrow> credPool \<Rightarrow> credPool \<times> int" where
  "pickSlotToFill now cp =
     (let cp1 = cp\<lparr>pool := growTo (psize cp) (pool cp)\<rparr>
      in (cp1, firstEligible now (pool cp1) [0..<psize cp1]))"

section \<open>Invalidation\<close>

definition invalidate :: "credPool \<Rightarrow> credPool" where
  "invalidate cp = cp\<lparr>pool := replicate (psize cp) emptyEntry\<rparr>"

definition invalidateEntry :: "gotime \<Rightarrow> bool \<Rightarrow> int \<Rightarrow> credPool \<Rightarrow> credPool" where
  "invalidateEntry now wr slot cp =
     (if slot < 0 then cp
      else
        let s = nat slot;
            dropped = (s < length (pool cp) \<and> creds (pool cp ! s) \<noteq> None);
            cp1 = (if s < length (pool cp) then setEntry s emptyEntry cp else cp)
        in if dropped then saveToDisk now wr cp1 else cp1)"

section \<open>The periodic tick\<close>

datatype freshReason =
    Unknown
  | CredRemoved
  | LoadPending
  | Unparseable
  | Expiring
  | CredsAppeared
  | LoadCooldownElapsed
  | CredsBecameValid

definition lostFreshReason :: "gotime \<Rightarrow> credPoolEntry \<Rightarrow> freshReason" where
  "lostFreshReason now e =
     (case creds e of
        None \<Rightarrow> CredRemoved
      | Some c \<Rightarrow>
          if \<not> IsZero (availableAt e) \<and> now < availableAt e then LoadPending
          else (case parseCredExpiry (Username c) of
                  None \<Rightarrow> Unparseable
                | Some x \<Rightarrow> if \<not> now + credExpiryBuffer < x then Expiring else Unknown))"

definition gainedFreshReason :: "gotime \<Rightarrow> credPoolEntry \<Rightarrow> freshReason" where
  "gainedFreshReason now e =
     (if creds e = None then CredsAppeared
      else if \<not> IsZero (availableAt e) \<and> \<not> now < availableAt e then LoadCooldownElapsed
      else CredsBecameValid)"

text \<open>The log lines of one tick (slot, whether it is now fresh, the reason), and the new snapshot.\<close>

definition logFreshTransitionsLocked ::
  "gotime \<Rightarrow> credPool \<Rightarrow> credPool \<times> (nat \<times> bool \<times> freshReason) list" where
  "logFreshTransitionsLocked now cp =
     (let cp' = cp\<lparr>freshLastTick := map (entryIsFresh now) (pool cp)\<rparr>
      in if length (freshLastTick cp) \<noteq> length (pool cp) then (cp', [])
         else (cp', concat (map (\<lambda>slot.
                let e = pool cp ! slot; was = freshLastTick cp ! slot; isf = entryIsFresh now e
                in if was \<and> \<not> isf then [(slot, False, lostFreshReason now e)]
                   else if \<not> was \<and> isf then [(slot, True, gainedFreshReason now e)]
                   else []) [0..<length (pool cp)])))"

definition periodicSaveTick :: "gotime \<Rightarrow> bool \<Rightarrow> credPool \<Rightarrow> credPool" where
  "periodicSaveTick now wr cp = saveToDisk now wr (fst (logFreshTransitionsLocked now cp))"

end
