(* ===== verification/CredPoolInv.thy ===== *)
theory CredPoolInv
  imports CredPool
begin

text \<open>
  The shape and quota invariant of the credential pool and that every operation keeps it; what
  \<open>pickAcquireSlotLocked\<close>, \<open>getBegin\<close>, \<open>getFinish\<close> and \<open>release\<close> do on each branch.
\<close>

section \<open>What the primitives leave alone\<close>

lemma setEntry_frame [simp]:
  "psize (setEntry i e cp) = psize cp" "cooldown (setEntry i e cp) = cooldown cp"
  "authErrors (setEntry i e cp) = authErrors cp" "armed (setEntry i e cp) = armed cp"
  "nextTimer (setEntry i e cp) = nextTimer cp" "disk (setEntry i e cp) = disk cp"
  "slotAvailableCh (setEntry i e cp) = slotAvailableCh cp" "cachePath (setEntry i e cp) = cachePath cp"
  "pauseAcquireUntil (setEntry i e cp) = pauseAcquireUntil cp"
  "pauseAcquireTimer (setEntry i e cp) = pauseAcquireTimer cp"
  "lastPathEventAt (setEntry i e cp) = lastPathEventAt cp"
  "freshLastTick (setEntry i e cp) = freshLastTick cp"
  "pool (setEntry i e cp) = (pool cp)[i := e]"
  by (simp_all add: setEntry_def)

lemma setEntry_twice [simp]: "setEntry i e (setEntry i e' cp) = setEntry i e cp"
  by (simp add: setEntry_def)

lemma stopTimer_frame [simp]:
  "pool (stopTimer t cp) = pool cp" "psize (stopTimer t cp) = psize cp"
  "authErrors (stopTimer t cp) = authErrors cp" "nextTimer (stopTimer t cp) = nextTimer cp"
  "pauseAcquireUntil (stopTimer t cp) = pauseAcquireUntil cp"
  "pauseAcquireTimer (stopTimer t cp) = pauseAcquireTimer cp"
  "lastPathEventAt (stopTimer t cp) = lastPathEventAt cp"
  "slotAvailableCh (stopTimer t cp) = slotAvailableCh cp" "disk (stopTimer t cp) = disk cp"
  "cooldown (stopTimer t cp) = cooldown cp" "cachePath (stopTimer t cp) = cachePath cp"
  "freshLastTick (stopTimer t cp) = freshLastTick cp"
  by (simp_all add: stopTimer_def split: option.split)

lemma afterFunc_frame [simp]:
  "pool (afterFunc d cp) = pool cp" "psize (afterFunc d cp) = psize cp"
  "authErrors (afterFunc d cp) = authErrors cp" "nextTimer (afterFunc d cp) = Suc (nextTimer cp)"
  "armed (afterFunc d cp) = (nextTimer cp, d) # armed cp"
  "pauseAcquireUntil (afterFunc d cp) = pauseAcquireUntil cp"
  "pauseAcquireTimer (afterFunc d cp) = pauseAcquireTimer cp"
  "lastPathEventAt (afterFunc d cp) = lastPathEventAt cp"
  "slotAvailableCh (afterFunc d cp) = slotAvailableCh cp" "disk (afterFunc d cp) = disk cp"
  "cooldown (afterFunc d cp) = cooldown cp" "cachePath (afterFunc d cp) = cachePath cp"
  "freshLastTick (afterFunc d cp) = freshLastTick cp"
  by (simp_all add: afterFunc_def)

lemma broadcast_frame [simp]:
  "pool (broadcastSlotAvailable cp) = pool cp" "psize (broadcastSlotAvailable cp) = psize cp"
  "authErrors (broadcastSlotAvailable cp) = authErrors cp"
  "armed (broadcastSlotAvailable cp) = armed cp"
  "nextTimer (broadcastSlotAvailable cp) = nextTimer cp"
  "pauseAcquireUntil (broadcastSlotAvailable cp) = pauseAcquireUntil cp"
  "pauseAcquireTimer (broadcastSlotAvailable cp) = pauseAcquireTimer cp"
  "lastPathEventAt (broadcastSlotAvailable cp) = lastPathEventAt cp"
  "slotAvailableCh (broadcastSlotAvailable cp) = Suc (slotAvailableCh cp)"
  "disk (broadcastSlotAvailable cp) = disk cp" "cooldown (broadcastSlotAvailable cp) = cooldown cp"
  "cachePath (broadcastSlotAvailable cp) = cachePath cp"
  by (simp_all add: broadcastSlotAvailable_def)

lemma saveToDisk_frame [simp]:
  "pool (saveToDisk now wr cp) = pool cp" "psize (saveToDisk now wr cp) = psize cp"
  "authErrors (saveToDisk now wr cp) = authErrors cp" "armed (saveToDisk now wr cp) = armed cp"
  "nextTimer (saveToDisk now wr cp) = nextTimer cp"
  "pauseAcquireUntil (saveToDisk now wr cp) = pauseAcquireUntil cp"
  "pauseAcquireTimer (saveToDisk now wr cp) = pauseAcquireTimer cp"
  "lastPathEventAt (saveToDisk now wr cp) = lastPathEventAt cp"
  "slotAvailableCh (saveToDisk now wr cp) = slotAvailableCh cp"
  "cooldown (saveToDisk now wr cp) = cooldown cp" "cachePath (saveToDisk now wr cp) = cachePath cp"
  by (simp_all add: saveToDisk_def)

lemma resetAuthErrors_frame [simp]:
  "pool (resetAuthErrors i cp) = pool cp" "psize (resetAuthErrors i cp) = psize cp"
  "length (authErrors (resetAuthErrors i cp)) = length (authErrors cp)"
  "armed (resetAuthErrors i cp) = armed cp" "nextTimer (resetAuthErrors i cp) = nextTimer cp"
  "pauseAcquireUntil (resetAuthErrors i cp) = pauseAcquireUntil cp"
  "pauseAcquireTimer (resetAuthErrors i cp) = pauseAcquireTimer cp"
  "lastPathEventAt (resetAuthErrors i cp) = lastPathEventAt cp"
  "slotAvailableCh (resetAuthErrors i cp) = slotAvailableCh cp"
  "cachePath (resetAuthErrors i cp) = cachePath cp" "disk (resetAuthErrors i cp) = disk cp"
  by (simp_all add: resetAuthErrors_def)

lemma growTo_simps [simp]:
  "length (growTo n es) = max n (length es)"
  "n \<le> length es \<Longrightarrow> growTo n es = es"
  "i < length es \<Longrightarrow> growTo n es ! i = es ! i"
  by (simp_all add: growTo_def nth_append)

lemma list_all_growTo: "list_all P es \<Longrightarrow> P emptyEntry \<Longrightarrow> list_all P (growTo n es)"
  by (auto simp: growTo_def list_all_iff)

section \<open>The invariant\<close>

definition quotaOK :: "credPoolEntry \<Rightarrow> bool" where
  "quotaOK e \<longleftrightarrow> 0 \<le> active e \<and> active e \<le> connsPerSlot"

definition pool_inv :: "credPool \<Rightarrow> bool" where
  "pool_inv cp \<longleftrightarrow> 1 \<le> psize cp \<and> psize cp \<le> length (pool cp)
     \<and> length (authErrors cp) = psize cp \<and> list_all quotaOK (pool cp)"

lemma quotaOK_literals [simp]:
  "quotaOK emptyEntry" "quotaOK (filledEntry a c now 0)" "quotaOK (filledEntry a c now 1)"
  by (simp_all add: quotaOK_def connsPerSlot_def)

lemma quotaOK_frame [simp]:
  "quotaOK (e\<lparr>fetching := b\<rparr>) = quotaOK e" "quotaOK (e\<lparr>cooldownUntil := t\<rparr>) = quotaOK e"
  "quotaOK (e\<lparr>lastUsedAt := t\<rparr>) = quotaOK e"
  "quotaOK (e\<lparr>saturatedUntil := t, saturationTimer := i\<rparr>) = quotaOK e"
  "quotaOK (e\<lparr>lastUsedAt := t, availableAt := u\<rparr>) = quotaOK e"
  by (simp_all add: quotaOK_def)

lemma pool_invD:
  assumes "pool_inv cp"
  shows "1 \<le> psize cp" "psize cp \<le> length (pool cp)" "length (authErrors cp) = psize cp"
    "list_all quotaOK (pool cp)"
  using assms by (simp_all add: pool_inv_def)

lemma pool_inv_nth: "pool_inv cp \<Longrightarrow> i < length (pool cp) \<Longrightarrow> quotaOK (pool cp ! i)"
  by (blast dest: pool_invD(4) list_all_nthD)

lemma pool_inv_slot: "pool_inv cp \<Longrightarrow> i < psize cp \<Longrightarrow> quotaOK (pool cp ! i)"
  by (rule pool_inv_nth) (auto simp: pool_inv_def)

text \<open>Every operation below changes entries and bookkeeping fields; this is the one rule needed.\<close>

lemma pool_inv_cong:
  "psize cp' = psize cp \<Longrightarrow> length (authErrors cp') = length (authErrors cp) \<Longrightarrow>
   pool cp' = pool cp \<Longrightarrow> pool_inv cp' = pool_inv cp"
  by (simp add: pool_inv_def)

lemma pool_inv_setEntry [intro]: "pool_inv cp \<Longrightarrow> quotaOK e \<Longrightarrow> pool_inv (setEntry i e cp)"
  by (simp add: pool_inv_def list_all_update)

lemma pool_inv_pool:
  "pool_inv cp \<Longrightarrow> psize cp \<le> length es \<Longrightarrow> list_all quotaOK es \<Longrightarrow> pool_inv (cp\<lparr>pool := es\<rparr>)"
  by (simp add: pool_inv_def)

lemma pool_inv_primitives [simp]:
  "pool_inv (broadcastSlotAvailable cp) = pool_inv cp"
  "pool_inv (saveToDisk now wr cp) = pool_inv cp"
  "pool_inv (stopTimer tm cp) = pool_inv cp" "pool_inv (afterFunc d cp) = pool_inv cp"
  "pool_inv (resetAuthErrors i cp) = pool_inv cp"
  "pool_inv (fireTimer j cp) = pool_inv cp"
  "pool_inv (cp\<lparr>lastPathEventAt := t\<rparr>) = pool_inv cp"
  "pool_inv (cp\<lparr>pauseAcquireUntil := t\<rparr>) = pool_inv cp"
  "pool_inv (cp\<lparr>pauseAcquireTimer := x\<rparr>) = pool_inv cp"
  "pool_inv (cp\<lparr>freshLastTick := bs\<rparr>) = pool_inv cp"
  by (simp_all add: pool_inv_def fireTimer_def)

lemma pool_inv_grow [intro]: "pool_inv cp \<Longrightarrow> pool_inv (cp\<lparr>pool := growTo n (pool cp)\<rparr>)"
  by (intro pool_inv_pool) (auto simp: list_all_growTo dest: pool_invD)

lemma ownSlotOf_less: "1 \<le> psize cp \<Longrightarrow> ownSlotOf connIdx cp < psize cp"
  by (auto simp: ownSlotOf_def Let_def)

lemma grow_own [simp]:
  "pool_inv cp \<Longrightarrow> growTo (Suc (ownSlotOf connIdx cp)) (pool cp) = pool cp"
  using ownSlotOf_less [of cp connIdx] by (simp add: pool_inv_def)

section \<open>Choosing a slot\<close>

text \<open>What a slot must be for a connection to be put on it.\<close>

definition acquirable :: "gotime \<Rightarrow> credPool \<Rightarrow> nat \<Rightarrow> bool" where
  "acquirable now cp i \<longleftrightarrow> i < length (pool cp) \<and> entryIsFresh now (pool cp ! i)
     \<and> active (pool cp ! i) < connsPerSlot \<and> \<not> now < saturatedUntil (pool cp ! i)"

lemma isFreshLocked_nat:
  "isFreshLocked now cp (int i) \<longleftrightarrow> i < length (pool cp) \<and> entryIsFresh now (pool cp ! i)"
  by (simp add: isFreshLocked_def)

lemma scan_step:
  "scanAcquire now cp own (i # is) (b, a) =
     scanAcquire now cp own is
       (if i \<noteq> own \<and> acquirable now cp i \<and> a < active (pool cp ! i)
        then (int i, active (pool cp ! i)) else (b, a))"
  by (auto simp: acquirable_def isFreshLocked_nat not_le)

declare scanAcquire.simps(2) [simp del]

text \<open>
  The scan keeps the best candidate so far: either the start value, or the first of the visited
  acquirable slots with the greatest number of active connections.
\<close>

definition best_of :: "gotime \<Rightarrow> credPool \<Rightarrow> nat \<Rightarrow> nat list \<Rightarrow> nat \<Rightarrow> bool" where
  "best_of now cp own is s \<longleftrightarrow> s \<in> set is \<and> s \<noteq> own \<and> acquirable now cp s
     \<and> (\<forall>j \<in> set is. j \<noteq> own \<longrightarrow> acquirable now cp j \<longrightarrow>
          active (pool cp ! j) < active (pool cp ! s)
          \<or> active (pool cp ! j) = active (pool cp ! s) \<and> s \<le> j)"

text \<open>What the scan knows after the slots in \<open>done\<close>.\<close>

definition scan_state :: "gotime \<Rightarrow> credPool \<Rightarrow> nat \<Rightarrow> nat list \<Rightarrow> int \<times> int \<Rightarrow> bool" where
  "scan_state now cp own is ba \<longleftrightarrow>
     ba = (- 1, - 1) \<and> (\<forall>j \<in> set is. j \<noteq> own \<longrightarrow> \<not> acquirable now cp j)
     \<or> (\<exists>s. ba = (int s, active (pool cp ! s)) \<and> best_of now cp own is s)"

lemma scan_state_step:
  assumes "scan_state now cp own done (b, a)" and "\<forall>j \<in> set done. j < i"
    and "acquirable now cp i \<Longrightarrow> 0 \<le> active (pool cp ! i)"
  shows "scan_state now cp own (done @ [i])
           (if i \<noteq> own \<and> acquirable now cp i \<and> a < active (pool cp ! i)
            then (int i, active (pool cp ! i)) else (b, a))"
proof (cases "i \<noteq> own \<and> acquirable now cp i \<and> a < active (pool cp ! i)")
  case True
  then have "best_of now cp own (done @ [i]) i"
    using assms(1) by (force simp: scan_state_def best_of_def)
  then show ?thesis using True by (auto simp: scan_state_def)
next
  case False
  show ?thesis
  proof (cases "\<exists>s. (b, a) = (int s, active (pool cp ! s)) \<and> best_of now cp own done s")
    case True
    then obtain s where s: "(b, a) = (int s, active (pool cp ! s))" "best_of now cp own done s"
      by blast
    then have "s < i" using assms(2) by (simp add: best_of_def)
    then have "best_of now cp own (done @ [i]) s"
      using s False by (auto simp: best_of_def)
    then show ?thesis using False s(1) by (auto simp: scan_state_def)
  next
    case none: False
    then have "b = - 1" "a = - 1" "\<forall>j \<in> set done. j \<noteq> own \<longrightarrow> \<not> acquirable now cp j"
      using assms(1) by (auto simp: scan_state_def)
    then show ?thesis using False assms(3) by (auto simp: scan_state_def)
  qed
qed

lemma scanAcquire_spec:
  assumes "sorted_wrt (<) (done @ is)" and "list_all quotaOK (pool cp)"
    and "scan_state now cp own done ba"
  shows "scan_state now cp own (done @ is) (scanAcquire now cp own is ba)"
  using assms
proof (induction "is" arbitrary: "done" ba)
  case Nil
  then show ?case by (cases ba) simp
next
  case (Cons i "is")
  obtain b a where ba: "ba = (b, a)" by (cases ba)
  have nonneg: "acquirable now cp i \<Longrightarrow> 0 \<le> active (pool cp ! i)"
    using Cons.prems(2) by (auto simp: acquirable_def quotaOK_def list_all_length)
  have lt: "\<forall>j \<in> set done. j < i"
    using Cons.prems(1) by (auto simp: sorted_wrt_append)
  from scan_state_step [OF Cons.prems(3) [unfolded ba] lt nonneg]
  have "scan_state now cp own ((done @ [i]) @ is) (scanAcquire now cp own is
          (if i \<noteq> own \<and> acquirable now cp i \<and> a < active (pool cp ! i)
           then (int i, active (pool cp ! i)) else (b, a)))"
    using Cons.prems(1,2) by (intro Cons.IH) simp_all
  then show ?case by (simp add: ba scan_step)
qed

lemma scanAcquire_all:
  assumes "pool_inv cp"
  shows "scan_state now cp own [0..<psize cp] (scanAcquire now cp own [0..<psize cp] (- 1, - 1))"
  using scanAcquire_spec [of "[]" "[0..<psize cp]" cp now own "(- 1, - 1)"] assms
  by (simp add: scan_state_def pool_inv_def sorted_wrt_upt)

text \<open>The choice as a whole.\<close>

lemma pick_cases:
  assumes inv: "pool_inv cp" and own: "own < psize cp"
  obtains (own) "acquirable now cp own" "pickAcquireSlotLocked now own cp = (int own, ''own'')"
  | (other) s kind where "\<not> acquirable now cp own" "best_of now cp own [0..<psize cp] s"
      "pickAcquireSlotLocked now own cp = (int s, kind)"
      "kind = (if active (pool cp ! s) > 0 then ''compact'' else ''fresh'')"
  | (none) "\<forall>i < psize cp. \<not> acquirable now cp i" "pickAcquireSlotLocked now own cp = (- 1, [])"
proof (cases "acquirable now cp own")
  case True
  then show thesis
    using that(1) by (auto simp: acquirable_def pickAcquireSlotLocked_def isFreshLocked_nat)
next
  case False
  then have pick: "pickAcquireSlotLocked now own cp =
      (let (b, a) = scanAcquire now cp own [0..<psize cp] (- 1, - 1)
       in if b < 0 then (- 1, []) else if a > 0 then (b, ''compact'') else (b, ''fresh''))"
    by (auto simp: acquirable_def pickAcquireSlotLocked_def isFreshLocked_nat)
  from scanAcquire_all [OF inv, of now own] consider
      (n) "scanAcquire now cp own [0..<psize cp] (- 1, - 1) = (- 1, - 1)"
        "\<forall>j \<in> set [0..<psize cp]. j \<noteq> own \<longrightarrow> \<not> acquirable now cp j"
    | (s) s where "scanAcquire now cp own [0..<psize cp] (- 1, - 1) = (int s, active (pool cp ! s))"
        "best_of now cp own [0..<psize cp] s"
    by (auto simp: scan_state_def)
  then show thesis
  proof cases
    case n
    then have "\<forall>i < psize cp. \<not> acquirable now cp i" using False by (metis atLeastLessThan_iff le0 set_upt)
    then show thesis using that(3) n(1) pick by simp
  next
    case s
    then show thesis using that(2) False pick by (cases "active (pool cp ! s) > 0") auto
  qed
qed

lemma pick_acquirable:
  assumes "pool_inv cp" and "own < psize cp" and "0 \<le> fst (pickAcquireSlotLocked now own cp)"
  shows "acquirable now cp (nat (fst (pickAcquireSlotLocked now own cp)))"
    and "nat (fst (pickAcquireSlotLocked now own cp)) < psize cp"
proof -
  show "acquirable now cp (nat (fst (pickAcquireSlotLocked now own cp)))"
    using assms by (cases rule: pick_cases [OF assms(1,2), of now]) (auto simp: best_of_def)
  show "nat (fst (pickAcquireSlotLocked now own cp)) < psize cp"
    using assms by (cases rule: pick_cases [OF assms(1,2), of now]) (auto simp: best_of_def)
qed

section \<open>Every operation keeps the invariant\<close>

lemma pool_inv_acquire:
  assumes "pool_inv cp" and "acquirable now cp s"
  shows "pool_inv (fst (acquireSlot s cp))"
  using assms pool_inv_nth [of cp s]
  by (auto simp: acquireSlot_def Let_def acquirable_def quotaOK_def)

lemma pickFetchTarget_spec:
  assumes "\<forall>s \<in> set ss. s < length (pool cp)"
  shows "(\<exists>t \<in> set ss. pickFetchTarget now cp ss = Some (int t) \<and> eligibleToFill now (pool cp ! t))
       \<or> pickFetchTarget now cp ss = Some (- 1) \<and> (\<forall>s \<in> set ss. \<not> eligibleToFill now (pool cp ! s))"
  using assms
proof (induction ss)
  case Nil
  then show ?case by simp
next
  case (Cons s ss)
  have "pickFetchTarget now cp (s # ss) =
      (if eligibleToFill now (pool cp ! s) then Some (int s) else pickFetchTarget now cp ss)"
    using Cons.prems by (simp add: eligibleToFill_def isFreshLocked_nat)
  then show ?case using Cons by (cases "eligibleToFill now (pool cp ! s)") auto
qed

lemma candidates_range:
  assumes "pool_inv cp" and "own < psize cp"
  shows "set (candidatesOrdered own cp) = {0..<psize cp}"
    and "\<forall>s \<in> set (candidatesOrdered own cp). s < length (pool cp)"
  using assms by (auto simp: candidatesOrdered_def pool_inv_def)

text \<open>The outcomes of the first critical section of \<open>get\<close>.\<close>

definition noneAcquirable :: "gotime \<Rightarrow> credPool \<Rightarrow> bool" where
  "noneAcquirable now cp \<longleftrightarrow> (\<forall>i < psize cp. \<not> acquirable now cp i)"

definition provisioned :: "gotime \<Rightarrow> credPool \<Rightarrow> int" where
  "provisioned now cp = int (countWithUsableCredsLocked now cp) + int (inFlight cp)"

definition paused :: "gotime \<Rightarrow> credPool \<Rightarrow> bool" where
  "paused now cp \<longleftrightarrow> pauseAcquireUntil cp \<noteq> 0 \<and> now < pauseAcquireUntil cp"

lemma pick_none:
  assumes "pool_inv cp" and "own < psize cp" and "\<not> 0 \<le> fst (pickAcquireSlotLocked now own cp)"
  shows "noneAcquirable now cp"
  using assms by (cases rule: pick_cases [OF assms(1,2), of now]) (auto simp: noneAcquirable_def)

lemma getBegin_unpaused:
  assumes inv: "pool_inv cp" and "\<not> paused now cp"
    and own: "own = ownSlotOf connIdx cp"
  shows "getBegin now connIdx cp =
    (let slot = fst (pickAcquireSlotLocked now own cp)
     in if slot \<ge> 0 then acquireSlot (nat slot) cp
        else if provisioned now cp \<ge> coldStartTarget cp
        then (cp, Failed (ColdStartCap (provisioned now cp) (coldStartTarget cp)))
        else (case pickFetchTarget now cp (candidatesOrdered own cp) of
                None \<Rightarrow> (cp, Panicked)
              | Some target \<Rightarrow>
                  if target = - 1 then (cp, Failed NoSlotAvailable)
                  else (setEntry (nat target) ((pool cp ! nat target)\<lparr>fetching := True\<rparr>) cp,
                        StartFetch (nat target))))"
proof -
  have same: "cp\<lparr>pool := growTo (Suc (ownSlotOf connIdx cp)) (pool cp)\<rparr> = cp" using inv by simp
  show ?thesis
    using assms(2) unfolding getBegin_def Let_def same own paused_def provisioned_def
    by (simp only: if_False)
qed

lemma getBegin_cases:
  assumes inv: "pool_inv cp"
  obtains (paused) "paused now cp"
      "(getBegin now connIdx cp :: credPool \<times> 'e getResult) =
         (cp, Failed (Paused (pauseAcquireUntil cp - now)))"
  | (acquired) s where "\<not> paused now cp"
      "fst (pickAcquireSlotLocked now (ownSlotOf connIdx cp) cp) = int s"
      "acquirable now cp s" "s < psize cp"
      "(getBegin now connIdx cp :: credPool \<times> 'e getResult) = acquireSlot s cp"
  | (capped) "\<not> paused now cp" "noneAcquirable now cp" "coldStartTarget cp \<le> provisioned now cp"
      "(getBegin now connIdx cp :: credPool \<times> 'e getResult) =
         (cp, Failed (ColdStartCap (provisioned now cp) (coldStartTarget cp)))"
  | (noslot) "\<not> paused now cp" "noneAcquirable now cp"
      "\<forall>i < psize cp. \<not> eligibleToFill now (pool cp ! i)"
      "(getBegin now connIdx cp :: credPool \<times> 'e getResult) = (cp, Failed NoSlotAvailable)"
  | (fetch) t where "\<not> paused now cp" "noneAcquirable now cp" "t < psize cp"
      "eligibleToFill now (pool cp ! t)" "provisioned now cp < coldStartTarget cp"
      "(getBegin now connIdx cp :: credPool \<times> 'e getResult) =
         (setEntry t ((pool cp ! t)\<lparr>fetching := True\<rparr>) cp, StartFetch t)"
proof (cases "paused now cp")
  case True
  then show thesis by (intro that(1)) (simp_all add: getBegin_def paused_def)
next
  case unpaused: False
  define own where "own = ownSlotOf connIdx cp"
  have own: "own < psize cp" using inv by (auto simp: own_def dest: pool_invD intro: ownSlotOf_less)
  note gb = getBegin_unpaused [OF inv unpaused own_def]
  show thesis
  proof (cases "0 \<le> fst (pickAcquireSlotLocked now own cp)")
    case True
    then show thesis
      using gb pick_acquirable [OF inv own True]
      by (intro that(2) [OF unpaused]) (simp_all add: own_def Let_def)
  next
    case nopick: False
    note none = pick_none [OF inv own nopick]
    show thesis
    proof (cases "coldStartTarget cp \<le> provisioned now cp")
      case True
      then show thesis
        using gb nopick by (intro that(3) [OF unpaused none]) (simp_all add: Let_def)
    next
      case below: False
      from pickFetchTarget_spec [OF candidates_range(2) [OF inv own], of now]
      show thesis
      proof (elim disjE bexE conjE)
        fix t
        assume "t \<in> set (candidatesOrdered own cp)"
          and "pickFetchTarget now cp (candidatesOrdered own cp) = Some (int t)"
          and "eligibleToFill now (pool cp ! t)"
        then show thesis
          using gb nopick below candidates_range(1) [OF inv own]
          by (intro that(5) [OF unpaused none, of t]) (simp_all add: Let_def)
      next
        assume "pickFetchTarget now cp (candidatesOrdered own cp) = Some (- 1)"
          and "\<forall>s \<in> set (candidatesOrdered own cp). \<not> eligibleToFill now (pool cp ! s)"
        then show thesis
          using gb nopick below candidates_range(1) [OF inv own]
          by (intro that(4) [OF unpaused none]) (simp_all add: Let_def)
      qed
    qed
  qed
qed

lemma getBegin_inv:
  "pool_inv cp \<Longrightarrow> pool_inv (fst (getBegin now connIdx cp :: credPool \<times> 'e getResult))"
  by (cases rule: getBegin_cases [where 'e = 'e, of cp now connIdx])
    (auto simp: pool_inv_acquire pool_inv_slot dest: pool_invD)

text \<open>The outcomes of the second critical section.\<close>

definition fetchFailedPool :: "gotime \<Rightarrow> nat \<Rightarrow> credPool \<Rightarrow> credPool" where
  "fetchFailedPool now t cp =
     setEntry t ((pool cp ! t)\<lparr>fetching := False, cooldownUntil := now + cooldown cp\<rparr>) cp"

lemma fetchFailedPool_frame [simp]:
  "psize (fetchFailedPool now t cp) = psize cp"
  "length (pool (fetchFailedPool now t cp)) = length (pool cp)"
  by (simp_all add: fetchFailedPool_def)

lemma fetchFailedPool_inv: "pool_inv cp \<Longrightarrow> t < length (pool cp) \<Longrightarrow> pool_inv (fetchFailedPool now t cp)"
  using pool_inv_nth [of cp t]
  by (auto simp: fetchFailedPool_def quotaOK_def intro!: pool_inv_setEntry)

lemma getFinish_cases:
  assumes inv: "pool_inv cp" and t: "t < psize cp"
  obtains (fetched) a c where "(res :: 'e fetchResult) = Inr (a, c)"
      "getFinish now wr connIdx t res cp =
         (broadcastSlotAvailable (saveToDisk now wr (resetAuthErrors t
            (setEntry t (filledEntry a (Some c) now 1) cp))), Acquired a (Some c) t)"
  | (fallback) err s where "res = Inl err" "acquirable now (fetchFailedPool now t cp) s"
      "s < psize cp"
      "getFinish now wr connIdx t res cp = acquireSlot s (fetchFailedPool now t cp)"
  | (failed) err where "res = Inl err"
      "noneAcquirable now (fetchFailedPool now t cp)"
      "getFinish now wr connIdx t res cp = (fetchFailedPool now t cp, Failed (FetchFailed err))"
proof (cases res)
  case (Inr r)
  obtain a c where "r = (a, c)" by (cases r)
  then show thesis
    using Inr inv t fetched [of a c] by (simp add: getFinish_def Let_def setEntry_def pool_inv_def)
next
  case (Inl err)
  let ?cp = "fetchFailedPool now t cp"
  have len: "t < length (pool cp)" using inv t by (simp add: pool_inv_def)
  have inv': "pool_inv ?cp" using inv len by (rule fetchFailedPool_inv)
  have own: "ownSlotOf connIdx ?cp < psize ?cp" using inv' by (intro ownSlotOf_less pool_invD)
  have fin: "getFinish now wr connIdx t res cp =
      (let slot = fst (pickAcquireSlotLocked now (ownSlotOf connIdx ?cp) ?cp)
       in if slot \<ge> 0 then acquireSlot (nat slot) ?cp else (?cp, Failed (FetchFailed err)))"
    using Inl len by (simp add: getFinish_def Let_def fetchFailedPool_def setEntry_def)
  show thesis
  proof (cases "0 \<le> fst (pickAcquireSlotLocked now (ownSlotOf connIdx ?cp) ?cp)")
    case True
    then show thesis
      using fin pick_acquirable [OF inv' own True]
      by (intro fallback [OF Inl]) (simp_all add: Let_def)
  next
    case False
    then show thesis
      using fin failed [OF Inl pick_none [OF inv' own False]] by (simp add: Let_def)
  qed
qed

lemma getFinish_inv:
  assumes "pool_inv cp" and "t < psize cp"
  shows "pool_inv (fst (getFinish now wr connIdx t res cp))"
  using assms fetchFailedPool_inv [of cp t now]
  by (cases rule: getFinish_cases [OF assms, of res now wr connIdx])
    (auto simp: pool_inv_acquire dest: pool_invD)

text \<open>The entry that \<open>release\<close> leaves behind, and when it wakes the parked connections.\<close>

definition releasedEntry :: "gotime \<Rightarrow> credPoolEntry \<Rightarrow> credPoolEntry" where
  "releasedEntry now e =
     (if active e > 1 then e\<lparr>active := active e - 1\<rparr>
      else if active e = 1 then e\<lparr>active := 0, lastUsedAt := now\<rparr> else e)"

definition releaseWakes :: "gotime \<Rightarrow> credPoolEntry \<Rightarrow> bool" where
  "releaseWakes now e \<longleftrightarrow> active e = connsPerSlot \<and> entryIsFresh now e \<and> \<not> now < saturatedUntil e"

lemma release_cases:
  obtains (noop) "slot < 0 \<or> int (min (psize cp) (length (pool cp))) \<le> slot" "release now slot cp = cp"
  | (released) s where "slot = int s" "s < psize cp" "s < length (pool cp)"
      "release now slot cp =
         (if releaseWakes now (pool cp ! s) then broadcastSlotAvailable else id)
           (setEntry s (releasedEntry now (pool cp ! s)) cp)"
proof (cases "slot < 0 \<or> int (min (psize cp) (length (pool cp))) \<le> slot")
  case True
  then show thesis by (intro noop) (auto simp: release_def)
next
  case False
  then have s: "slot = int (nat slot)" "nat slot < psize cp" "nat slot < length (pool cp)" by auto
  have "(if active e > 0 then (let e' = e\<lparr>active := active e - 1\<rparr>
          in if active e' = 0 then e'\<lparr>lastUsedAt := now\<rparr> else e') else e) = releasedEntry now e" for e
    by (simp add: releasedEntry_def Let_def)
  then show thesis
    using s False by (intro released [OF s]) (simp add: release_def Let_def releaseWakes_def)
qed

lemma releasedEntry_quota: "quotaOK e \<Longrightarrow> quotaOK (releasedEntry now e)"
  by (auto simp: quotaOK_def releasedEntry_def)

lemma release_inv: "pool_inv cp \<Longrightarrow> pool_inv (release now slot cp)"
  by (cases rule: release_cases [of slot cp now])
    (auto simp: releasedEntry_quota pool_inv_nth)

lemma applySaturation_inv:
  "pool_inv cp \<Longrightarrow> slot < length (pool cp) \<Longrightarrow> pool_inv (applySaturationLocked now slot d cp)"
  by (auto simp: applySaturationLocked_def Let_def pool_inv_nth)

lemma markSaturated_inv: "pool_inv cp \<Longrightarrow> pool_inv (fst (markSaturated now slot cp))"
  by (auto simp: markSaturated_def Let_def intro!: applySaturation_inv)

lemma applySaturation_frame [simp]:
  "psize (applySaturationLocked now slot d cp) = psize cp"
  "length (pool (applySaturationLocked now slot d cp)) = length (pool cp)"
  "authErrors (applySaturationLocked now slot d cp) = authErrors cp"
  "pauseAcquireUntil (applySaturationLocked now slot d cp) = pauseAcquireUntil cp"
  "pauseAcquireTimer (applySaturationLocked now slot d cp) = pauseAcquireTimer cp"
  "lastPathEventAt (applySaturationLocked now slot d cp) = lastPathEventAt cp"
  "disk (applySaturationLocked now slot d cp) = disk cp"
  by (simp_all add: applySaturationLocked_def Let_def)

lemma markSlot_inv:
  "pool_inv cp \<Longrightarrow> slot < length (pool cp) \<Longrightarrow> pool_inv (markSlotForPathChange now slot cp)"
  by (auto simp: markSlotForPathChange_def applySaturation_inv split: option.split)

lemma markSlot_frame [simp]:
  "psize (markSlotForPathChange now slot cp) = psize cp"
  "length (pool (markSlotForPathChange now slot cp)) = length (pool cp)"
  "pauseAcquireUntil (markSlotForPathChange now slot cp) = pauseAcquireUntil cp"
  "pauseAcquireTimer (markSlotForPathChange now slot cp) = pauseAcquireTimer cp"
  "lastPathEventAt (markSlotForPathChange now slot cp) = lastPathEventAt cp"
  by (simp_all add: markSlotForPathChange_def split: option.split)

lemma markSlots_frame [simp]:
  "psize (fold (markSlotForPathChange now) ss cp) = psize cp"
  "length (pool (fold (markSlotForPathChange now) ss cp)) = length (pool cp)"
  "pauseAcquireUntil (fold (markSlotForPathChange now) ss cp) = pauseAcquireUntil cp"
  "pauseAcquireTimer (fold (markSlotForPathChange now) ss cp) = pauseAcquireTimer cp"
  "lastPathEventAt (fold (markSlotForPathChange now) ss cp) = lastPathEventAt cp"
  by (induction ss arbitrary: cp) simp_all

lemma markSlots_inv:
  "pool_inv cp \<Longrightarrow> \<forall>s \<in> set ss. s < length (pool cp) \<Longrightarrow>
   pool_inv (fold (markSlotForPathChange now) ss cp)"
  by (induction ss arbitrary: cp) (simp_all add: markSlot_inv)

lemma extendPause_inv [simp]: "pool_inv (extendPause now d cp) = pool_inv cp"
  by (simp add: extendPause_def armPauseAcquireBroadcastLocked_def Let_def)

lemma MarkInUse_inv: "pool_inv cp \<Longrightarrow> pool_inv (MarkInUseSlotsForPathChange now cp)"
  by (simp add: MarkInUseSlotsForPathChange_def Let_def markSlots_inv)

lemma tryFillBegin_inv: "pool_inv cp \<Longrightarrow> pool_inv (fst (tryFillBegin now slot k cp))"
  by (auto simp: tryFillBegin_def Let_def pool_inv_nth intro!: pool_inv_setEntry pool_inv_grow)
    (simp_all add: pool_inv_def list_all_growTo list_all_nthD)

lemma tryFillFinish_inv: "pool_inv cp \<Longrightarrow> pool_inv (fst (tryFillFinish now wr slot k res cp))"
  by (auto simp: tryFillFinish_def Let_def pool_inv_nth split: sum.split)

lemma pickSlotToFill_inv: "pool_inv cp \<Longrightarrow> pool_inv (fst (pickSlotToFill now cp))"
  by (auto simp: pickSlotToFill_def Let_def)

lemma invalidate_inv: "pool_inv cp \<Longrightarrow> pool_inv (invalidate cp)"
  by (auto simp: invalidate_def list_all_iff intro!: pool_inv_pool)

lemma invalidateEntry_inv: "pool_inv cp \<Longrightarrow> pool_inv (invalidateEntry now wr slot cp)"
  by (auto simp: invalidateEntry_def Let_def)

lemma recordAuthError_inv: "pool_inv cp \<Longrightarrow> pool_inv (recordAuthError slot cp)"
  by (simp add: recordAuthError_def pool_inv_def)

lemma periodicSaveTick_inv: "pool_inv cp \<Longrightarrow> pool_inv (periodicSaveTick now wr cp)"
  by (simp add: periodicSaveTick_def logFreshTransitionsLocked_def Let_def)

lemma loadEntry_inv: "pool_inv cp \<Longrightarrow> pool_inv (loadEntry now e cp)"
  by (auto simp: loadEntry_def Let_def list_all_growTo pool_inv_def split: option.split
        intro!: list_all_update)

lemma loadFromDisk_inv: "pool_inv cp \<Longrightarrow> pool_inv (loadFromDisk now rd cp)"
proof -
  have "pool_inv cp \<Longrightarrow> pool_inv (fold (loadEntry now) es cp)" for es
    by (induction es arbitrary: cp) (simp_all add: loadEntry_inv)
  then show "pool_inv cp \<Longrightarrow> pool_inv (loadFromDisk now rd cp)"
    by (simp add: loadFromDisk_def split: cacheRead.split)
qed

lemma newCredPool_inv: "pool_inv (newCredPool now n cd path rd f)"
proof -
  have load: "pool_inv cp \<Longrightarrow> pool_inv (if path \<noteq> [] then loadFromDisk now rd cp else cp)" for cp
    by (simp add: loadFromDisk_inv)
  show ?thesis
    unfolding newCredPool_def Let_def by (rule load) (auto simp: pool_inv_def list_all_iff)
qed

lemma list_all_relocate: "list_all P es \<Longrightarrow> P d \<Longrightarrow> list_all P (relocate d es)"
  by (induction es) simp_all

lemma length_relocate [simp]: "length (relocate d es) = length es"
  by (induction es) simp_all

lemma clearDuplicates_facts [simp]:
  "length (clearDuplicates s u es) = length es"
  "i < length es \<Longrightarrow> clearDuplicates s u es ! i =
     (if i \<noteq> s \<and> map_option Username (creds (es ! i)) = Some u then emptyEntry else es ! i)"
  by (auto simp: clearDuplicates_def)

lemma list_all_clearDuplicates:
  "list_all P es \<Longrightarrow> P emptyEntry \<Longrightarrow> list_all P (clearDuplicates s u es)"
  by (simp add: list_all_length)

text \<open>Seeding builds its entries from the old ones, the empty entry and the seed.\<close>

lemma seedSlot_pool:
  assumes seed: "seedSlot now wr slot a c cp = Some cp'"
    and P: "list_all P (pool cp)" "P emptyEntry" "P (filledEntry a c now 0)"
  shows "list_all P (pool cp') \<and> psize cp' = psize cp
    \<and> length (authErrors cp') = length (authErrors cp) \<and> length (pool cp) \<le> length (pool cp')
    \<and> armed cp' = armed cp \<and> nextTimer cp' = nextTimer cp
    \<and> pauseAcquireUntil cp' = pauseAcquireUntil cp \<and> pauseAcquireTimer cp' = pauseAcquireTimer cp"
proof (cases "int (length (pool cp)) > slot \<and> isFreshLocked now cp slot")
  case True
  then show ?thesis using assms by (simp add: seedSlot_def)
next
  case False
  define s where "s = nat slot"
  define user where "user = (case c of None \<Rightarrow> [] | Some c' \<Rightarrow> Username c')"
  define es where "es = growTo (Suc s) (pool cp)"
  define es1 where "es1 = es[s := filledEntry a c now 0]"
  define es2 where "es2 = (if c = None then es1 else clearDuplicates s user es1)"
  define es3 where "es3 = (if case creds (es ! s) of None \<Rightarrow> False | Some oc \<Rightarrow> Username oc \<noteq> user
                           then relocate (es ! s) es2 else es2)"
  define cp2 where "cp2 = (if c \<noteq> None then resetAuthErrors s (cp\<lparr>pool := es3\<rparr>) else cp\<lparr>pool := es3\<rparr>)"
  have cp': "cp' = broadcastSlotAvailable (saveToDisk now wr cp2)"
    using False seed unfolding seedSlot_def Let_def es_def es1_def es2_def es3_def s_def user_def cp2_def
    by (simp split: if_splits)
  have "list_all P es" "s < length es" "length (pool cp) \<le> length es"
    using P by (simp_all add: es_def list_all_growTo)
  then have "list_all P es1" "length es1 = length es" "P (es ! s)"
    using P by (simp_all add: es1_def list_all_update list_all_nthD)
  then have "list_all P es2" "P (es ! s)" "length es2 = length es"
    using P(2) by (simp_all add: es2_def list_all_clearDuplicates)
  then have "list_all P es3" "length es3 = length es"
    by (simp_all add: es3_def list_all_relocate)
  then show ?thesis using cp' \<open>length (pool cp) \<le> length es\<close> by (simp add: cp2_def)
qed

lemma seedSlot_inv:
  assumes "pool_inv cp" and "seedSlot now wr slot a c cp = Some cp'"
  shows "pool_inv cp'"
  using seedSlot_pool [OF assms(2), of quotaOK] assms(1) by (auto simp: pool_inv_def)

end
