(* ===== verification/Systems.thy ===== *)
theory Systems
  imports Main
begin

text \<open>
  Transition systems: the states reachable from an initial predicate along a step relation, and the
  contract of an invariant. Every concurrent component of the development is an instance.
\<close>

inductive reach :: "('s \<Rightarrow> bool) \<Rightarrow> ('s \<Rightarrow> 's \<Rightarrow> bool) \<Rightarrow> 's \<Rightarrow> bool" for init step where
  reach_init: "init s \<Longrightarrow> reach init step s"
| reach_step: "reach init step s \<Longrightarrow> step s t \<Longrightarrow> reach init step t"

locale invariant_system =
  fixes init :: "'s \<Rightarrow> bool" and step :: "'s \<Rightarrow> 's \<Rightarrow> bool" and inv :: "'s \<Rightarrow> bool"
  assumes inv_init: "init s \<Longrightarrow> inv s"
    and inv_step: "inv s \<Longrightarrow> step s t \<Longrightarrow> inv t"
begin

lemma inv_reach: "reach init step s \<Longrightarrow> inv s"
  by (induction rule: reach.induct) (auto intro: inv_init inv_step)

end

text \<open>Systems whose steps are events that a function executes: an invariant holds after every list of events.\<close>

locale event_system =
  fixes init :: "'s \<Rightarrow> bool" and exec :: "'e \<Rightarrow> 's \<Rightarrow> 's" and inv :: "'s \<Rightarrow> bool"
  assumes event_init: "init s \<Longrightarrow> inv s"
    and event_step: "inv s \<Longrightarrow> inv (exec e s)"
begin

lemma inv_fold: "inv s \<Longrightarrow> inv (fold exec evs s)"
  by (induction evs arbitrary: s) (simp_all add: event_step)

lemma inv_run: "init s \<Longrightarrow> inv (fold exec evs s)"
  by (rule inv_fold [OF event_init])

end

sublocale event_system \<subseteq> ev: invariant_system init "\<lambda>s t. \<exists>e. t = exec e s" inv
  by unfold_locales (auto intro: event_init event_step)

end
