(* ===== verification/CredPoolSys.thy ===== *)
theory CredPoolSys
  imports CredPoolInv Systems
begin

text \<open>
  The pool under concurrency. Connections, the background grower, path-change events, timers and
  the periodic save act on one pool; each action is one critical section of
  \<open>src/pkg/proxy/creds.go\<close>, and a fetch is the gap between two of them. \<open>step\<close> is the
  interleaving relation; the invariants over \<open>reachable\<close> states follow by rule induction.

  Two actions change who a slot's \<open>active\<close> count and \<open>fetching\<close> flag speak about:
  invalidation (which empties slots under their users) and refilling a slot whose expired
  credential is still in use. They are hazards: the relation takes the set of hazards that may
  happen, and each theorem says which it needs absent.
\<close>

section \<open>The system\<close>

datatype connState = Idle | Fetching nat | Holding nat

datatype hazard = Invalidation | RefillInUse

record sys =
  cpool :: credPool
  clock :: gotime
  conns :: "connState list"
  grower :: "(nat \<times> int) option"

definition holders :: "sys \<Rightarrow> nat \<Rightarrow> nat" where
  "holders s i = length (filter (\<lambda>c. c = Holding i) (conns s))"

definition connFetchers :: "sys \<Rightarrow> nat \<Rightarrow> nat" where
  "connFetchers s i = length (filter (\<lambda>c. c = Fetching i) (conns s))"

definition growFetchers :: "sys \<Rightarrow> nat \<Rightarrow> nat" where
  "growFetchers s i = (case grower s of None \<Rightarrow> 0 | Some (g, _) \<Rightarrow> if g = i then 1 else 0)"

definition fetchers :: "sys \<Rightarrow> nat \<Rightarrow> nat" where
  "fetchers s i = connFetchers s i + growFetchers s i"

text \<open>What a connection's state is after one critical section of \<open>get\<close>.\<close>

fun connAfter :: "'e getResult \<Rightarrow> connState" where
  "connAfter (Acquired a c s) = Holding s"
| "connAfter (StartFetch t) = Fetching t"
| "connAfter (Failed e) = Idle"
| "connAfter Panicked = Idle"

definition init :: "sys \<Rightarrow> bool" where
  "init s \<longleftrightarrow> 0 \<le> clock s \<and> (\<exists>n cd path rd f. cpool s = newCredPool (clock s) n cd path rd f
        \<or> (\<exists>wr slot a c. seedSlot (clock s) wr slot a c (newCredPool (clock s) n cd path rd f)
                          = Some (cpool s)))
     \<and> (\<forall>c \<in> set (conns s). c = Idle) \<and> grower s = None"

inductive step :: "hazard set \<Rightarrow> sys \<Rightarrow> sys \<Rightarrow> bool" for H where
  tick: "clock s \<le> t \<Longrightarrow> step H s (s\<lparr>clock := t\<rparr>)"
| get_begin: "i < length (conns s) \<Longrightarrow> conns s ! i = Idle \<Longrightarrow>
    getBegin (clock s) (int i) (cpool s) = (cp, r :: string getResult) \<Longrightarrow>
    step H s (s\<lparr>cpool := cp, conns := (conns s)[i := connAfter r]\<rparr>)"
| get_finish: "i < length (conns s) \<Longrightarrow> conns s ! i = Fetching t \<Longrightarrow>
    RefillInUse \<in> H \<or> active (pool (cpool s) ! t) = 0 \<Longrightarrow>
    getFinish (clock s) wr (int i) t res (cpool s) = (cp, r :: string getResult) \<Longrightarrow>
    step H s (s\<lparr>cpool := cp, conns := (conns s)[i := connAfter r]\<rparr>)"
| release_slot: "i < length (conns s) \<Longrightarrow> conns s ! i = Holding j \<Longrightarrow>
    step H s (s\<lparr>cpool := release (clock s) (int j) (cpool s), conns := (conns s)[i := Idle]\<rparr>)"
| saturate: "step H s (s\<lparr>cpool := fst (markSaturated (clock s) slot (cpool s))\<rparr>)"
| path_change: "step H s (s\<lparr>cpool := MarkInUseSlotsForPathChange (clock s) (cpool s)\<rparr>)"
| path_transition: "step H s (s\<lparr>cpool := ExtendPauseAcquireForTransition (clock s) d (cpool s)\<rparr>)"
| fill_begin: "grower s = None \<Longrightarrow>
    tryFillBegin (clock s) (int j) k (cpool s) = (cp, r) \<Longrightarrow>
    step H s (s\<lparr>cpool := cp, grower := (if r = FillFetch then Some (j, k) else None)\<rparr>)"
| fill_finish: "grower s = Some (j, k) \<Longrightarrow>
    RefillInUse \<in> H \<or> active (pool (cpool s) ! j) = 0 \<Longrightarrow>
    step H s (s\<lparr>cpool := fst (tryFillFinish (clock s) wr j k (res :: string fetchResult) (cpool s)),
                grower := None\<rparr>)"
| pick_fill: "step H s (s\<lparr>cpool := fst (pickSlotToFill (clock s) (cpool s))\<rparr>)"
| auth_error: "step H s (s\<lparr>cpool := recordAuthError slot (cpool s)\<rparr>)"
| save_tick: "step H s (s\<lparr>cpool := periodicSaveTick (clock s) wr (cpool s)\<rparr>)"
| timer: "(i, d) \<in> set (armed (cpool s)) \<Longrightarrow> d \<le> clock s \<Longrightarrow>
    step H s (s\<lparr>cpool := fireTimer i (cpool s)\<rparr>)"
| drop_all: "Invalidation \<in> H \<Longrightarrow> step H s (s\<lparr>cpool := invalidate (cpool s)\<rparr>)"
| drop_one: "Invalidation \<in> H \<Longrightarrow>
    step H s (s\<lparr>cpool := invalidateEntry (clock s) wr slot (cpool s)\<rparr>)"

abbreviation reachable :: "hazard set \<Rightarrow> sys \<Rightarrow> bool" where
  "reachable H \<equiv> reach init (step H)"

section \<open>What each operation does to the active counts\<close>

lemma loadEntry_idle:
  "list_all (\<lambda>e. active e = 0 \<and> \<not> fetching e) (pool cp) \<Longrightarrow>
   list_all (\<lambda>e. active e = 0 \<and> \<not> fetching e) (pool (loadEntry now x cp))"
  by (auto simp: loadEntry_def Let_def list_all_growTo split: option.split intro!: list_all_update)

lemma newCredPool_idle: "list_all (\<lambda>e. active e = 0 \<and> \<not> fetching e) (pool (newCredPool now n cd path rd f))"
proof -
  have fold: "list_all (\<lambda>e. active e = 0 \<and> \<not> fetching e) (pool cp) \<Longrightarrow>
      list_all (\<lambda>e. active e = 0 \<and> \<not> fetching e) (pool (fold (loadEntry now) es cp))" for es cp
    by (induction es arbitrary: cp) (simp_all add: loadEntry_idle)
  have load: "list_all (\<lambda>e. active e = 0 \<and> \<not> fetching e) (pool cp) \<Longrightarrow>
      list_all (\<lambda>e. active e = 0 \<and> \<not> fetching e)
        (pool (if path \<noteq> [] then loadFromDisk now rd cp else cp))" for cp
    by (simp add: loadFromDisk_def fold split: cacheRead.split)
  show ?thesis unfolding newCredPool_def Let_def by (rule load) (simp add: list_all_iff)
qed

lemma init_idle:
  assumes "init s"
  shows "pool_inv (cpool s) \<and> list_all (\<lambda>e. active e = 0 \<and> \<not> fetching e) (pool (cpool s))"
  using assms seedSlot_pool [of _ _ _ _ _ _ _ "\<lambda>e. active e = 0 \<and> \<not> fetching e"]
  by (auto simp: init_def newCredPool_inv newCredPool_idle intro: seedSlot_inv [OF newCredPool_inv])

text \<open>
  One rule for the operations that leave the counts and flags of existing slots alone.
\<close>

definition sameUse :: "credPool \<Rightarrow> credPool \<Rightarrow> bool" where
  "sameUse cp cp' \<longleftrightarrow> psize cp' = psize cp
     \<and> (\<forall>j < psize cp. active (pool cp' ! j) = active (pool cp ! j)
                     \<and> fetching (pool cp' ! j) = fetching (pool cp ! j))"

lemma sameUse_refl [simp]: "sameUse cp cp"
  by (simp add: sameUse_def)

lemma sameUse_trans: "sameUse a b \<Longrightarrow> sameUse b c \<Longrightarrow> sameUse a c"
  by (simp add: sameUse_def)

lemma sameUse_grow: "pool_inv cp \<Longrightarrow> sameUse cp (cp\<lparr>pool := growTo n (pool cp)\<rparr>)"
  by (simp add: sameUse_def pool_inv_def)

lemma sameUse_apply:
  "slot < length (pool cp) \<Longrightarrow> sameUse cp (applySaturationLocked now slot d cp)"
  by (auto simp: sameUse_def applySaturationLocked_def Let_def nth_list_update)

lemma sameUse_markSaturated: "sameUse cp (fst (markSaturated now slot cp))"
  by (auto simp: markSaturated_def Let_def intro!: sameUse_apply)

lemma sameUse_markSlots:
  "\<forall>s \<in> set ss. s < length (pool cp) \<Longrightarrow> sameUse cp (fold (markSlotForPathChange now) ss cp)"
proof (induction ss arbitrary: cp)
  case Nil
  then show ?case by simp
next
  case (Cons x ss)
  have "sameUse cp (markSlotForPathChange now x cp)"
    using Cons.prems by (auto simp: markSlotForPathChange_def intro: sameUse_apply split: option.split)
  moreover have "sameUse (markSlotForPathChange now x cp)
      (fold (markSlotForPathChange now) ss (markSlotForPathChange now x cp))"
    using Cons.prems by (intro Cons.IH) simp
  ultimately show ?case by (auto intro: sameUse_trans)
qed

lemma pool_extendPause [simp]:
  "pool (extendPause now d cp) = pool cp" "psize (extendPause now d cp) = psize cp"
  by (simp_all add: extendPause_def armPauseAcquireBroadcastLocked_def Let_def)

lemma sameUse_MarkInUse: "sameUse cp (MarkInUseSlotsForPathChange now cp)"
  using sameUse_markSlots [of "[0..<min (psize cp) (length (pool cp))]" cp now]
  by (simp add: MarkInUseSlotsForPathChange_def Let_def sameUse_def)

lemma sameUse_others [simp]:
  "sameUse cp (ExtendPauseAcquireForTransition now d cp)"
  "sameUse cp (recordAuthError slot cp)"
  "sameUse cp (periodicSaveTick now wr cp)"
  "sameUse cp (fireTimer i cp)"
  by (simp_all add: sameUse_def ExtendPauseAcquireForTransition_def recordAuthError_def
      periodicSaveTick_def logFreshTransitionsLocked_def Let_def fireTimer_def)

lemma sameUse_pickSlotToFill: "pool_inv cp \<Longrightarrow> sameUse cp (fst (pickSlotToFill now cp))"
  by (simp add: pickSlotToFill_def Let_def sameUse_grow)

text \<open>
  The remaining operations change one slot: \<open>useUpd cp cp' j a f\<close> says that slot \<open>j\<close> now has
  \<open>a\<close> active connections and fetching flag \<open>f\<close>, and nothing else changed.
\<close>

definition useUpd :: "credPool \<Rightarrow> credPool \<Rightarrow> nat \<Rightarrow> int \<Rightarrow> bool \<Rightarrow> bool" where
  "useUpd cp cp' j a f \<longleftrightarrow> psize cp' = psize cp \<and> j < psize cp
     \<and> active (pool cp' ! j) = a \<and> fetching (pool cp' ! j) = f
     \<and> (\<forall>i < psize cp. i \<noteq> j \<longrightarrow> active (pool cp' ! i) = active (pool cp ! i)
                            \<and> fetching (pool cp' ! i) = fetching (pool cp ! i))"

lemma useUpd_setEntry:
  "pool_inv cp \<Longrightarrow> j < psize cp \<Longrightarrow> useUpd cp (setEntry j e cp) j (active e) (fetching e)"
  by (auto simp: useUpd_def pool_inv_def)

lemma useUpd_wrappers [simp]:
  "useUpd cp (broadcastSlotAvailable cp') j a f = useUpd cp cp' j a f"
  "useUpd cp (saveToDisk now wr cp') j a f = useUpd cp cp' j a f"
  "useUpd cp (resetAuthErrors i cp') j a f = useUpd cp cp' j a f"
  by (simp_all add: useUpd_def)

lemma useUpd_acquire:
  "pool_inv cp \<Longrightarrow> s < psize cp \<Longrightarrow>
   useUpd cp (fst (acquireSlot s cp)) s (active (pool cp ! s) + 1) (fetching (pool cp ! s))"
  using useUpd_setEntry [of cp s "(pool cp ! s)\<lparr>active := active (pool cp ! s) + 1\<rparr>"]
  by (simp add: acquireSlot_def Let_def)

lemma acquireSlot_snd: "connAfter (snd (acquireSlot s cp)) = Holding s"
  by (simp add: acquireSlot_def Let_def)

lemma getBegin_use:
  assumes inv: "pool_inv cp" and gb: "getBegin now connIdx cp = (cp', r :: 'e getResult)"
  shows "(\<exists>s < psize cp. connAfter r = Holding s
            \<and> useUpd cp cp' s (active (pool cp ! s) + 1) (fetching (pool cp ! s)))
       \<or> (\<exists>t < psize cp. connAfter r = Fetching t \<and> \<not> fetching (pool cp ! t)
            \<and> useUpd cp cp' t (active (pool cp ! t)) True)
       \<or> connAfter r = Idle \<and> cp' = cp"
proof (cases rule: getBegin_cases [where 'e = 'e, OF inv, of now connIdx])
  case (2 s)
  then show ?thesis
    using gb useUpd_acquire [OF inv 2(4), where 'a = 'e] acquireSlot_snd [where 'a = 'e, of s cp]
    by (metis fst_conv snd_conv)
next
  case (5 t)
  then show ?thesis
    using gb useUpd_setEntry [OF inv 5(3), of "(pool cp ! t)\<lparr>fetching := True\<rparr>"]
    by (auto simp: eligibleToFill_def)
qed (use gb in auto)

lemma getFinish_use:
  assumes inv: "pool_inv cp" and t: "t < psize cp"
    and gf: "getFinish now wr connIdx t res cp = (cp', r :: 'e getResult)"
  shows "(connAfter r = Holding t \<and> useUpd cp cp' t 1 False)
       \<or> (\<exists>cp1. useUpd cp cp1 t (active (pool cp ! t)) False \<and> pool_inv cp1 \<and>
            ((\<exists>s < psize cp. connAfter r = Holding s
                \<and> useUpd cp1 cp' s (active (pool cp1 ! s) + 1) (fetching (pool cp1 ! s)))
             \<or> connAfter r = Idle \<and> cp' = cp1))"
proof -
  have ff: "useUpd cp (fetchFailedPool now t cp) t (active (pool cp ! t)) False"
    using useUpd_setEntry [OF inv t,
        of "(pool cp ! t)\<lparr>fetching := False, cooldownUntil := now + cooldown cp\<rparr>"]
    by (simp add: fetchFailedPool_def)
  have ffi: "pool_inv (fetchFailedPool now t cp)"
    using inv t by (intro fetchFailedPool_inv) (auto simp: pool_inv_def)
  show ?thesis
  proof (cases rule: getFinish_cases [OF inv t, of res now wr connIdx])
    case (1 a c)
    then show ?thesis
      using gf useUpd_setEntry [OF inv t, of "filledEntry a (Some c) now 1"] by auto
  next
    case (2 err s)
    have "useUpd (fetchFailedPool now t cp) (fst (acquireSlot s (fetchFailedPool now t cp) :: _ \<times> 'e getResult))
        s (active (pool (fetchFailedPool now t cp) ! s) + 1) (fetching (pool (fetchFailedPool now t cp) ! s))"
      using 2(3) by (intro useUpd_acquire [OF ffi]) simp
    then show ?thesis
      using gf 2 ff ffi acquireSlot_snd [where 'a = 'e, of s "fetchFailedPool now t cp"]
      by (metis fst_conv snd_conv)
  next
    case (3 err)
    then show ?thesis using gf ff ffi by auto
  qed
qed

lemma release_use:
  assumes inv: "pool_inv cp" and j: "j < psize cp"
  shows "useUpd cp (release now (int j) cp) j
           (if active (pool cp ! j) > 0 then active (pool cp ! j) - 1 else active (pool cp ! j))
           (fetching (pool cp ! j))"
proof (cases rule: release_cases [of "int j" cp now])
  case noop
  then show ?thesis using inv j by (auto simp: pool_inv_def)
next
  case (released s)
  then show ?thesis
    using useUpd_setEntry [OF inv j, of "releasedEntry now (pool cp ! j)"]
    by (auto simp: releasedEntry_def split: if_splits)
qed

lemma tryFillBegin_use:
  assumes inv: "pool_inv cp" and tf: "tryFillBegin now (int j) k cp = (cp', r)"
  shows "r = FillFetch \<and> j < psize cp \<and> \<not> fetching (pool cp ! j)
            \<and> useUpd cp cp' j (active (pool cp ! j)) True
       \<or> r \<noteq> FillFetch \<and> sameUse cp cp'"
proof (cases "j < psize cp")
  case True
  then have "growTo (Suc j) (pool cp) = pool cp" using inv by (simp add: pool_inv_def)
  then show ?thesis
    using True tf useUpd_setEntry [OF inv True, of "(pool cp ! j)\<lparr>fetching := True\<rparr>"]
    by (auto simp: tryFillBegin_def Let_def split: if_splits)
next
  case False
  then show ?thesis using tf by (auto simp: tryFillBegin_def)
qed

lemma tryFillFinish_use:
  assumes inv: "pool_inv cp" and j: "j < psize cp"
  shows "useUpd cp (fst (tryFillFinish now wr j k res cp)) j (active (pool cp ! j)) False
       \<or> useUpd cp (fst (tryFillFinish now wr j k res cp)) j 0 False"
proof -
  have len: "j < length (pool cp)" using inv j by (simp add: pool_inv_def)
  show ?thesis
    using len useUpd_setEntry [OF inv j, of "(pool cp ! j)\<lparr>fetching := False\<rparr>"]
      useUpd_setEntry [OF inv j, of "(pool cp ! j)\<lparr>fetching := False, cooldownUntil := now + cooldown cp\<rparr>"]
      useUpd_setEntry [OF inv j, of "filledEntry a (Some c) now 0" for a c]
    by (auto simp: tryFillFinish_def Let_def split: sum.split)
qed

section \<open>The invariants of the system\<close>

definition inRange :: "nat \<Rightarrow> connState \<Rightarrow> bool" where
  "inRange n c = (case c of Idle \<Rightarrow> True | Fetching t \<Rightarrow> t < n | Holding j \<Rightarrow> j < n)"

definition shape_inv :: "sys \<Rightarrow> bool" where
  "shape_inv s \<longleftrightarrow> pool_inv (cpool s) \<and> list_all (inRange (psize (cpool s))) (conns s)
     \<and> (\<forall>j k. grower s = Some (j, k) \<longrightarrow> j < psize (cpool s))"

text \<open>
  For one slot: \<open>a\<close> active, fetching flag \<open>f\<close>, \<open>h\<close> connections on it, \<open>n\<close> fetches into it.
  The count never exceeds the connections; with no hazard it is exact. Without invalidation the
  flag says exactly whether a fetch is running, so there is never a second one.
\<close>

definition slotOK :: "hazard set \<Rightarrow> int \<Rightarrow> bool \<Rightarrow> nat \<Rightarrow> nat \<Rightarrow> bool" where
  "slotOK H a f h n \<longleftrightarrow> a \<le> int h \<and> (H = {} \<longrightarrow> a = int h)
     \<and> (Invalidation \<notin> H \<longrightarrow> n = (if f then 1 else 0))"

definition useOK :: "hazard set \<Rightarrow> credPool \<Rightarrow> (nat \<Rightarrow> nat) \<Rightarrow> (nat \<Rightarrow> nat) \<Rightarrow> bool" where
  "useOK H cp h n \<longleftrightarrow>
     (\<forall>j < psize cp. slotOK H (active (pool cp ! j)) (fetching (pool cp ! j)) (h j) (n j))"

definition sys_inv :: "hazard set \<Rightarrow> sys \<Rightarrow> bool" where
  "sys_inv H s \<longleftrightarrow> shape_inv s \<and> useOK H (cpool s) (holders s) (fetchers s)"

lemma useOK_same: "useOK H cp h n \<Longrightarrow> sameUse cp cp' \<Longrightarrow> useOK H cp' h n"
  by (simp add: useOK_def sameUse_def)

lemma useOK_upd:
  assumes "useOK H cp h n" and "useUpd cp cp' j a f" and "slotOK H a f (h' j) (n' j)"
    and "\<And>i. i \<noteq> j \<Longrightarrow> h' i = h i \<and> n' i = n i"
  shows "useOK H cp' h' n'"
  unfolding useOK_def
proof (intro allI impI)
  fix i
  assume "i < psize cp'"
  then show "slotOK H (active (pool cp' ! i)) (fetching (pool cp' ! i)) (h' i) (n' i)"
    using assms by (cases "i = j") (auto simp: useOK_def useUpd_def)
qed

text \<open>How a change of one connection's state changes the counts.\<close>

lemma count_move:
  assumes "i < length cs" and "cs ! i = c"
  shows "length (filter (\<lambda>d. d = x) (cs[i := c'])) =
      length (filter (\<lambda>d. d = x) cs) + (if c' = x then 1 else 0) - (if c = x then 1 else 0)"
    and "c = x \<Longrightarrow> 0 < length (filter (\<lambda>d. d = x) cs)"
proof -
  show "length (filter (\<lambda>d. d = x) (cs[i := c'])) =
      length (filter (\<lambda>d. d = x) cs) + (if c' = x then 1 else 0) - (if c = x then 1 else 0)"
    using length_filter_list_update [OF assms(1), of "\<lambda>d. d = x" c'] assms(2) by auto
  show "c = x \<Longrightarrow> 0 < length (filter (\<lambda>d. d = x) cs)"
    using assms by (auto simp: filter_empty_conv)
qed

lemma holders_move:
  assumes "i < length (conns s)" and "conns s ! i = c"
  shows "holders (s\<lparr>cpool := cp, conns := (conns s)[i := c']\<rparr>) j =
      holders s j + (if c' = Holding j then 1 else 0) - (if c = Holding j then 1 else 0)"
    and "c = Holding j \<Longrightarrow> 0 < holders s j"
  using count_move [OF assms, of "Holding j"] by (simp_all add: holders_def)

lemma fetchers_move:
  assumes "i < length (conns s)" and "conns s ! i = c"
  shows "fetchers (s\<lparr>cpool := cp, conns := (conns s)[i := c']\<rparr>) j =
      fetchers s j + (if c' = Fetching j then 1 else 0) - (if c = Fetching j then 1 else 0)"
    and "c = Fetching j \<Longrightarrow> 0 < fetchers s j"
  using count_move [OF assms, of "Fetching j"]
  by (auto simp: fetchers_def connFetchers_def growFetchers_def split: option.split)

lemma counts_frame [simp]:
  "holders (s\<lparr>cpool := cp\<rparr>) = holders s" "holders (s\<lparr>clock := t\<rparr>) = holders s"
  "holders (s\<lparr>cpool := cp, grower := g\<rparr>) = holders s"
  "fetchers (s\<lparr>cpool := cp\<rparr>) = fetchers s" "fetchers (s\<lparr>clock := t\<rparr>) = fetchers s"
  by (simp_all add: holders_def fetchers_def connFetchers_def growFetchers_def fun_eq_iff)

lemma shape_pool:
  "shape_inv s \<Longrightarrow> pool_inv cp \<Longrightarrow> psize cp = psize (cpool s) \<Longrightarrow> shape_inv (s\<lparr>cpool := cp\<rparr>)"
  by (simp add: shape_inv_def)

lemma shape_conn:
  "shape_inv s \<Longrightarrow> pool_inv cp \<Longrightarrow> psize cp = psize (cpool s) \<Longrightarrow> inRange (psize (cpool s)) c \<Longrightarrow>
   shape_inv (s\<lparr>cpool := cp, conns := (conns s)[i := c]\<rparr>)"
  by (simp add: shape_inv_def list_all_update)

lemma shape_conn_nth: "shape_inv s \<Longrightarrow> i < length (conns s) \<Longrightarrow> inRange (psize (cpool s)) (conns s ! i)"
  by (simp add: shape_inv_def list_all_length)

text \<open>One lemma per kind of step.\<close>

lemma sys_same:
  assumes "sys_inv H s" and "pool_inv cp" and "sameUse (cpool s) cp"
  shows "sys_inv H (s\<lparr>cpool := cp\<rparr>)"
  using assms by (auto simp: sys_inv_def sameUse_def [of "cpool s"] intro: shape_pool useOK_same)

lemma sys_get_begin:
  assumes inv: "sys_inv H s" and i: "i < length (conns s)" "conns s ! i = Idle"
    and gb: "getBegin (clock s) (int i) (cpool s) = (cp, r :: string getResult)"
  shows "sys_inv H (s\<lparr>cpool := cp, conns := (conns s)[i := connAfter r]\<rparr>)"
proof -
  let ?s' = "s\<lparr>cpool := cp, conns := (conns s)[i := connAfter r]\<rparr>"
  have sh: "shape_inv s" and pi: "pool_inv (cpool s)" and use: "useOK H (cpool s) (holders s) (fetchers s)"
    using inv by (simp_all add: sys_inv_def shape_inv_def)
  have pi': "pool_inv cp" using getBegin_inv [OF pi, of "clock s" "int i", where 'e = string] gb by simp
  note moves = holders_move(1) [OF i] fetchers_move(1) [OF i]
  from getBegin_use [OF pi gb] consider
      (h) j where "j < psize (cpool s)" "connAfter r = Holding j"
        "useUpd (cpool s) cp j (active (pool (cpool s) ! j) + 1) (fetching (pool (cpool s) ! j))"
    | (f) t where "t < psize (cpool s)" "connAfter r = Fetching t" "\<not> fetching (pool (cpool s) ! t)"
        "useUpd (cpool s) cp t (active (pool (cpool s) ! t)) True"
    | (n) "connAfter r = Idle" "cp = cpool s" by blast
  then show ?thesis
  proof cases
    case h
    have "useOK H cp (holders ?s') (fetchers ?s')"
      using use h(1) by (intro useOK_upd [OF use h(3)]) (auto simp: moves h(2) useOK_def slotOK_def)
    moreover have "shape_inv ?s'" using sh pi' h by (intro shape_conn) (auto simp: useUpd_def inRange_def)
    ultimately show ?thesis by (simp add: sys_inv_def)
  next
    case f
    have "useOK H cp (holders ?s') (fetchers ?s')"
      using use f(1,3) by (intro useOK_upd [OF use f(4)]) (auto simp: moves f(2) useOK_def slotOK_def)
    moreover have "shape_inv ?s'" using sh pi' f by (intro shape_conn) (auto simp: useUpd_def inRange_def)
    ultimately show ?thesis by (simp add: sys_inv_def)
  next
    case n
    have "(conns s)[i := Idle] = conns s" using i(2) list_update_id [of "conns s" i] by simp
    then have "?s' = s" using n by simp
    then show ?thesis using inv by simp
  qed
qed

lemma sys_get_finish:
  assumes inv: "sys_inv H s" and i: "i < length (conns s)" "conns s ! i = Fetching t"
    and hz: "RefillInUse \<in> H \<or> active (pool (cpool s) ! t) = 0"
    and gf: "getFinish (clock s) wr (int i) t res (cpool s) = (cp, r :: string getResult)"
  shows "sys_inv H (s\<lparr>cpool := cp, conns := (conns s)[i := connAfter r]\<rparr>)"
proof -
  let ?s' = "s\<lparr>cpool := cp, conns := (conns s)[i := connAfter r]\<rparr>"
  have sh: "shape_inv s" and pi: "pool_inv (cpool s)" and use: "useOK H (cpool s) (holders s) (fetchers s)"
    using inv by (simp_all add: sys_inv_def shape_inv_def)
  have t: "t < psize (cpool s)" using shape_conn_nth [OF sh i(1)] i(2) by (simp add: inRange_def)
  have pi': "pool_inv cp" using getFinish_inv [OF pi t, of "clock s" wr "int i" res] gf by simp
  have n: "0 < fetchers s t" using fetchers_move(2) [OF i] by simp
  note moves = holders_move(1) [OF i] fetchers_move(1) [OF i]
  from getFinish_use [OF pi t gf] consider
      (f) "connAfter r = Holding t" "useUpd (cpool s) cp t 1 False"
    | (h) cp1 j where "useUpd (cpool s) cp1 t (active (pool (cpool s) ! t)) False"
        "j < psize (cpool s)" "connAfter r = Holding j"
        "useUpd cp1 cp j (active (pool cp1 ! j) + 1) (fetching (pool cp1 ! j))"
    | (i) "useUpd (cpool s) cp t (active (pool (cpool s) ! t)) False" "connAfter r = Idle" by blast
  then show ?thesis
  proof cases
    case f
    have "useOK H cp (holders ?s') (fetchers ?s')"
      using use t n hz by (intro useOK_upd [OF use f(2)]) (auto simp: moves f(1) useOK_def slotOK_def)
    moreover have "shape_inv ?s'" using sh pi' f t by (intro shape_conn) (auto simp: useUpd_def inRange_def)
    ultimately show ?thesis by (simp add: sys_inv_def)
  next
    case h
    have mid: "useOK H cp1 (holders s) (fetchers ?s')"
      using use t n by (intro useOK_upd [OF use h(1)]) (auto simp: moves h(3) useOK_def slotOK_def)
    have "j < psize cp1" using h(1,2) by (simp add: useUpd_def)
    then have "useOK H cp (holders ?s') (fetchers ?s')"
      using mid by (intro useOK_upd [OF mid h(4)]) (auto simp: moves h(3) useOK_def slotOK_def)
    moreover have "shape_inv ?s'" using sh pi' h by (intro shape_conn) (auto simp: useUpd_def inRange_def)
    ultimately show ?thesis by (simp add: sys_inv_def)
  next
    case i
    have "useOK H cp (holders ?s') (fetchers ?s')"
      using use t n by (intro useOK_upd [OF use i(1)]) (auto simp: moves i(2) useOK_def slotOK_def)
    moreover have "shape_inv ?s'" using sh pi' i by (intro shape_conn) (auto simp: useUpd_def inRange_def)
    ultimately show ?thesis by (simp add: sys_inv_def)
  qed
qed

lemma sys_release:
  assumes inv: "sys_inv H s" and i: "i < length (conns s)" "conns s ! i = Holding j"
  shows "sys_inv H (s\<lparr>cpool := release (clock s) (int j) (cpool s), conns := (conns s)[i := Idle]\<rparr>)"
proof -
  let ?cp = "release (clock s) (int j) (cpool s)"
  have sh: "shape_inv s" and pi: "pool_inv (cpool s)" and use: "useOK H (cpool s) (holders s) (fetchers s)"
    using inv by (simp_all add: sys_inv_def shape_inv_def)
  have j: "j < psize (cpool s)" using shape_conn_nth [OF sh i(1)] i(2) by (simp add: inRange_def)
  have h: "0 < holders s j" using holders_move(2) [OF i] by simp
  note ru = release_use [OF pi j, of "clock s"]
  have "useOK H ?cp (holders (s\<lparr>cpool := ?cp, conns := (conns s)[i := Idle]\<rparr>))
      (fetchers (s\<lparr>cpool := ?cp, conns := (conns s)[i := Idle]\<rparr>))"
    using use j h by (intro useOK_upd [OF use ru])
      (auto simp: holders_move(1) [OF i] fetchers_move(1) [OF i] useOK_def slotOK_def)
  moreover have "shape_inv (s\<lparr>cpool := ?cp, conns := (conns s)[i := Idle]\<rparr>)"
    using sh release_inv [OF pi] ru by (intro shape_conn) (auto simp: useUpd_def inRange_def)
  ultimately show ?thesis by (simp add: sys_inv_def)
qed

lemma sys_fill_begin:
  assumes inv: "sys_inv H s" and g: "grower s = None"
    and tf: "tryFillBegin (clock s) (int j) k (cpool s) = (cp, r)"
  shows "sys_inv H (s\<lparr>cpool := cp, grower := (if r = FillFetch then Some (j, k) else None)\<rparr>)"
proof -
  let ?s' = "s\<lparr>cpool := cp, grower := (if r = FillFetch then Some (j, k) else None)\<rparr>"
  have sh: "shape_inv s" and pi: "pool_inv (cpool s)" and use: "useOK H (cpool s) (holders s) (fetchers s)"
    using inv by (simp_all add: sys_inv_def shape_inv_def)
  have pi': "pool_inv cp" using tryFillBegin_inv [OF pi, of "clock s" "int j" k] tf by simp
  have f: "fetchers ?s' i = fetchers s i + (if r = FillFetch \<and> i = j then 1 else 0)" for i
    using g by (simp add: fetchers_def connFetchers_def growFetchers_def)
  from tryFillBegin_use [OF pi tf] show ?thesis
  proof (elim disjE conjE)
    assume r: "r = FillFetch" "j < psize (cpool s)" "\<not> fetching (pool (cpool s) ! j)"
      and u: "useUpd (cpool s) cp j (active (pool (cpool s) ! j)) True"
    have "useOK H cp (holders s) (fetchers ?s')"
      using use r f by (intro useOK_upd [OF use u]) (auto simp: useOK_def slotOK_def)
    then show ?thesis using sh pi' u r by (simp add: sys_inv_def shape_inv_def useUpd_def)
  next
    assume r: "r \<noteq> FillFetch" and u: "sameUse (cpool s) cp"
    then have "fetchers ?s' = fetchers s" using f by (simp add: fun_eq_iff)
    then show ?thesis
      using r u sh pi' use useOK_same [OF use u] by (simp add: sys_inv_def shape_inv_def sameUse_def)
  qed
qed

lemma sys_fill_finish:
  assumes inv: "sys_inv H s" and g: "grower s = Some (j, k)"
    and hz: "RefillInUse \<in> H \<or> active (pool (cpool s) ! j) = 0"
  shows "sys_inv H (s\<lparr>cpool := fst (tryFillFinish (clock s) wr j k res (cpool s)), grower := None\<rparr>)"
proof -
  let ?cp = "fst (tryFillFinish (clock s) wr j k res (cpool s))"
  let ?s' = "s\<lparr>cpool := ?cp, grower := None\<rparr>"
  have sh: "shape_inv s" and pi: "pool_inv (cpool s)" and use: "useOK H (cpool s) (holders s) (fetchers s)"
    using inv by (simp_all add: sys_inv_def shape_inv_def)
  have j: "j < psize (cpool s)" using sh g by (simp add: shape_inv_def)
  have f: "fetchers s i = fetchers ?s' i + (if i = j then 1 else 0)" for i
    using g by (simp add: fetchers_def connFetchers_def growFetchers_def)
  obtain a where u: "useUpd (cpool s) ?cp j a False" and a: "a = active (pool (cpool s) ! j) \<or> a = 0"
    using tryFillFinish_use [OF pi j, of "clock s" wr k res] by blast
  have "useOK H ?cp (holders s) (fetchers ?s')"
  proof (rule useOK_upd [OF use u])
    have "slotOK H (active (pool (cpool s) ! j)) (fetching (pool (cpool s) ! j)) (holders s j) (fetchers s j)"
      using use j by (simp add: useOK_def)
    then show "slotOK H a False (holders s j) (fetchers ?s' j)"
      using a hz f [of j] by (auto simp: slotOK_def split: if_splits)
  qed (use f in simp)
  then show ?thesis
    using sh u tryFillFinish_inv [OF pi, of "clock s" wr j k res]
    by (simp add: sys_inv_def shape_inv_def useUpd_def)
qed

lemma sys_drop_all: "sys_inv H s \<Longrightarrow> Invalidation \<in> H \<Longrightarrow> sys_inv H (s\<lparr>cpool := invalidate (cpool s)\<rparr>)"
  by (auto simp: sys_inv_def shape_inv_def useOK_def slotOK_def invalidate_inv)
    (auto simp: invalidate_def)

lemma sys_drop_one:
  assumes inv: "sys_inv H s" and H: "Invalidation \<in> H"
  shows "sys_inv H (s\<lparr>cpool := invalidateEntry now wr slot (cpool s)\<rparr>)"
proof -
  let ?cp = "invalidateEntry now wr slot (cpool s)"
  have pi: "pool_inv (cpool s)" and use: "useOK H (cpool s) (holders s) (fetchers s)"
    using inv by (simp_all add: sys_inv_def shape_inv_def)
  have ps: "psize ?cp = psize (cpool s)" by (simp add: invalidateEntry_def Let_def)
  have "active (pool ?cp ! i) = active (pool (cpool s) ! i) \<or> active (pool ?cp ! i) = 0"
    if "i < psize (cpool s)" for i
    using that pi by (auto simp: invalidateEntry_def Let_def pool_inv_def nth_list_update)
  then have "useOK H ?cp (holders s) (fetchers s)"
    using use H ps by (fastforce simp: useOK_def slotOK_def)
  then show ?thesis
    using inv ps invalidateEntry_inv [OF pi] by (simp add: sys_inv_def shape_inv_def)
qed

lemma sys_init:
  assumes "init s"
  shows "sys_inv H s"
proof -
  have idle: "\<forall>c \<in> set (conns s). c = Idle" and g: "grower s = None"
    using assms by (simp_all add: init_def)
  then have "holders s j = 0" "fetchers s j = 0" "list_all (inRange n) (conns s)" for j n
    by (auto simp: holders_def fetchers_def connFetchers_def growFetchers_def inRange_def
        filter_empty_conv list_all_iff)
  then show ?thesis
    using init_idle [OF assms] g
    by (auto simp: sys_inv_def shape_inv_def useOK_def slotOK_def list_all_length pool_inv_def)
qed

lemma sys_step: "step H s t \<Longrightarrow> sys_inv H s \<Longrightarrow> sys_inv H t"
proof (induction rule: step.induct)
  case (tick s t)
  then show ?case by (simp add: sys_inv_def shape_inv_def)
next
  case (saturate s slot)
  then show ?case
    by (intro sys_same sameUse_markSaturated) (auto simp: sys_inv_def shape_inv_def markSaturated_inv)
next
  case (path_change s)
  then show ?case
    by (intro sys_same sameUse_MarkInUse) (auto simp: sys_inv_def shape_inv_def MarkInUse_inv)
next
  case (path_transition s d)
  then show ?case
    by (intro sys_same sameUse_others)
      (auto simp: sys_inv_def shape_inv_def ExtendPauseAcquireForTransition_def)
next
  case (pick_fill s)
  then show ?case
    by (intro sys_same sameUse_pickSlotToFill) (auto simp: sys_inv_def shape_inv_def pickSlotToFill_inv)
next
  case (auth_error s slot)
  then show ?case
    by (intro sys_same sameUse_others) (auto simp: sys_inv_def shape_inv_def recordAuthError_inv)
next
  case (save_tick s wr)
  then show ?case
    by (intro sys_same sameUse_others) (auto simp: sys_inv_def shape_inv_def periodicSaveTick_inv)
next
  case (timer i d s)
  then show ?case by (intro sys_same sameUse_others) (auto simp: sys_inv_def shape_inv_def)
qed (blast intro: sys_get_begin sys_get_finish sys_release sys_fill_begin sys_fill_finish
      sys_drop_all sys_drop_one)+

interpretation pool_sys: invariant_system init "step H" "sys_inv H" for H
  by unfold_locales (blast intro: sys_init sys_step)+

end
