(* ===== verification/CredPoolTimers.thy ===== *)
theory CredPoolTimers
  imports CredPoolSys
begin

text \<open>
  No lost wake-up. A connection that finds the pool paused or its slots saturated parks on the
  broadcast channel; what wakes it is the timer armed with the deadline. The invariant here says
  that in every reachable state a running timer stands behind every saturation deadline and the
  pause deadline that still lie in the future.
\<close>

definition satOf :: "credPoolEntry \<Rightarrow> gotime \<times> nat option" where
  "satOf e = (saturatedUntil e, saturationTimer e)"

lemma satOf_simps [simp]:
  "satOf emptyEntry = (0, None)" "satOf (filledEntry a c now n) = (0, None)"
  "satOf (e\<lparr>active := x\<rparr>) = satOf e" "satOf (e\<lparr>fetching := b\<rparr>) = satOf e"
  "satOf (e\<lparr>cooldownUntil := t\<rparr>) = satOf e" "satOf (e\<lparr>lastUsedAt := t\<rparr>) = satOf e"
  "satOf (e\<lparr>lastUsedAt := t, availableAt := u\<rparr>) = satOf e"
  by (simp_all add: satOf_def)

text \<open>
  \<open>timerOf cp j i\<close>: slot \<open>j\<close> owns timer \<open>i\<close>. The identities in use are old, no two owners
  share one, and each future deadline has its owner's timer running.
\<close>

definition timerOf :: "credPool \<Rightarrow> nat \<Rightarrow> nat \<Rightarrow> bool" where
  "timerOf cp j i \<longleftrightarrow> j < length (pool cp) \<and> saturationTimer (pool cp ! j) = Some i"

definition timers_ok :: "gotime \<Rightarrow> credPool \<Rightarrow> bool" where
  "timers_ok clk cp \<longleftrightarrow>
     (\<forall>i d. (i, d) \<in> set (armed cp) \<longrightarrow> i < nextTimer cp)
   \<and> distinct (map fst (armed cp))
   \<and> (\<forall>j i. timerOf cp j i \<longrightarrow> i < nextTimer cp)
   \<and> (\<forall>i. pauseAcquireTimer cp = Some i \<longrightarrow> i < nextTimer cp)
   \<and> (\<forall>j k i. timerOf cp j i \<longrightarrow> timerOf cp k i \<longrightarrow> j = k)
   \<and> (\<forall>j i. timerOf cp j i \<longrightarrow> pauseAcquireTimer cp \<noteq> Some i)
   \<and> (\<forall>j < length (pool cp). clk < saturatedUntil (pool cp ! j) \<longrightarrow>
        (\<exists>i. timerOf cp j i \<and> (i, saturatedUntil (pool cp ! j)) \<in> set (armed cp)))
   \<and> (clk < pauseAcquireUntil cp \<longrightarrow>
        (\<exists>i. pauseAcquireTimer cp = Some i \<and> (i, pauseAcquireUntil cp) \<in> set (armed cp)))"

lemma timers_okD:
  assumes "timers_ok clk cp"
  shows "(i, d) \<in> set (armed cp) \<Longrightarrow> i < nextTimer cp" and "distinct (map fst (armed cp))"
    and "timerOf cp j i \<Longrightarrow> i < nextTimer cp"
    and "pauseAcquireTimer cp = Some i \<Longrightarrow> i < nextTimer cp"
    and "timerOf cp j i \<Longrightarrow> timerOf cp k i \<Longrightarrow> j = k"
    and "timerOf cp j i \<Longrightarrow> pauseAcquireTimer cp \<noteq> Some i"
    and "j < length (pool cp) \<Longrightarrow> clk < saturatedUntil (pool cp ! j) \<Longrightarrow>
      \<exists>i. timerOf cp j i \<and> (i, saturatedUntil (pool cp ! j)) \<in> set (armed cp)"
    and "clk < pauseAcquireUntil cp \<Longrightarrow>
      \<exists>i. pauseAcquireTimer cp = Some i \<and> (i, pauseAcquireUntil cp) \<in> set (armed cp)"
  using assms unfolding timers_ok_def by blast+

lemma timers_okI:
  assumes "\<And>i d. (i, d) \<in> set (armed cp) \<Longrightarrow> i < nextTimer cp" and "distinct (map fst (armed cp))"
    and "\<And>j i. timerOf cp j i \<Longrightarrow> i < nextTimer cp"
    and "\<And>i. pauseAcquireTimer cp = Some i \<Longrightarrow> i < nextTimer cp"
    and "\<And>j k i. timerOf cp j i \<Longrightarrow> timerOf cp k i \<Longrightarrow> j = k"
    and "\<And>j i. timerOf cp j i \<Longrightarrow> pauseAcquireTimer cp \<noteq> Some i"
    and "\<And>j. j < length (pool cp) \<Longrightarrow> clk < saturatedUntil (pool cp ! j) \<Longrightarrow>
      \<exists>i. timerOf cp j i \<and> (i, saturatedUntil (pool cp ! j)) \<in> set (armed cp)"
    and "clk < pauseAcquireUntil cp \<Longrightarrow>
      \<exists>i. pauseAcquireTimer cp = Some i \<and> (i, pauseAcquireUntil cp) \<in> set (armed cp)"
  shows "timers_ok clk cp"
  unfolding timers_ok_def using assms by blast

section \<open>Operations that touch no timer\<close>

definition timerNeutral :: "credPool \<Rightarrow> credPool \<Rightarrow> bool" where
  "timerNeutral cp cp' \<longleftrightarrow> armed cp' = armed cp \<and> nextTimer cp' = nextTimer cp
     \<and> pauseAcquireUntil cp' = pauseAcquireUntil cp \<and> pauseAcquireTimer cp' = pauseAcquireTimer cp
     \<and> (\<forall>i < length (pool cp'). satOf (pool cp' ! i) = (0, None)
          \<or> i < length (pool cp) \<and> satOf (pool cp' ! i) = satOf (pool cp ! i))"

lemma timers_ok_neutral:
  assumes ok: "timers_ok clk cp" and n: "timerNeutral cp cp'" and clk: "0 \<le> clk"
  shows "timers_ok clk cp'"
proof -
  have e: "timerOf cp j i" if "timerOf cp' j i" for i j
    using n that by (auto simp: timerNeutral_def satOf_def timerOf_def)
  have u: "j < length (pool cp) \<and> saturatedUntil (pool cp' ! j) = saturatedUntil (pool cp ! j)
      \<and> (\<forall>i. timerOf cp j i \<longrightarrow> timerOf cp' j i)"
    if "j < length (pool cp')" "clk < saturatedUntil (pool cp' ! j)" for j
    using n that clk by (force simp: timerNeutral_def satOf_def timerOf_def)
  have eqs: "armed cp' = armed cp" "nextTimer cp' = nextTimer cp"
    "pauseAcquireUntil cp' = pauseAcquireUntil cp" "pauseAcquireTimer cp' = pauseAcquireTimer cp"
    using n by (simp_all add: timerNeutral_def)
  note D = timers_okD [OF ok]
  show ?thesis
  proof (rule timers_okI)
    show "\<exists>i. timerOf cp' j i \<and> (i, saturatedUntil (pool cp' ! j)) \<in> set (armed cp')"
      if "j < length (pool cp')" "clk < saturatedUntil (pool cp' ! j)" for j
      using u [OF that] D(7) [of j] that(2) by (auto simp: eqs)
    show "i < nextTimer cp'" if "timerOf cp' j i" for j i
      using D(3) [OF e [OF that]] by (simp add: eqs)
    show "j = k" if "timerOf cp' j i" "timerOf cp' k i" for j k i
      using D(5) [OF e [OF that(1)] e [OF that(2)]] .
    show "pauseAcquireTimer cp' \<noteq> Some i" if "timerOf cp' j i" for j i
      using D(6) [OF e [OF that]] by (simp add: eqs)
  qed (use D(1,2,4,8) in \<open>simp_all add: eqs\<close>)
qed

lemma neutral_refl [simp]: "timerNeutral cp cp"
  by (simp add: timerNeutral_def)

lemma neutral_trans: "timerNeutral a b \<Longrightarrow> timerNeutral b c \<Longrightarrow> timerNeutral a c"
  by (fastforce simp: timerNeutral_def)

lemma neutral_setEntry:
  assumes "satOf e = (0, None) \<or> satOf e = satOf (pool cp ! j)"
  shows "timerNeutral cp (setEntry j e cp)"
proof -
  have "satOf ((pool cp)[j := e] ! i) = (0, None) \<or> satOf ((pool cp)[j := e] ! i) = satOf (pool cp ! i)"
    if "i < length (pool cp)" for i
    using assms that by (cases "i = j") auto
  then show ?thesis by (auto simp: timerNeutral_def)
qed

lemma neutral_wrap [simp]:
  "timerNeutral cp (broadcastSlotAvailable cp') = timerNeutral cp cp'"
  "timerNeutral cp (saveToDisk now wr cp') = timerNeutral cp cp'"
  "timerNeutral cp (resetAuthErrors i cp') = timerNeutral cp cp'"
  by (simp_all add: timerNeutral_def)

lemma neutral_pool:
  "(\<And>i. i < length es \<Longrightarrow> satOf (es ! i) = (0, None)
      \<or> i < length (pool cp) \<and> satOf (es ! i) = satOf (pool cp ! i)) \<Longrightarrow>
   timerNeutral cp (cp\<lparr>pool := es\<rparr>)"
  by (simp add: timerNeutral_def)

lemma neutral_grow: "timerNeutral cp (cp\<lparr>pool := growTo n (pool cp)\<rparr>)"
  by (rule neutral_pool) (auto simp: growTo_def nth_append)

lemma neutral_acquire: "timerNeutral cp (fst (acquireSlot s cp))"
  by (simp add: acquireSlot_def Let_def neutral_setEntry)

lemma neutral_getBegin:
  assumes "pool_inv cp"
  shows "timerNeutral cp (fst (getBegin now c cp :: credPool \<times> 'e getResult))"
  by (cases rule: getBegin_cases [where 'e = 'e, OF assms, of now c])
    (simp_all add: neutral_acquire neutral_setEntry)

lemma neutral_getFinish:
  assumes "pool_inv cp" and "t < psize cp"
  shows "timerNeutral cp (fst (getFinish now wr c t res cp))"
proof -
  have ff: "timerNeutral cp (fetchFailedPool now t cp)"
    by (auto simp: fetchFailedPool_def intro!: neutral_setEntry)
  then show ?thesis
    by (cases rule: getFinish_cases [OF assms, of res now wr c])
      (auto simp: neutral_setEntry intro: neutral_trans neutral_acquire)
qed

lemma neutral_release: "timerNeutral cp (release now slot cp)"
  by (cases rule: release_cases [of slot cp now])
    (auto simp: releasedEntry_def satOf_def intro!: neutral_setEntry)

lemma neutral_tryFillBegin: "timerNeutral cp (fst (tryFillBegin now slot k cp))"
proof -
  have "timerNeutral cp (setEntry j ((growTo n (pool cp) ! j)\<lparr>fetching := True\<rparr>)
          (cp\<lparr>pool := growTo n (pool cp)\<rparr>))" for j n
    by (rule neutral_trans [OF neutral_grow]) (auto intro!: neutral_setEntry)
  then show ?thesis by (simp add: tryFillBegin_def Let_def neutral_grow)
qed

lemma neutral_tryFillFinish: "timerNeutral cp (fst (tryFillFinish now wr j k res cp))"
  by (auto simp: tryFillFinish_def Let_def neutral_setEntry split: sum.split)

lemma neutral_others:
  "timerNeutral cp (fst (pickSlotToFill now cp))" "timerNeutral cp (recordAuthError slot cp)"
  "timerNeutral cp (periodicSaveTick now wr cp)" "timerNeutral cp (invalidate cp)"
  "timerNeutral cp (invalidateEntry now wr slot cp)"
  by (simp_all add: pickSlotToFill_def Let_def neutral_grow)
    (auto simp: recordAuthError_def periodicSaveTick_def logFreshTransitionsLocked_def Let_def
      invalidate_def invalidateEntry_def timerNeutral_def nth_list_update)

section \<open>Operations that arm or fire a timer\<close>

lemma in_stopTimer: "(i, d) \<in> set (armed (stopTimer t cp)) \<longleftrightarrow> (i, d) \<in> set (armed cp) \<and> t \<noteq> Some i"
  by (auto simp: stopTimer_def split: option.split)

lemma distinct_stopTimer: "distinct (map fst (armed cp)) \<Longrightarrow> distinct (map fst (armed (stopTimer t cp)))"
  by (simp add: stopTimer_def distinct_map_filter split: option.split)

lemma next_fresh: "timers_ok clk cp \<Longrightarrow> nextTimer cp \<notin> fst ` set (armed (stopTimer t cp))"
  using timers_okD(1) [of clk cp] by (force simp: in_stopTimer)

lemma timers_apply:
  assumes ok: "timers_ok clk cp" and s: "slot < length (pool cp)"
  shows "timers_ok clk (applySaturationLocked clk slot d cp)"
proof -
  let ?cp = "applySaturationLocked clk slot d cp"
  let ?old = "saturationTimer (pool cp ! slot)"
  have p: "pool ?cp = (pool cp)[slot := (pool cp ! slot)\<lparr>saturatedUntil := clk + d,
      saturationTimer := Some (nextTimer cp)\<rparr>]"
    and n: "nextTimer ?cp = Suc (nextTimer cp)"
    and pa: "pauseAcquireUntil ?cp = pauseAcquireUntil cp" "pauseAcquireTimer ?cp = pauseAcquireTimer cp"
    and ar: "armed ?cp = (nextTimer cp, clk + d) # armed (stopTimer ?old cp)"
    by (simp_all add: applySaturationLocked_def Let_def)
  have tm: "timerOf ?cp j i \<longleftrightarrow> (if j = slot then i = nextTimer cp else timerOf cp j i)" for j i
    using s by (auto simp: timerOf_def p)
  have old: "timerOf cp j i \<Longrightarrow> j \<noteq> slot \<Longrightarrow> ?old \<noteq> Some i" for j i
    using timers_okD(5) [OF ok, of j i slot] s by (auto simp: timerOf_def)
  have pause_old: "pauseAcquireTimer cp = Some i \<Longrightarrow> ?old \<noteq> Some i" for i
    using timers_okD(6) [OF ok, of slot i] s by (auto simp: timerOf_def)
  note D = timers_okD [OF ok]
  show ?thesis
  proof (rule timers_okI)
    show "distinct (map fst (armed ?cp))"
      using distinct_stopTimer [OF D(2)] next_fresh [OF ok] by (simp add: ar)
    show "\<exists>i. timerOf ?cp j i \<and> (i, saturatedUntil (pool ?cp ! j)) \<in> set (armed ?cp)"
      if "j < length (pool ?cp)" "clk < saturatedUntil (pool ?cp ! j)" for j
      using that s D(7) [of j] old [of j] by (cases "j = slot") (auto simp: tm ar p in_stopTimer)
    show "\<exists>i. pauseAcquireTimer ?cp = Some i \<and> (i, pauseAcquireUntil ?cp) \<in> set (armed ?cp)"
      if "clk < pauseAcquireUntil ?cp"
      using that D(8) pause_old by (auto simp: pa ar in_stopTimer)
    show "pauseAcquireTimer ?cp \<noteq> Some i" if "timerOf ?cp j i" for j i
      using that D(4) [of i] D(6) [of j i] by (auto simp: tm pa split: if_splits)
    show "i < nextTimer ?cp" if "(i, e) \<in> set (armed ?cp)" for i e
      using that D(1) by (auto simp: ar n in_stopTimer less_Suc_eq)
    show "i < nextTimer ?cp" if "timerOf ?cp j i" for i j
      using that D(3) [of j i] by (auto simp: tm n less_Suc_eq split: if_splits)
    show "i < nextTimer ?cp" if "pauseAcquireTimer ?cp = Some i" for i
      using that D(4) [of i] by (simp add: pa n)
    show "j = k" if "timerOf ?cp j i" "timerOf ?cp k i" for j k i
      using that D(3) [of j i] D(3) [of k i] D(5) [of j i k] by (auto simp: tm split: if_splits)
  qed
qed

lemma timers_markSaturated: "timers_ok clk cp \<Longrightarrow> timers_ok clk (fst (markSaturated clk slot cp))"
  by (auto simp: markSaturated_def Let_def intro!: timers_apply)

lemma timers_markSlots:
  "timers_ok clk cp \<Longrightarrow> \<forall>s \<in> set ss. s < length (pool cp) \<Longrightarrow>
   timers_ok clk (fold (markSlotForPathChange clk) ss cp)"
  by (induction ss arbitrary: cp)
    (auto simp: markSlotForPathChange_def timers_apply split: option.split)

lemma timers_extendPause:
  assumes ok: "timers_ok clk cp"
  shows "timers_ok clk (extendPause clk d cp)"
proof (cases "clk + d > pauseAcquireUntil cp")
  case False
  then show ?thesis using ok by (simp add: extendPause_def)
next
  case True
  let ?cp = "extendPause clk d cp"
  let ?old = "pauseAcquireTimer cp"
  have pl: "pool ?cp = pool cp" by simp
  have n: "nextTimer ?cp = (if d \<le> 0 then nextTimer cp else Suc (nextTimer cp))"
    and pu: "pauseAcquireUntil ?cp = clk + d"
    and pt: "pauseAcquireTimer ?cp = (if d \<le> 0 then None else Some (nextTimer cp))"
    and ar: "armed ?cp = (if d \<le> 0 then [] else [(nextTimer cp, clk + d)]) @ armed (stopTimer ?old cp)"
    using True by (auto simp: extendPause_def armPauseAcquireBroadcastLocked_def Let_def stopTimer_def
        split: option.split)
  have tm: "timerOf ?cp = timerOf cp" by (simp add: timerOf_def fun_eq_iff)
  note D = timers_okD [OF ok]
  show ?thesis
  proof (rule timers_okI)
    show "distinct (map fst (armed ?cp))"
      using distinct_stopTimer [OF D(2)] next_fresh [OF ok] by (simp add: ar)
    show "\<exists>i. timerOf ?cp j i \<and> (i, saturatedUntil (pool ?cp ! j)) \<in> set (armed ?cp)"
      if "j < length (pool ?cp)" "clk < saturatedUntil (pool ?cp ! j)" for j
      using that D(7) [of j] D(6) [of j] by (fastforce simp: tm ar in_stopTimer)
    show "pauseAcquireTimer ?cp \<noteq> Some i" if "timerOf ?cp j i" for j i
      using that D(3) by (auto simp: tm pt)
    show "i < nextTimer ?cp" if "(i, e) \<in> set (armed ?cp)" for i e
      using that D(1) by (auto simp: ar n in_stopTimer less_Suc_eq split: if_splits)
    show "i < nextTimer ?cp" if "timerOf ?cp j i" for i j
      using that D(3) by (auto simp: tm n less_Suc_eq)
    show "j = k" if "timerOf ?cp j i" "timerOf ?cp k i" for j k i
      using that D(5) by (simp add: tm)
  qed (auto simp: pt n pu ar split: if_splits)
qed

lemma timers_ok_frame [simp]: "timers_ok clk (cp\<lparr>lastPathEventAt := t\<rparr>) = timers_ok clk cp"
  by (simp add: timers_ok_def timerOf_def)

lemma timers_MarkInUse:
  assumes "timers_ok clk cp"
  shows "timers_ok clk (MarkInUseSlotsForPathChange clk cp)"
  using assms
  by (auto simp: MarkInUseSlotsForPathChange_def Let_def intro!: timers_extendPause timers_markSlots)

lemma timers_fire:
  assumes ok: "timers_ok clk cp" and t: "(i, d) \<in> set (armed cp)" "d \<le> clk"
  shows "timers_ok clk (fireTimer i cp)"
proof -
  let ?cp = "fireTimer i cp"
  note D = timers_okD [OF ok]
  have uniq: "(i, d') \<in> set (armed cp) \<Longrightarrow> d' = d" for d'
    using D(2) t(1) by (meson eq_key_imp_eq_value)
  have ar: "(k, e) \<in> set (armed ?cp) \<longleftrightarrow> (k, e) \<in> set (armed cp) \<and> k \<noteq> i" for k e
    by (auto simp: fireTimer_def in_stopTimer)
  have tm: "timerOf ?cp = timerOf cp" by (simp add: timerOf_def fun_eq_iff fireTimer_def)
  have fr: "pool ?cp = pool cp" "nextTimer ?cp = nextTimer cp" "pauseAcquireTimer ?cp = pauseAcquireTimer cp"
    "pauseAcquireUntil ?cp = pauseAcquireUntil cp" by (simp_all add: fireTimer_def)
  show ?thesis
  proof (rule timers_okI)
    show "distinct (map fst (armed ?cp))"
      using distinct_stopTimer [OF D(2)] by (simp add: fireTimer_def)
    show "\<exists>k. timerOf ?cp j k \<and> (k, saturatedUntil (pool ?cp ! j)) \<in> set (armed ?cp)"
      if "j < length (pool ?cp)" "clk < saturatedUntil (pool ?cp ! j)" for j
      using that D(7) [of j] uniq t(2) by (fastforce simp: tm ar fr)
    show "\<exists>k. pauseAcquireTimer ?cp = Some k \<and> (k, pauseAcquireUntil ?cp) \<in> set (armed ?cp)"
      if "clk < pauseAcquireUntil ?cp"
      using that D(8) uniq t(2) by (fastforce simp: ar fr)
  qed (use D(1,3,4,5,6) in \<open>auto simp: tm ar fr\<close>)
qed

section \<open>The invariant in reachable states\<close>

definition timer_inv :: "hazard set \<Rightarrow> sys \<Rightarrow> bool" where
  "timer_inv H s \<longleftrightarrow> 0 \<le> clock s \<and> sys_inv H s \<and> timers_ok (clock s) (cpool s)"

lemma newCredPool_timers:
  "armed (newCredPool now n cd path rd f) = [] \<and> pauseAcquireUntil (newCredPool now n cd path rd f) = 0
   \<and> pauseAcquireTimer (newCredPool now n cd path rd f) = None
   \<and> list_all (\<lambda>e. satOf e = (0, None)) (pool (newCredPool now n cd path rd f))"
proof -
  let ?P = "\<lambda>cp. armed cp = [] \<and> pauseAcquireUntil cp = 0 \<and> pauseAcquireTimer cp = None
      \<and> list_all (\<lambda>e. satOf e = (0, None)) (pool cp)"
  have one: "?P cp \<Longrightarrow> ?P (loadEntry now e cp)" for e cp
    by (auto simp: loadEntry_def Let_def list_all_growTo split: option.split intro!: list_all_update)
  have fold: "?P cp \<Longrightarrow> ?P (fold (loadEntry now) es cp)" for es cp
    by (induction es arbitrary: cp) (use one in auto)
  have load: "?P cp \<Longrightarrow> ?P (if path \<noteq> [] then loadFromDisk now rd cp else cp)" for cp
    using fold by (simp add: loadFromDisk_def split: cacheRead.split)
  show ?thesis unfolding newCredPool_def Let_def by (rule load) (simp add: list_all_iff)
qed

lemma timer_init:
  assumes "init s"
  shows "timer_inv H s"
proof -
  have "armed (cpool s) = [] \<and> pauseAcquireUntil (cpool s) = 0 \<and> pauseAcquireTimer (cpool s) = None
      \<and> list_all (\<lambda>e. satOf e = (0, None)) (pool (cpool s))"
    using assms newCredPool_timers [of "clock s"]
      seedSlot_pool [of "clock s" _ _ _ _ _ "cpool s" "\<lambda>e. satOf e = (0, None)"]
    by (auto simp: init_def)
  then have "timers_ok (clock s) (cpool s)"
    using assms
    by (intro timers_okI) (auto simp: timerOf_def satOf_def list_all_length init_def)
  then show ?thesis using assms sys_init [OF assms] by (simp add: timer_inv_def init_def)
qed

lemma timer_step_pool:
  assumes "step H s t" and "timers_ok (clock s) (cpool s)" and "0 \<le> clock s" and "sys_inv H s"
  shows "timers_ok (clock t) (cpool t) \<and> 0 \<le> clock t"
  using assms
proof (induction rule: step.induct)
  case (tick s t)
  then show ?case unfolding timers_ok_def by auto
next
  case (get_begin i s cp r)
  then have "pool_inv (cpool s)" by (simp add: sys_inv_def shape_inv_def)
  from neutral_getBegin [OF this, of "clock s" "int i", where 'e = string]
  show ?case using get_begin by (auto intro: timers_ok_neutral)
next
  case (get_finish i s t wr res cp r)
  then have "pool_inv (cpool s)" "t < psize (cpool s)"
    using shape_conn_nth [of s i] by (auto simp: sys_inv_def shape_inv_def inRange_def)
  from neutral_getFinish [OF this, of "clock s" wr "int i" res]
  show ?case using get_finish by (auto intro: timers_ok_neutral)
next
  case (fill_begin s j k cp r)
  with neutral_tryFillBegin [of "cpool s" "clock s" "int j" k]
  show ?case by (auto intro: timers_ok_neutral)
next
  case (timer i d s)
  then show ?case by (auto intro: timers_fire)
qed (auto intro: timers_ok_neutral neutral_release neutral_tryFillFinish neutral_others
      timers_markSaturated timers_MarkInUse timers_extendPause
      simp: ExtendPauseAcquireForTransition_def)

interpretation timer_sys: invariant_system init "step H" "timer_inv H" for H
proof unfold_locales
  show "init s \<Longrightarrow> timer_inv H s" for s by (rule timer_init)
  show "timer_inv H s \<Longrightarrow> step H s t \<Longrightarrow> timer_inv H t" for s t
    using timer_step_pool sys_step by (simp add: timer_inv_def)
qed

end
