(* ===== verification/CredPoolDisk.thy ===== *)
theory CredPoolDisk
  imports CredPoolInv
begin

text \<open>
  Saving the pool and loading it into a new process (\<open>saveToDisk\<close> and \<open>loadFromDisk\<close> of
  \<open>src/pkg/proxy/creds.go\<close>): what a slot is after the round trip, and that a credential whose
  allocations may still be alive on VK's side is not handed out before they have expired.
\<close>

text \<open>The entry that loading the snapshot of \<open>e\<close> leaves in its slot.\<close>

definition savedLastUsed :: "gotime \<Rightarrow> credPoolEntry \<Rightarrow> int" where
  "savedLastUsed now e =
     (if active e > 0 then unix_of now else if lastUsedAt e \<noteq> 0 then unix_of (lastUsedAt e) else 0)"

definition loadedEntry :: "gotime \<Rightarrow> string \<Rightarrow> string \<Rightarrow> string \<Rightarrow> int \<Rightarrow> credPoolEntry" where
  "loadedEntry now' a user pass lu =
     (let lastUsed = (if lu > 0 then time_Unix lu else 0);
          ready = lastUsed + credSaturationCooldown
      in (filledEntry a (Some \<lparr>Username = user, Password = pass, Address = a, Addresses = []\<rparr>) now' 0)
           \<lparr>lastUsedAt := lastUsed, availableAt := (if lu > 0 \<and> now' < ready then ready else 0)\<rparr>)"

definition reloadable :: "gotime \<Rightarrow> TURNCreds \<Rightarrow> bool" where
  "reloadable now' c =
     (case parseCredExpiry (Username c) of None \<Rightarrow> False | Some x \<Rightarrow> credExpiryBuffer \<le> time_Sub x now')"

definition restoredEntry :: "gotime \<Rightarrow> gotime \<Rightarrow> credPoolEntry \<Rightarrow> credPoolEntry" where
  "restoredEntry now now' e =
     (case creds e of
        None \<Rightarrow> emptyEntry
      | Some c \<Rightarrow>
          if reloadable now' c
          then loadedEntry now' (addr e) (Username c) (Password c) (savedLastUsed now e)
          else emptyEntry)"

lemma loadEntry_alt:
  "loadEntry now' entry cp =
     (if 0 \<le> Slot entry \<and> Slot entry < int (psize cp)
         \<and> reloadable now' \<lparr>Username = ce_Username entry, Password = [], Address = [], Addresses = []\<rparr>
      then cp\<lparr>pool := (growTo (Suc (nat (Slot entry))) (pool cp))[nat (Slot entry) :=
             loadedEntry now' (ce_Address entry) (ce_Username entry) (ce_Password entry) (LastUsedAt entry)]\<rparr>
      else cp)"
  by (auto simp: loadEntry_def loadedEntry_def reloadable_def Let_def split: option.split)

lemma load_snapshotEntry:
  assumes "i < psize cp" and "length (pool cp) = psize cp" and "pool cp ! i = emptyEntry"
  shows "fold (loadEntry now') (snapshotEntry now i e) cp
       = cp\<lparr>pool := (pool cp)[i := restoredEntry now now' e]\<rparr>"
proof -
  have same: "(pool cp)[i := emptyEntry] = pool cp"
    using assms list_update_id [of "pool cp" i] by simp
  show ?thesis
  proof (cases "creds e")
    case None
    then show ?thesis by (simp add: snapshotEntry_def restoredEntry_def same)
  next
    case (Some c)
    have "reloadable now' \<lparr>Username = Username c, Password = [], Address = [], Addresses = []\<rparr>
        = reloadable now' c" by (simp add: reloadable_def)
    then show ?thesis
      using Some assms
      by (simp add: snapshotEntry_def restoredEntry_def loadEntry_alt savedLastUsed_def same)
  qed
qed

text \<open>Loading slot by slot: after the first \<open>k\<close> slots those are restored and the rest is empty.\<close>

lemma load_prefix:
  assumes "pool cp0 = replicate (psize cp0) emptyEntry" and "length (pool cp) = psize cp0" and "k \<le> psize cp0"
  shows "fold (loadEntry now') (concat (map (\<lambda>i. snapshotEntry now i (pool cp ! i)) [0..<k])) cp0
       = cp0\<lparr>pool := map (restoredEntry now now') (take k (pool cp))
                     @ replicate (psize cp0 - k) emptyEntry\<rparr>"
  using assms(3)
proof (induction k)
  case 0
  then show ?case using assms(1) by simp
next
  case (Suc k)
  let ?es = "map (restoredEntry now now') (take k (pool cp)) @ replicate (psize cp0 - k) emptyEntry"
  have k: "k < length (pool cp)" using Suc.prems assms(2) by simp
  have nth: "?es ! k = emptyEntry" using k Suc.prems by (simp add: nth_append)
  have rep: "replicate (psize cp0 - k) emptyEntry = emptyEntry # replicate (psize cp0 - Suc k) emptyEntry"
    using Suc.prems by (simp add: Suc_diff_Suc flip: replicate_Suc)
  have upd: "?es[k := restoredEntry now now' (pool cp ! k)] =
      map (restoredEntry now now') (take (Suc k) (pool cp)) @ replicate (psize cp0 - Suc k) emptyEntry"
    using k by (simp add: rep list_update_append take_Suc_conv_app_nth)
  have "fold (loadEntry now') (snapshotEntry now k (pool cp ! k)) (cp0\<lparr>pool := ?es\<rparr>)
      = cp0\<lparr>pool := ?es[k := restoredEntry now now' (pool cp ! k)]\<rparr>"
    using load_snapshotEntry [of k "cp0\<lparr>pool := ?es\<rparr>" now' now "pool cp ! k"] Suc.prems nth assms(2)
    by simp
  then show ?case using Suc by (simp add: upd)
qed

lemma load_snapshot:
  assumes "pool cp0 = replicate (psize cp0) emptyEntry" and "length (pool cp) = psize cp0"
  shows "loadFromDisk now' (CacheFile (snapshotPool now cp)) cp0
       = cp0\<lparr>pool := map (restoredEntry now now') (pool cp)\<rparr>"
  using load_prefix [OF assms, of "psize cp0" now' now] assms(2)
  by (simp add: loadFromDisk_def snapshotPool_def)

section \<open>Timing of a restored slot\<close>

lemma restored_fields:
  assumes "creds e = Some c" and "reloadable now' c"
  shows "creds (restoredEntry now now' e) =
      Some \<lparr>Username = Username c, Password = Password c, Address = addr e, Addresses = []\<rparr>"
    and "addr (restoredEntry now now' e) = addr e" and "active (restoredEntry now now' e) = 0"
    and "\<not> fetching (restoredEntry now now' e)" and "saturatedUntil (restoredEntry now now' e) = 0"
  using assms by (simp_all add: restoredEntry_def loadedEntry_def Let_def)

lemma unix_of_pos: "(unixToInternal + 1) * second \<le> t \<Longrightarrow> 0 < unix_of t"
proof -
  assume "(unixToInternal + 1) * second \<le> t"
  then have "unixToInternal + 1 \<le> t div second"
    using zdiv_mono1 [of "(unixToInternal + 1) * second" t second] by simp
  then show ?thesis by (simp add: unix_of_def)
qed

lemma floor_second: "t div second * second \<le> t" "t - second < t div second * second"
proof -
  have "0 \<le> t mod second" by simp
  then show "t div second * second \<le> t" using div_mult_mod_eq [of t second] by linarith
  have "t mod second < second" by simp
  then show "t - second < t div second * second"
    using div_mult_mod_eq [of t second] by linarith
qed

text \<open>A slot in use when it was saved is pending until ten minutes after the save.\<close>

lemma restored_active_blocked:
  assumes act: "active e > 0" and c: "creds e = Some c" "reloadable now' c"
    and t: "(unixToInternal + 1) * second \<le> now" "now < 2 ^ 63 * second"
    and early: "now' < now div second * second + credSaturationCooldown"
  shows "availableAt (restoredEntry now now' e) = now div second * second + credSaturationCooldown"
proof -
  have "0 \<le> now" using t(1) by (simp add: unixToInternal_def second_def)
  then have "time_Unix (unix_of now) = now div second * second"
    using t(2) by (rule time_Unix_unix_of)
  then show ?thesis
    using act c early unix_of_pos [OF t(1)]
    by (simp add: restoredEntry_def loadedEntry_def savedLastUsed_def Let_def)
qed

end
