(* ===== verification/CredPoolProps.thy ===== *)
theory CredPoolProps
  imports CredPoolTimers CredPoolDisk
begin

text \<open>
  The properties of the credential pool, each over the definitions of \<open>CredEntry\<close>,
  \<open>CredPool\<close> and \<open>CredPoolSys\<close>, with concrete pools at the end of the first section that
  the witnesses use.
\<close>

section \<open>Concrete pools for the witnesses\<close>

definition demoNow :: gotime where "demoNow = (unixToInternal + 1700000000) * second"

definition demoCred :: TURNCreds where
  "demoCred = \<lparr>Username = ''4000000000:k1'', Password = ''p'', Address = ''r:1'', Addresses = [''r:1'']\<rparr>"

definition oldCred :: TURNCreds where
  "oldCred = \<lparr>Username = ''1700000600:k0'', Password = ''q'', Address = ''r:0'', Addresses = [''r:0'']\<rparr>"

definition demoPool :: "credPoolEntry list \<Rightarrow> credPool" where
  "demoPool es = \<lparr>pool = es, psize = length es, cooldown = 2 * minute, authErrors = replicate (length es) 0,
     freshLastTick = [], pauseAcquireUntil = 0, pauseAcquireTimer = None, lastPathEventAt = 0,
     cachePath = ''c'', slotAvailableCh = 0, armed = [], nextTimer = 0, disk = None\<rparr>"

lemma demo_expiry [simp]:
  "parseCredExpiry ''4000000000:k1'' = Some ((4000000000 + unixToInternal) * second)"
  "parseCredExpiry ''1700000600:k0'' = Some ((1700000600 + unixToInternal) * second)"
  using parseCredExpiry_digits [of "''4000000000''" "''k1''"]
    parseCredExpiry_digits [of "''1700000600''" "''k0''"]
  by (simp_all add: is_digit_def digits_val_def digit_val_def)

lemma demoNow_pos [simp]: "\<not> demoNow < 0"
  by (simp add: demoNow_def unixToInternal_def second_def)

lemma demo_cred_ok [simp]: "expiryOK demoNow demoCred" "\<not> expiryOK demoNow oldCred"
  by (simp_all add: expiryOK_def demoCred_def oldCred_def demoNow_def go_defs)

lemma demo_fresh [simp]:
  "entryIsFresh demoNow (filledEntry a (Some demoCred) t n)"
  "\<not> entryIsFresh demoNow (filledEntry a (Some oldCred) t n)"
  by (simp_all add: entryIsFresh_def)

lemma demo_names: "Username demoCred = ''4000000000:k1''" "Username oldCred = ''1700000600:k0''"
  by (simp_all add: demoCred_def oldCred_def)

section \<open>Concurrency: quota, exclusive fetches, wake-ups\<close>

text \<open>
  C1. Quota. However gets, fetches, releases, path changes, the grower and timers interleave, as
  long as no slot is emptied under its users and no slot is refilled while its old credential is
  still in use, the \<open>active\<close> count of a slot is exactly the number of connections on it, and
  that is never more than VK's ten allocations.
\<close>

theorem slot_quota:
  assumes "reachable {} s" and "j < psize (cpool s)"
  shows "active (pool (cpool s) ! j) = int (holders s j) \<and> int (holders s j) \<le> connsPerSlot"
proof -
  have inv: "sys_inv {} s" using assms(1) by (rule pool_sys.inv_reach)
  then have "active (pool (cpool s) ! j) = int (holders s j)"
    using assms(2) by (simp add: sys_inv_def useOK_def slotOK_def)
  moreover have "quotaOK (pool (cpool s) ! j)"
    using inv assms(2) by (auto simp: sys_inv_def shape_inv_def intro: pool_inv_slot)
  ultimately show ?thesis by (simp add: quotaOK_def)
qed

text \<open>
  C2. With every hazard allowed the count still never exceeds the connections on the slot, and
  stays between 0 and ten: a slot nobody uses is never left looking full.
\<close>

theorem active_never_overcounts:
  assumes "reachable H s" and "j < psize (cpool s)"
  shows "0 \<le> active (pool (cpool s) ! j) \<and> active (pool (cpool s) ! j) \<le> connsPerSlot
    \<and> active (pool (cpool s) ! j) \<le> int (holders s j)"
proof -
  have inv: "sys_inv H s" using assms(1) by (rule pool_sys.inv_reach)
  moreover from inv assms(2) have "quotaOK (pool (cpool s) ! j)"
    by (auto simp: sys_inv_def shape_inv_def intro: pool_inv_slot)
  ultimately show ?thesis
    using assms(2) by (simp add: sys_inv_def useOK_def slotOK_def quotaOK_def)
qed

text \<open>
  C3. Exclusive fetches. As long as nothing invalidates slots, at most one fetch runs into a slot
  at any time, whether started by a connection or by the grower, and the \<open>fetching\<close> flag says
  exactly whether one does.
\<close>

theorem single_fetch_per_slot:
  assumes "reachable H s" and "Invalidation \<notin> H" and "j < psize (cpool s)"
  shows "fetchers s j = (if fetching (pool (cpool s) ! j) then 1 else 0)"
  using pool_sys.inv_reach [OF assms(1)] assms(2,3)
  by (simp add: sys_inv_def useOK_def slotOK_def)

text \<open>
  C4. No lost wake-up. In every reachable state, a saturation deadline of a slot and the pause
  deadline of the pool that are still ahead have a running timer with exactly that deadline; and
  when a timer runs, every connection parked on the channel is woken.
\<close>

theorem wakeups_are_armed:
  assumes "reachable H s"
  shows "(\<forall>j < length (pool (cpool s)). clock s < saturatedUntil (pool (cpool s) ! j) \<longrightarrow>
            (\<exists>i. (i, saturatedUntil (pool (cpool s) ! j)) \<in> set (armed (cpool s))))
    \<and> (clock s < pauseAcquireUntil (cpool s) \<longrightarrow>
            (\<exists>i. (i, pauseAcquireUntil (cpool s)) \<in> set (armed (cpool s))))
    \<and> (\<forall>i parked. parked \<le> slotAvailableChannel (cpool s) \<longrightarrow>
            parked < slotAvailableChannel (fireTimer i (cpool s)))"
proof -
  have "timers_ok (clock s) (cpool s)"
    using timer_sys.inv_reach [OF assms] by (simp add: timer_inv_def)
  then show ?thesis
    using timers_okD(7,8) [of "clock s" "cpool s"]
    by (auto simp: slotAvailableChannel_def fireTimer_def)
qed

text \<open>
  No index out of range. In every reachable state a connection that calls \<open>get\<close>, and one
  that comes back from its fetch, runs to a regular result.
\<close>

theorem get_never_panics:
  assumes "reachable H s"
  shows "snd (getBegin now i (cpool s)) \<noteq> (Panicked :: 'e getResult)
    \<and> (Fetching t \<in> set (conns s) \<longrightarrow>
         snd (getFinish now wr i t res (cpool s)) \<noteq> (Panicked :: 'e getResult))"
proof -
  have sh: "shape_inv s" using pool_sys.inv_reach [OF assms] by (simp add: sys_inv_def)
  then have inv: "pool_inv (cpool s)" by (simp add: shape_inv_def)
  have acq: "snd (acquireSlot k cp) \<noteq> (Panicked :: 'e getResult)" for k cp
    by (simp add: acquireSlot_def Let_def)
  have "snd (getBegin now i (cpool s)) \<noteq> (Panicked :: 'e getResult)"
    using acq by (cases rule: getBegin_cases [where 'e = 'e, OF inv, of now i]) auto
  moreover have "snd (getFinish now wr i t res (cpool s)) \<noteq> (Panicked :: 'e getResult)"
    if "Fetching t \<in> set (conns s)"
  proof -
    have "t < psize (cpool s)"
      using that sh by (auto simp: shape_inv_def list_all_iff inRange_def dest!: bspec)
    from getFinish_cases [OF inv this, of res now wr i] show ?thesis using acq by cases auto
  qed
  ultimately show ?thesis by blast
qed

text \<open>A run for the witnesses: one connection, one slot; it fetches, and holds the slot.\<close>

definition demoStart :: sys where
  "demoStart = \<lparr>cpool = newCredPool 0 1 0 [] ReadError None, clock = 0, conns = [Idle], grower = None\<rparr>"

definition demoFetching :: sys where
  "demoFetching = demoStart\<lparr>
     cpool := setEntry 0 (emptyEntry\<lparr>fetching := True\<rparr>) (cpool demoStart), conns := [Fetching 0]\<rparr>"

definition demoHolding :: sys where
  "demoHolding = demoFetching\<lparr>
     cpool := broadcastSlotAvailable (setEntry 0 (filledEntry ''r:1'' (Some demoCred) 0 1) (cpool demoFetching)),
     conns := [Holding 0]\<rparr>"

definition demoPaused :: sys where
  "demoPaused = demoHolding\<lparr>cpool := MarkInUseSlotsForPathChange 0 (cpool demoHolding)\<rparr>"

lemma demoStart_pool:
  "cpool demoStart = \<lparr>pool = [emptyEntry], psize = 1, cooldown = 2 * minute, authErrors = [0],
     freshLastTick = [], pauseAcquireUntil = 0, pauseAcquireTimer = None, lastPathEventAt = 0,
     cachePath = [], slotAvailableCh = 0, armed = [], nextTimer = 0, disk = None\<rparr>"
  by (simp add: demoStart_def newCredPool_def Let_def)

lemma demo_start: "reachable H demoStart"
  by (rule reach.reach_init) (simp add: init_def demoStart_def, blast)

lemma demo_get: "getBegin 0 0 (cpool demoStart) =
    (cpool demoFetching, StartFetch 0 :: string getResult)"
  by (simp add: demoStart_pool demoFetching_def getBegin_def ownSlotOf_def go_quot_def pickAcquireSlotLocked_def
      isFreshLocked_def scanAcquire.simps(2) countWithUsableCredsLocked_def inFlight_def coldStartTarget_def
      candidatesOrdered_def Let_def setEntry_def)

lemma demo_fetching: "reachable H demoFetching"
proof -
  have "step H demoStart (demoStart\<lparr>cpool := cpool demoFetching,
      conns := (conns demoStart)[0 := connAfter (StartFetch 0 :: string getResult)]\<rparr>)"
    by (rule step.get_begin) (simp_all add: demoStart_def demo_get [unfolded demoStart_def, simplified])
  then show ?thesis
    using reach.reach_step [OF demo_start] by (simp add: demoFetching_def demoStart_def)
qed

lemma demo_finish:
  "getFinish 0 False 0 0 (Inr (''r:1'', demoCred)) (cpool demoFetching) =
     (cpool demoHolding, Acquired ''r:1'' (Some demoCred) 0 :: string getResult)"
  by (simp add: demoStart_pool demoFetching_def demoHolding_def getFinish_def Let_def setEntry_def
      saveToDisk_def resetAuthErrors_def)

lemma demo_holding: "reachable H demoHolding"
proof -
  have "step H demoFetching (demoFetching\<lparr>cpool := cpool demoHolding, conns := (conns demoFetching)
      [0 := connAfter (Acquired ''r:1'' (Some demoCred) 0 :: string getResult)]\<rparr>)"
    by (rule step.get_finish [where t = 0])
      (use demo_finish in \<open>simp_all add: demoFetching_def demoStart_def demoStart_pool [unfolded demoStart_def, simplified]\<close>)
  then show ?thesis
    using reach.reach_step [OF demo_fetching]
    by (simp add: demoHolding_def demoFetching_def demoStart_def)
qed

lemma demo_paused: "reachable H demoPaused"
  unfolding demoPaused_def
  by (rule reach.reach_step [OF demo_holding])
    (use step.path_change [of H demoHolding] in
      \<open>simp add: demoHolding_def demoFetching_def demoStart_def\<close>)

lemmas demo_run = demoHolding_def demoFetching_def demoStart_pool demoStart_def

theorem slot_quota_witness:
  "reachable {} demoHolding \<and> active (pool (cpool demoHolding) ! 0) = 1 \<and> holders demoHolding 0 = 1"
proof -
  have "psize (cpool demoHolding) = 1" "active (pool (cpool demoHolding) ! 0) = 1"
    by (simp_all add: demoHolding_def demoFetching_def demoStart_pool)
  then show ?thesis using demo_holding slot_quota [OF demo_holding, of 0] by simp
qed

theorem active_never_overcounts_witness:
  "reachable {Invalidation, RefillInUse} demoHolding
   \<and> active (pool (cpool demoHolding) ! 0) \<le> int (holders demoHolding 0)"
  using demo_holding active_never_overcounts [OF demo_holding, of 0]
  by (simp add: demoHolding_def demoFetching_def demoStart_pool)

theorem single_fetch_per_slot_witness:
  "reachable {RefillInUse} demoFetching \<and> fetchers demoFetching 0 = 1"
  using demo_fetching single_fetch_per_slot [OF demo_fetching, of "{RefillInUse}" 0]
  by (simp add: demoFetching_def demoStart_pool)

theorem wakeups_are_armed_witness:
  "reachable {} demoPaused \<and> clock demoPaused < pauseAcquireUntil (cpool demoPaused)
   \<and> (\<exists>i. (i, pauseAcquireUntil (cpool demoPaused)) \<in> set (armed (cpool demoPaused)))"
proof -
  have "clock demoPaused < pauseAcquireUntil (cpool demoPaused)"
    by (simp add: demoPaused_def demoHolding_def demoFetching_def demoStart_pool MarkInUseSlotsForPathChange_def
        markSlotForPathChange_def smartPause_def applySaturationLocked_def extendPause_def pauseDuration_def
        armPauseAcquireBroadcastLocked_def Let_def go_defs time_Sub_def demoStart_def)
  then show ?thesis using demo_paused wakeups_are_armed [OF demo_paused] by blast
qed

theorem get_never_panics_witness:
  "reachable {Invalidation} demoFetching
   \<and> snd (getFinish 5 True 0 0 (Inl ''captcha'') (cpool demoFetching)) \<noteq> Panicked"
  using demo_fetching get_never_panics [OF demo_fetching, where t = 0 and 'e = string]
  by (simp add: demoFetching_def)

section \<open>Sizing\<close>

lemma poolSize_closed:
  assumes "1 \<le> n" and "n < 2 ^ 61"
  shows "poolSizeForNumConns n = (if n < 3 then 2 else (n * 2 + 4) div 5)"
proof -
  have "wrap64 (wrap64 (n * 2) + 4) = n * 2 + 4"
    using assms by (simp add: wrap64_id)
  then have "poolSizeForNumConns n = (if (n * 2 + 4) div 5 < 2 then 2 else (n * 2 + 4) div 5)"
    using assms(1) by (simp add: poolSizeForNumConns_def go_quot_nonneg Let_def)
  moreover have "(n * 2 + 4) div 5 < 2 \<longleftrightarrow> n < 3" by linarith
  ultimately show ?thesis by simp
qed

text \<open>
  Sizing. For \<open>n\<close> connections the pool has the smallest number of slots, at least two, that
  gives four times the needed capacity at ten connections per slot.
\<close>

theorem pool_size_is_ceiling:
  assumes "1 \<le> n" and "n < 2 ^ 61"
  shows "2 \<le> poolSizeForNumConns n \<and> 4 * n \<le> connsPerSlot * poolSizeForNumConns n
    \<and> (2 < poolSizeForNumConns n \<longrightarrow> connsPerSlot * (poolSizeForNumConns n - 1) < 4 * n)"
proof -
  have sz: "poolSizeForNumConns n = (if n < 3 then 2 else (n * 2 + 4) div 5)"
    using assms by (rule poolSize_closed)
  show ?thesis
  proof (cases "n < 3")
    case False
    define q where "q = (n * 2 + 4) div 5"
    have "5 * q \<le> n * 2 + 4" "n * 2 + 4 < 5 * q + 5" unfolding q_def by simp_all
    then have "2 \<le> q \<and> 4 * n \<le> 10 * q \<and> 10 * (q - 1) < 4 * n" using False by simp
    then show ?thesis using False by (simp add: sz connsPerSlot_def flip: q_def)
  qed (use assms(1) in \<open>simp add: sz connsPerSlot_def\<close>)
qed

theorem pool_size_is_ceiling_witness: "poolSizeForNumConns 30 = 12 \<and> 4 * 30 \<le> connsPerSlot * poolSizeForNumConns 30"
  using pool_size_is_ceiling [of 30] poolSize_closed [of 30] by simp

text \<open>
  The number of credentials a cold pool may fetch for its connections, recovered from the pool
  size, is exactly one per ten connections, rounded up.
\<close>

theorem cold_start_target_is_ceiling:
  assumes "1 \<le> n" and "n < 2 ^ 61" and "psize cp = nat (poolSizeForNumConns n)"
  shows "n \<le> connsPerSlot * coldStartTarget cp \<and> connsPerSlot * (coldStartTarget cp - 1) < n"
proof -
  have "int (psize cp) = (if n < 3 then 2 else (n * 2 + 4) div 5)"
    using poolSize_closed [OF assms(1,2)] assms(3) by simp
  moreover have "((n * 2 + 4) div 5 + 3) div 4 \<ge> 1" if "\<not> n < 3" using that by linarith
  ultimately have t: "coldStartTarget cp = (if n < 3 then 1 else ((n * 2 + 4) div 5 + 3) div 4)"
    by (auto simp: coldStartTarget_def Let_def)
  show ?thesis
  proof (cases "n < 3")
    case False
    define q where "q = (n * 2 + 4) div 5"
    define r where "r = (q + 3) div 4"
    have "5 * q \<le> n * 2 + 4" "n * 2 + 4 < 5 * q + 5" "4 * r \<le> q + 3" "q + 3 < 4 * r + 4"
      unfolding q_def r_def by simp_all
    then have "n \<le> 10 * r \<and> 10 * (r - 1) < n" by simp
    then show ?thesis using False by (simp add: t connsPerSlot_def flip: q_def r_def)
  qed (use assms(1) in \<open>simp add: t connsPerSlot_def\<close>)
qed

theorem cold_start_target_is_ceiling_witness:
  "coldStartTarget (newCredPool 0 (poolSizeForNumConns 30) 0 [] ReadError None) = 3"
proof -
  have "poolSizeForNumConns 30 = 12" using poolSize_closed [of 30] by simp
  then show ?thesis
    using cold_start_target_is_ceiling [of 30 "newCredPool 0 (poolSizeForNumConns 30) 0 [] ReadError None"]
    by (simp add: newCredPool_def Let_def connsPerSlot_def)
qed

section \<open>Acquiring\<close>

text \<open>
  Slot choice. The connection gets its own slot whenever that is usable; otherwise the usable
  slot with the most connections already on it, the lowest index on ties; and no slot only if none
  of the pool's slots is usable. The kind names the case.
\<close>

theorem pick_acquire_slot_spec:
  assumes "pool_inv cp" and "own < psize cp"
  shows "case pickAcquireSlotLocked now own cp of (slot, kind) \<Rightarrow>
      (slot = int own \<and> kind = ''own'' \<and> acquirable now cp own)
    \<or> (\<exists>s < psize cp. slot = int s \<and> \<not> acquirable now cp own \<and> acquirable now cp s
         \<and> (\<forall>j < psize cp. acquirable now cp j \<longrightarrow>
              active (pool cp ! j) \<le> active (pool cp ! s)
              \<and> (active (pool cp ! j) = active (pool cp ! s) \<longrightarrow> s \<le> j))
         \<and> kind = (if active (pool cp ! s) > 0 then ''compact'' else ''fresh''))
    \<or> (slot = - 1 \<and> kind = [] \<and> (\<forall>j < psize cp. \<not> acquirable now cp j))"
proof (cases rule: pick_cases [OF assms, of now])
  case (2 s kind)
  then show ?thesis by (auto simp: best_of_def)
qed auto

theorem pick_acquire_slot_spec_witness:
  "fst (pickAcquireSlotLocked demoNow 0 (demoPool [emptyEntry, filledEntry ''a'' (Some demoCred) demoNow 3])) = 1"
proof -
  let ?cp = "demoPool [emptyEntry, filledEntry ''a'' (Some demoCred) demoNow 3]"
  have "pool_inv ?cp" by (simp add: demoPool_def pool_inv_def quotaOK_def connsPerSlot_def)
  moreover have "acquirable demoNow ?cp 1" "\<not> acquirable demoNow ?cp 0"
    by (simp_all add: acquirable_def demoPool_def connsPerSlot_def)
  ultimately show ?thesis
    using pick_acquire_slot_spec [of ?cp 0 demoNow]
    by (auto simp: demoPool_def less_Suc_eq numeral_2_eq_2 split: prod.splits)
qed



text \<open>
  A fetch never starts into a slot whose credential is fresh or pending, is cooling down, or is
  already being fetched, and not while enough credentials for all connections are held or on the
  way; the grower's choice obeys the same slot condition.
\<close>

theorem fetch_only_into_dead_slots:
  assumes "pool_inv cp"
  shows "(\<forall>t. snd (getBegin now i cp) = (StartFetch t :: 'e getResult) \<longrightarrow>
            t < psize cp \<and> eligibleToFill now (pool cp ! t)
            \<and> provisioned now cp < coldStartTarget cp \<and> noneAcquirable now cp)
       \<and> (\<forall>j k. snd (tryFillBegin now (int j) k cp) = FillFetch \<longrightarrow>
            j < psize cp \<and> eligibleToFill now (pool cp ! j))"
proof (intro conjI allI impI)
  fix t
  assume "snd (getBegin now i cp) = (StartFetch t :: 'e getResult)"
  then show "t < psize cp" "eligibleToFill now (pool cp ! t)"
    "provisioned now cp < coldStartTarget cp" "noneAcquirable now cp"
    by (cases rule: getBegin_cases [where 'e = 'e, OF assms, of now i];
        simp add: acquireSlot_def Let_def)+
next
  fix j k
  assume fill: "snd (tryFillBegin now (int j) k cp) = FillFetch"
  then show j: "j < psize cp" by (auto simp: tryFillBegin_def split: if_splits)
  then have "growTo (Suc j) (pool cp) = pool cp" using assms by (simp add: pool_inv_def)
  then show "eligibleToFill now (pool cp ! j)"
    using fill j assms
    by (auto simp: tryFillBegin_def Let_def eligibleToFill_def isFreshLocked_def pool_inv_def
        split: if_splits)
qed

theorem fetch_only_into_dead_slots_witness:
  "pool_inv (cpool demoStart) \<and> eligibleToFill 0 (pool (cpool demoStart) ! 0)"
proof -
  have inv: "pool_inv (cpool demoStart)" by (simp add: demoStart_def newCredPool_inv)
  moreover have "snd (getBegin 0 0 (cpool demoStart)) = (StartFetch 0 :: string getResult)"
    by (simp add: demo_get)
  ultimately show ?thesis using fetch_only_into_dead_slots [OF inv, of 0 0, where 'e = string] by blast
qed

text \<open>
  Many connections calling \<open>get\<close> before any fetch returns: the pool they leave and how many of
  them went to fetch.
\<close>

fun raceGets :: "gotime \<Rightarrow> int list \<Rightarrow> credPool \<Rightarrow> credPool \<times> nat" where
  "raceGets now [] cp = (cp, 0)"
| "raceGets now (i # is) cp =
     (case (getBegin now i cp :: credPool \<times> string getResult) of
        (cp', StartFetch t) \<Rightarrow> (let (cp'', n) = raceGets now is cp' in (cp'', Suc n))
      | (cp', r) \<Rightarrow> raceGets now is cp')"

lemma getBegin_provisioned:
  assumes inv: "pool_inv cp"
  shows "(\<exists>cp' t. (getBegin now i cp :: credPool \<times> string getResult) = (cp', StartFetch t)
            \<and> provisioned now cp' = provisioned now cp + 1 \<and> provisioned now cp < coldStartTarget cp
            \<and> coldStartTarget cp' = coldStartTarget cp \<and> pool_inv cp')
       \<or> (\<exists>cp' r. (getBegin now i cp :: credPool \<times> string getResult) = (cp', r) \<and> (\<forall>t. r \<noteq> StartFetch t)
            \<and> provisioned now cp' = provisioned now cp \<and> coldStartTarget cp' = coldStartTarget cp \<and> pool_inv cp')"
proof -
  have inv': "pool_inv (fst (getBegin now i cp :: credPool \<times> string getResult))"
    by (rule getBegin_inv [OF inv])
  have usable: "length (filter (entryUsable now) ((pool cp)[j := e])) = length (filter (entryUsable now) (pool cp))"
    if "j < length (pool cp)" "entryUsable now e = entryUsable now (pool cp ! j)" for j e
    using length_filter_list_update [OF that(1), of "entryUsable now" e] that(2) by simp
  have flag: "length (filter fetching ((pool cp)[j := e])) + (if fetching (pool cp ! j) then 1 else 0)
      = length (filter fetching (pool cp)) + (if fetching e then 1 else 0)"
    if "j < length (pool cp)" for j e using length_filter_list_update [OF that, of fetching e] .
  show ?thesis
  proof (cases rule: getBegin_cases [where 'e = string, OF inv, of now i])
    case (2 s)
    then have s: "s < length (pool cp)" by (simp add: acquirable_def)
    show ?thesis
      using 2 inv' usable [OF s, of "(pool cp ! s)\<lparr>active := active (pool cp ! s) + 1\<rparr>"]
        flag [OF s, of "(pool cp ! s)\<lparr>active := active (pool cp ! s) + 1\<rparr>"]
      by (simp add: acquireSlot_def Let_def provisioned_def countWithUsableCredsLocked_def inFlight_def
          coldStartTarget_def split: if_splits)
  next
    case (5 t)
    then have t: "t < length (pool cp)" "\<not> fetching (pool cp ! t)"
      using inv by (auto simp: pool_inv_def eligibleToFill_def)
    show ?thesis
      using 5 inv' usable [OF t(1), of "(pool cp ! t)\<lparr>fetching := True\<rparr>"]
        flag [OF t(1), of "(pool cp ! t)\<lparr>fetching := True\<rparr>"] t(2)
      by (simp add: provisioned_def countWithUsableCredsLocked_def inFlight_def coldStartTarget_def)
  qed (use inv in auto)
qed

text \<open>
  Cold start. However many connections race into \<open>get\<close>, the credentials held or on the way
  never pass the cold-start target: with \<open>m\<close> provisioned at the start, at most target minus \<open>m\<close>
  of them fetch.
\<close>

theorem cold_start_race_bounded:
  assumes "pool_inv cp" and "provisioned now cp \<le> coldStartTarget cp"
  shows "provisioned now cp + int (snd (raceGets now is cp)) \<le> coldStartTarget cp"
  using assms
proof (induction "is" arbitrary: cp)
  case Nil
  then show ?case by simp
next
  case (Cons i "is")
  from getBegin_provisioned [OF Cons.prems(1), of now i] show ?case
  proof (elim disjE exE conjE)
    fix cp' t
    assume st: "(getBegin now i cp :: credPool \<times> string getResult) = (cp', StartFetch t)"
      "provisioned now cp' = provisioned now cp + 1" "provisioned now cp < coldStartTarget cp"
      "coldStartTarget cp' = coldStartTarget cp" "pool_inv cp'"
    have "provisioned now cp' + int (snd (raceGets now is cp')) \<le> coldStartTarget cp'"
      using st by (intro Cons.IH) simp_all
    then show ?case using st by (cases "raceGets now is cp'") simp
  next
    fix cp' r
    assume st: "(getBegin now i cp :: credPool \<times> string getResult) = (cp', r)" "\<forall>t. r \<noteq> StartFetch t"
      "provisioned now cp' = provisioned now cp" "coldStartTarget cp' = coldStartTarget cp" "pool_inv cp'"
    then have "raceGets now (i # is) cp = raceGets now is cp'" by (cases r) auto
    moreover have "provisioned now cp' + int (snd (raceGets now is cp')) \<le> coldStartTarget cp'"
      using st Cons.prems(2) by (intro Cons.IH) simp_all
    ultimately show ?case using st by simp
  qed
qed

theorem cold_start_race_bounded_witness:
  "snd (raceGets 0 [0, 1, 2, 3, 4] (newCredPool 0 12 0 [] ReadError None)) \<le> 3"
proof -
  let ?cp = "newCredPool 0 12 0 [] ReadError None"
  have "provisioned 0 ?cp = 0" "coldStartTarget ?cp = 3"
    by (simp_all add: newCredPool_def Let_def provisioned_def countWithUsableCredsLocked_def inFlight_def
        coldStartTarget_def)
  then show ?thesis
    using cold_start_race_bounded [OF newCredPool_inv, of 0 0 12 0 "[]" ReadError None "[0, 1, 2, 3, 4]"] by simp
qed

section \<open>Releasing and saturation\<close>

text \<open>
  Release. Giving a slot back lowers its count by one, not below zero, stamps the moment the
  last connection left, touches no other slot, and wakes the parked connections exactly when a
  full slot becomes usable by it.
\<close>

theorem release_spec:
  assumes "pool_inv cp" and "j < psize cp"
  shows "active (pool (release now (int j) cp) ! j) = max 0 (active (pool cp ! j) - 1)
    \<and> lastUsedAt (pool (release now (int j) cp) ! j) =
        (if active (pool cp ! j) = 1 then now else lastUsedAt (pool cp ! j))
    \<and> (\<forall>i. i \<noteq> j \<longrightarrow> pool (release now (int j) cp) ! i = pool cp ! i)
    \<and> (slotAvailableCh (release now (int j) cp) \<noteq> slotAvailableCh cp \<longleftrightarrow>
         acquirable now (release now (int j) cp) j \<and> active (pool cp ! j) = connsPerSlot)"
proof -
  have len: "j < length (pool cp)" and q: "quotaOK (pool cp ! j)"
    using assms by (auto simp: pool_inv_def list_all_length)
  show ?thesis
  proof (cases rule: release_cases [of "int j" cp now])
    case noop
    then show ?thesis using assms len by simp
  next
    case (released s)
    then show ?thesis
      using len q
      by (auto simp: releasedEntry_def releaseWakes_def acquirable_def quotaOK_def connsPerSlot_def)
  qed
qed

theorem release_spec_witness:
  "active (pool (release demoNow 0 (demoPool [filledEntry ''a'' (Some demoCred) demoNow 10])) ! 0) = 9
   \<and> slotAvailableCh (release demoNow 0 (demoPool [filledEntry ''a'' (Some demoCred) demoNow 10])) \<noteq> 0"
proof -
  let ?cp = "demoPool [filledEntry ''a'' (Some demoCred) demoNow 10]"
  have "pool_inv ?cp" by (simp add: demoPool_def pool_inv_def quotaOK_def connsPerSlot_def)
  moreover have "acquirable demoNow (release demoNow 0 ?cp) 0"
    by (simp add: acquirable_def release_def demoPool_def Let_def connsPerSlot_def)
  ultimately show ?thesis
    using release_spec [of ?cp 0 demoNow] by (simp add: demoPool_def connsPerSlot_def)
qed

text \<open>
  A quota error. The slot that got it is saturated for eleven minutes when connections are on
  it or left it less than twelve minutes ago, for three minutes otherwise; other slots keep their
  state; and the connections that would have been put on it go elsewhere until then.
\<close>

theorem markSaturated_spec:
  assumes "pool_inv cp" and "j < psize cp"
  shows "snd (markSaturated now (int j) cp) =
      (if active (pool cp ! j) > 0
          \<or> lastUsedAt (pool cp ! j) \<noteq> 0 \<and> now - lastUsedAt (pool cp ! j) < activeAllocationsWindow
       then vkActiveAllocationsCooldown else vkSaturationCooldown)
    \<and> saturatedUntil (pool (fst (markSaturated now (int j) cp)) ! j) = now + snd (markSaturated now (int j) cp)
    \<and> (\<forall>i. i \<noteq> j \<longrightarrow> pool (fst (markSaturated now (int j) cp)) ! i = pool cp ! i)
    \<and> (\<forall>t < now + vkSaturationCooldown. \<not> acquirable t (fst (markSaturated now (int j) cp)) j)"
proof -
  have len: "j < length (pool cp)" using assms by (simp add: pool_inv_def)
  have win: "time_Sub now (lastUsedAt (pool cp ! j)) < activeAllocationsWindow \<longleftrightarrow>
      now - lastUsedAt (pool cp ! j) < activeAllocationsWindow"
    by (subst time_Sub_less) (simp_all add: go_defs)
  show ?thesis
    using len assms(2)
    by (auto simp: markSaturated_def Let_def applySaturationLocked_def acquirable_def
        win vkSaturationCooldown_def vkActiveAllocationsCooldown_def minute_def second_def)
qed

theorem markSaturated_spec_witness:
  "snd (markSaturated demoNow 0 (demoPool [filledEntry ''a'' (Some demoCred) demoNow 4])) = 11 * minute"
proof -
  let ?cp = "demoPool [filledEntry ''a'' (Some demoCred) demoNow 4]"
  have "pool_inv ?cp" by (simp add: demoPool_def pool_inv_def quotaOK_def connsPerSlot_def)
  then show ?thesis
    using markSaturated_spec [of ?cp 0 demoNow] demoNow_pos
    by (simp add: demoPool_def vkActiveAllocationsCooldown_def)
qed

section \<open>Path changes\<close>

text \<open>What the marking loop leaves in one slot: the slots are handled independently.\<close>

lemma pool_markSlot:
  "s < length (pool cp) \<Longrightarrow> i < length (pool cp) \<Longrightarrow>
   saturatedUntil (pool (markSlotForPathChange now s cp) ! i) =
     (if i = s then (case smartPause now (pool cp ! i) of None \<Rightarrow> saturatedUntil (pool cp ! i) | Some d \<Rightarrow> now + d)
      else saturatedUntil (pool cp ! i))
   \<and> (i \<noteq> s \<longrightarrow> pool (markSlotForPathChange now s cp) ! i = pool cp ! i)"
  by (auto simp: markSlotForPathChange_def applySaturationLocked_def Let_def split: option.split)

lemma pool_markSlots:
  assumes "distinct ss" and "\<forall>s \<in> set ss. s < length (pool cp)" and "i < length (pool cp)"
  shows "saturatedUntil (pool (fold (markSlotForPathChange now) ss cp) ! i) =
     (if i \<in> set ss then (case smartPause now (pool cp ! i) of None \<Rightarrow> saturatedUntil (pool cp ! i) | Some d \<Rightarrow> now + d)
      else saturatedUntil (pool cp ! i))"
  using assms
proof (induction ss arbitrary: cp)
  case Nil
  then show ?case by simp
next
  case (Cons s ss)
  let ?cp = "markSlotForPathChange now s cp"
  have IH: "saturatedUntil (pool (fold (markSlotForPathChange now) ss ?cp) ! i) =
     (if i \<in> set ss then (case smartPause now (pool ?cp ! i) of None \<Rightarrow> saturatedUntil (pool ?cp ! i) | Some d \<Rightarrow> now + d)
      else saturatedUntil (pool ?cp ! i))"
    using Cons.prems by (intro Cons.IH) simp_all
  show ?case using IH Cons.prems pool_markSlot [of s cp i now] by (auto split: option.split)
qed

text \<open>
  A path change. Every slot that connections are on, and every slot they left between two
  seconds and ten and a half minutes ago, is saturated until its last possible allocation on VK's
  side has expired, plus thirty seconds; already saturated, empty and load-pending slots, and the
  others, keep their deadline.
\<close>

theorem path_change_saturates:
  assumes "pool_inv cp" and "i < psize cp" and "lastUsedAt (pool cp ! i) \<le> now"
    and "\<not> now < saturatedUntil (pool cp ! i)" and "creds (pool cp ! i) \<noteq> None"
    and "\<not> now < availableAt (pool cp ! i)"
  shows "saturatedUntil (pool (MarkInUseSlotsForPathChange now cp) ! i) =
      (if active (pool cp ! i) > 0 then now + 630 * second
       else if lastUsedAt (pool cp ! i) \<noteq> 0 \<and> 2 * second < now - lastUsedAt (pool cp ! i)
               \<and> now - lastUsedAt (pool cp ! i) < 630 * second
       then lastUsedAt (pool cp ! i) + 630 * second
       else saturatedUntil (pool cp ! i))"
proof -
  have len: "psize cp \<le> length (pool cp)" using assms(1) by (simp add: pool_inv_def)
  let ?age = "now - lastUsedAt (pool cp ! i)"
  have sub: "time_Sub now (lastUsedAt (pool cp ! i)) = min (2 ^ 63 - 1) ?age" "time_Sub now now = 0"
    using assms(3) by (simp_all add: time_Sub_def)
  have "smartPause now (pool cp ! i) =
      (if active (pool cp ! i) > 0 then Some (630 * second)
       else if lastUsedAt (pool cp ! i) \<noteq> 0 \<and> 2 * second < ?age \<and> ?age < 630 * second
       then Some (630 * second - ?age) else None)"
    using assms(4-6) unfolding smartPause_def sub
    by (simp add: Let_def sub vkAllocLifetime_def safetyBuffer_def minRealUseAge_def
        activeAllocationsWindow_def minute_def second_def) auto
  moreover have "saturatedUntil (pool (MarkInUseSlotsForPathChange now cp) ! i) =
      (case smartPause now (pool cp ! i) of None \<Rightarrow> saturatedUntil (pool cp ! i) | Some d \<Rightarrow> now + d)"
    using pool_markSlots [of "[0..<psize cp]" cp i now] len assms(2)
    by (simp add: MarkInUseSlotsForPathChange_def Let_def min_absorb1)
  ultimately show ?thesis by simp
qed

theorem path_change_saturates_witness:
  "saturatedUntil (pool (MarkInUseSlotsForPathChange demoNow (demoPool
     [(filledEntry ''a'' (Some demoCred) demoNow 0)\<lparr>lastUsedAt := demoNow - 620 * second\<rparr>])) ! 0)
   = demoNow + 10 * second"
proof -
  let ?cp = "demoPool [(filledEntry ''a'' (Some demoCred) demoNow 0)\<lparr>lastUsedAt := demoNow - 620 * second\<rparr>]"
  have "pool_inv ?cp" by (simp add: demoPool_def pool_inv_def quotaOK_def connsPerSlot_def)
  moreover have "demoNow - 620 * second \<noteq> 0" by (simp add: demoNow_def unixToInternal_def second_def)
  ultimately show ?thesis
    using path_change_saturates [of ?cp 0 demoNow] demoNow_pos by (simp add: demoPool_def second_def)
qed

text \<open>
  The pause. After a path event no connection acquires for half a second, or for thirty
  seconds when the previous event came half a second to ninety seconds before; an event never
  shortens a pause, and neither does a transition notice.
\<close>

theorem path_change_pauses:
  "pauseAcquireUntil (MarkInUseSlotsForPathChange now cp) =
      max (pauseAcquireUntil cp)
        (now + (if lastPathEventAt cp \<noteq> 0 \<and> 500 * millisecond \<le> now - lastPathEventAt cp
                   \<and> now - lastPathEventAt cp < 90 * second
                then 30 * second else 500 * millisecond))
    \<and> pauseAcquireUntil (ExtendPauseAcquireForTransition now d cp) = max (pauseAcquireUntil cp) (now + d)
    \<and> lastPathEventAt (MarkInUseSlotsForPathChange now cp) = now"
proof -
  have sub: "time_Sub now (lastPathEventAt cp) < 90 * second \<longleftrightarrow> now - lastPathEventAt cp < 90 * second"
    "500 * millisecond \<le> time_Sub now (lastPathEventAt cp) \<longleftrightarrow> 500 * millisecond \<le> now - lastPathEventAt cp"
    by (auto simp: time_Sub_def second_def millisecond_def)
  have ext: "pauseAcquireUntil (extendPause now d' cp') = max (pauseAcquireUntil cp') (now + d')" for d' cp'
    by (auto simp: extendPause_def armPauseAcquireBroadcastLocked_def Let_def)
  show ?thesis
    by (simp add: MarkInUseSlotsForPathChange_def ExtendPauseAcquireForTransition_def Let_def ext
        pauseDuration_def sub pauseAcquireAfterPathEvent_def cascadeDetectionWindow_def cascadePauseDuration_def)
qed

section \<open>The cache file\<close>





section \<open>Seeding\<close>

lemma relocate_nth:
  "i < length es \<Longrightarrow> relocate d es ! i = es ! i
     \<or> relocate d es ! i = d \<and> creds (es ! i) = None \<and> (\<forall>k < i. creds (es ! k) \<noteq> None)"
proof (induction es arbitrary: i)
  case Nil
  then show ?case by simp
next
  case (Cons e es)
  then show ?case by (cases i) (auto simp: nth_Cons split: nat.splits)
qed

lemma relocate_keeps: "i < length es \<Longrightarrow> creds (es ! i) \<noteq> None \<Longrightarrow> relocate d es ! i = es ! i"
  using relocate_nth [of i es d] by auto

lemma seedSlot_stale:
  assumes "s < length (pool cp)" and "\<not> entryIsFresh now (pool cp ! s)" and "creds (pool cp ! s) = Some oc"
    and "Username oc \<noteq> Username c"
  shows "\<exists>cp'. seedSlot now wr (int s) a (Some c) cp = Some cp' \<and>
    pool cp' = relocate (pool cp ! s) (clearDuplicates s (Username c) ((pool cp)[s := filledEntry a (Some c) now 0]))"
  using assms by (simp add: seedSlot_def Let_def isFreshLocked_nat)

text \<open>
  Seeding. A seed placed by the app ends up in its slot, unless that slot already holds a fresh
  credential; afterwards no other slot holds the same credential set, so its quota is counted once.
\<close>

theorem seed_placed_once:
  assumes "pool_inv cp" and "s < psize cp" and "seedSlot now wr (int s) a (Some c) cp = Some cp'"
    and "\<not> entryIsFresh now (pool cp ! s)"
  shows "creds (pool cp' ! s) = Some c \<and> addr (pool cp' ! s) = a \<and> active (pool cp' ! s) = 0
    \<and> (\<forall>i < length (pool cp'). \<forall>c'. creds (pool cp' ! i) = Some c' \<longrightarrow> Username c' = Username c \<longrightarrow> i = s)
    \<and> slotAvailableCh cp < slotAvailableCh cp'"
proof -
  have s: "s < length (pool cp)" using assms(1,2) by (simp add: pool_inv_def)
  define es2 where "es2 = clearDuplicates s (Username c) ((pool cp)[s := filledEntry a (Some c) now 0])"
  define disp where "disp = (case creds (pool cp ! s) of None \<Rightarrow> False | Some oc \<Rightarrow> Username oc \<noteq> Username c)"
  define es3 where "es3 = (if disp then relocate (pool cp ! s) es2 else es2)"
  have "pool cp' = es3" and wake: "slotAvailableCh cp < slotAvailableCh cp'"
    using assms(3,4) s by (auto simp: seedSlot_def Let_def isFreshLocked_nat es2_def es3_def disp_def)
  have len: "length es3 = length (pool cp)" "length es2 = length (pool cp)" by (simp_all add: es3_def es2_def)
  have own2: "es2 ! s = filledEntry a (Some c) now 0" using s by (simp add: es2_def)
  have own: "es3 ! s = filledEntry a (Some c) now 0"
    using relocate_keeps [of s es2] own2 s len by (simp add: es3_def)
  have uniq2: "i = s" if "i < length es2" "creds (es2 ! i) = Some c'" "Username c' = Username c" for i c'
    using that by (auto simp: es2_def split: if_splits)
  have "i = s" if "i < length es3" "creds (es3 ! i) = Some c'" "Username c' = Username c" for i c'
  proof (cases disp)
    case False
    then show ?thesis using that uniq2 by (simp add: es3_def)
  next
    case True
    then have "es3 ! i = es2 ! i \<or> es3 ! i = pool cp ! s"
      using relocate_nth [of i es2 "pool cp ! s"] that(1) len by (auto simp: es3_def)
    then show ?thesis using that uniq2 len True by (auto simp: disp_def)
  qed
  then show ?thesis using own wake \<open>pool cp' = es3\<close> by simp
qed

theorem seed_placed_once_witness:
  "map creds (pool (the (seedSlot demoNow True 0 ''r:1'' (Some demoCred)
      (demoPool [filledEntry ''r:0'' (Some oldCred) 0 0, filledEntry ''r:1'' (Some demoCred) 0 0]))))
   = [Some demoCred, Some oldCred]
   \<and> creds (pool (the (seedSlot demoNow True 0 ''r:1'' (Some demoCred)
      (demoPool [filledEntry ''r:0'' (Some oldCred) 0 0, filledEntry ''r:1'' (Some demoCred) 0 0]))) ! 0) = Some demoCred"
proof -
  let ?cp = "demoPool [filledEntry ''r:0'' (Some oldCred) 0 0, filledEntry ''r:1'' (Some demoCred) 0 0]"
  have inv: "pool_inv ?cp" by (simp add: demoPool_def pool_inv_def quotaOK_def connsPerSlot_def)
  let ?es = "[filledEntry ''r:1'' (Some demoCred) demoNow 0, filledEntry ''r:1'' (Some demoCred) 0 0]"
  have dup: "clearDuplicates 0 (Username demoCred) ?es
      = [filledEntry ''r:1'' (Some demoCred) demoNow 0, emptyEntry]"
    by (simp add: clearDuplicates_def)
  have names: "Username oldCred \<noteq> Username demoCred" by (simp add: demo_names)
  have pool: "pool ?cp = [filledEntry ''r:0'' (Some oldCred) 0 0, filledEntry ''r:1'' (Some demoCred) 0 0]"
    by (simp add: demoPool_def)
  have stale: "\<not> isFreshLocked demoNow ?cp 0" by (simp add: isFreshLocked_def pool)
  have seed: "\<exists>cp'. seedSlot demoNow True 0 ''r:1'' (Some demoCred) ?cp = Some cp' \<and>
      map creds (pool cp') = [Some demoCred, Some oldCred]"
    using seedSlot_stale [of 0 ?cp demoNow oldCred demoCred True "''r:1''"] names
    by (auto simp: pool dup)
  then obtain cp' where cp': "seedSlot demoNow True 0 ''r:1'' (Some demoCred) ?cp = Some cp'"
    "map creds (pool cp') = [Some demoCred, Some oldCred]" by (elim exE conjE)
  have "creds (pool cp' ! 0) = Some demoCred"
  proof (rule seed_placed_once [THEN conjunct1, OF inv])
    show "0 < psize ?cp" by (simp add: demoPool_def)
    show "seedSlot demoNow True (int 0) ''r:1'' (Some demoCred) ?cp = Some cp'" using cp'(1) by simp
    show "\<not> entryIsFresh demoNow (pool ?cp ! 0)" by (simp add: pool)
  qed
  then show ?thesis unfolding cp'(1) option.sel using cp'(2) by (intro conjI)
qed

section \<open>Reasons in the log, and what the counts miss\<close>

text \<open>
  The periodic log of freshness changes always knows why: a slot that lost its freshness is
  never reported with the fallback reason \<open>unknown\<close>, a slot that gained it never as having no
  credential, and a second tick with nothing changed reports nothing.
\<close>

theorem fresh_log_reasons_known:
  "(\<forall>(slot, isf, r) \<in> set (snd (logFreshTransitionsLocked now cp)).
      r \<noteq> Unknown \<and> r \<noteq> CredsAppeared \<and> isf = entryIsFresh now (pool cp ! slot) \<and> slot < length (pool cp))
   \<and> snd (logFreshTransitionsLocked now (fst (logFreshTransitionsLocked now cp))) = []"
proof -
  have lost: "lostFreshReason now e \<noteq> Unknown \<and> lostFreshReason now e \<noteq> CredsAppeared"
    if "\<not> entryIsFresh now e" for e
    using that by (auto simp: lostFreshReason_def entryIsFresh_def expiryOK_def split: option.splits if_splits)
  have gained: "gainedFreshReason now e \<noteq> Unknown \<and> gainedFreshReason now e \<noteq> CredsAppeared"
    if "entryIsFresh now e" for e
    using that by (auto simp: gainedFreshReason_def entryIsFresh_def split: option.splits)
  show ?thesis
    using lost gained by (auto simp: logFreshTransitionsLocked_def Let_def split: if_splits)
qed

theorem fresh_log_reasons_known_witness:
  "list_all (\<lambda>(slot, isf, r). r \<noteq> Unknown) (snd (logFreshTransitionsLocked demoNow
      ((demoPool [filledEntry ''r:0'' (Some oldCred) 0 0])\<lparr>freshLastTick := [True]\<rparr>)))"
  unfolding list_all_iff using fresh_log_reasons_known by blast

text \<open>
  What refilling a slot in use costs. When a connection fetches into a slot whose expired
  credential still carries \<open>n\<close> connections, the count restarts at one; the first of the old
  connections to leave then brings it to zero although the new credential is in use. The comment
  at the assignment says the count was zero before.
\<close>

theorem refill_in_use_loses_count:
  assumes "pool_inv cp" and "t < psize cp"
  shows "case getFinish now wr i t (Inr (a, c)) cp of (cp', r) \<Rightarrow>
      r = (Acquired a (Some c) t :: 'e getResult) \<and> active (pool cp' ! t) = 1
      \<and> active (pool (release now' (int t) cp') ! t) = 0"
proof -
  have t: "t < length (pool cp)" using assms by (simp add: pool_inv_def)
  from getFinish_cases [OF assms, of "Inr (a, c) :: 'e fetchResult" now wr i]
  show ?thesis
  proof cases
    case (1 a' c')
    then show ?thesis using t assms(2) by (simp add: release_def Let_def)
  qed auto
qed

theorem refill_in_use_loses_count_witness:
  "case getFinish demoNow True 0 0 (Inr (''r:1'', demoCred)) (demoPool [filledEntry ''r:0'' (Some oldCred) 0 9])
   of (cp', r) \<Rightarrow> r = (Acquired ''r:1'' (Some demoCred) 0 :: string getResult) \<and> active (pool cp' ! 0) = 1
     \<and> active (pool (release demoNow 0 cp') ! 0) = 0"
proof -
  let ?cp = "demoPool [filledEntry ''r:0'' (Some oldCred) 0 9]"
  have "pool_inv ?cp" by (simp add: demoPool_def pool_inv_def quotaOK_def connsPerSlot_def)
  then show ?thesis
    using refill_in_use_loses_count [where cp = ?cp and t = 0 and now = demoNow and wr = True and i = 0
        and a = "''r:1''" and c = demoCred and now' = demoNow and 'e = string]
    by (simp add: demoPool_def)
qed

end
