(* ===== verification/Bytes.thy ===== *)
theory Bytes
  imports Prelude
begin

text \<open>
  Byte strings on the wire: the big-endian accessors of Go's \<open>encoding/binary\<close>, written with the
  shifts and ors that package uses, and the facts the packet formats need of them: each pair is a
  round trip and each writer is injective.
\<close>

unbundle bit_operations_syntax

named_theorems be_defs

definition PutUint16 :: "16 word \<Rightarrow> bytes" where
  [be_defs]: "PutUint16 v = [ucast (drop_bit 8 v), ucast v]"

definition PutUint32 :: "32 word \<Rightarrow> bytes" where
  [be_defs]: "PutUint32 v = [ucast (drop_bit 24 v), ucast (drop_bit 16 v), ucast (drop_bit 8 v), ucast v]"

definition PutUint64 :: "64 word \<Rightarrow> bytes" where
  [be_defs]: "PutUint64 v = [ucast (drop_bit 56 v), ucast (drop_bit 48 v), ucast (drop_bit 40 v),
     ucast (drop_bit 32 v), ucast (drop_bit 24 v), ucast (drop_bit 16 v), ucast (drop_bit 8 v), ucast v]"

definition Uint16 :: "bytes \<Rightarrow> 16 word" where
  [be_defs]: "Uint16 b = push_bit 8 (ucast (b ! 0)) OR ucast (b ! 1)"

definition Uint32 :: "bytes \<Rightarrow> 32 word" where
  [be_defs]: "Uint32 b = push_bit 24 (ucast (b ! 0)) OR push_bit 16 (ucast (b ! 1))
     OR push_bit 8 (ucast (b ! 2)) OR ucast (b ! 3)"

definition Uint64 :: "bytes \<Rightarrow> 64 word" where
  [be_defs]: "Uint64 b = push_bit 56 (ucast (b ! 0)) OR push_bit 48 (ucast (b ! 1))
     OR push_bit 40 (ucast (b ! 2)) OR push_bit 32 (ucast (b ! 3)) OR push_bit 24 (ucast (b ! 4))
     OR push_bit 16 (ucast (b ! 5)) OR push_bit 8 (ucast (b ! 6)) OR ucast (b ! 7)"

lemma length_Put [simp]:
  "length (PutUint16 s) = 2" "length (PutUint32 t) = 4" "length (PutUint64 c) = 8"
  by (simp_all add: be_defs)

lemma bit_byte_bound: "bit (b :: 8 word) n \<Longrightarrow> n < 8"
  using bit_imp_le_length by fastforce

lemma Uint16_Put [simp]: "Uint16 (PutUint16 v) = v"
proof (rule bit_word_eqI)
  fix n assume "n < LENGTH(16)"
  then show "bit (Uint16 (PutUint16 v)) n = bit v n"
    by (cases "n < 8") (auto simp: be_defs bit_simps dest: bit_byte_bound)
qed

lemma Uint32_Put [simp]: "Uint32 (PutUint32 v) = v"
proof (rule bit_word_eqI)
  fix n assume "n < LENGTH(32)"
  then consider "n < 8" | "8 \<le> n" "n < 16" | "16 \<le> n" "n < 24" | "24 \<le> n" "n < 32" by force
  then show "bit (Uint32 (PutUint32 v)) n = bit v n"
    by cases (auto simp: be_defs bit_simps nth_Cons' dest: bit_byte_bound)
qed

lemma PutUint16_inject [simp]: "PutUint16 v = PutUint16 w \<longleftrightarrow> v = w"
  by (metis Uint16_Put)

lemma PutUint32_inject [simp]: "PutUint32 v = PutUint32 w \<longleftrightarrow> v = w"
  by (metis Uint32_Put)

lemma PutUint64_halves: "PutUint64 v = PutUint32 (ucast (drop_bit 32 v)) @ PutUint32 (ucast v)"
proof -
  have "(ucast (drop_bit k (ucast (drop_bit 32 v) :: 32 word)) :: 8 word) = ucast (drop_bit (32 + k) v)"
    if "k \<le> 24" for k
    using that by (intro bit_word_eqI) (auto simp: bit_simps ac_simps)
  from this [of 24] this [of 16] this [of 8] this [of 0]
  have hi: "PutUint32 (ucast (drop_bit 32 v)) =
      [ucast (drop_bit 56 v), ucast (drop_bit 48 v), ucast (drop_bit 40 v), ucast (drop_bit 32 v)]"
    by (simp add: PutUint32_def)
  have "(ucast (drop_bit k (ucast v :: 32 word)) :: 8 word) = ucast (drop_bit k v)" if "k \<le> 24" for k
    using that by (intro bit_word_eqI) (auto simp: bit_simps ac_simps)
  from this [of 24] this [of 16] this [of 8] this [of 0]
  have lo: "PutUint32 (ucast v) = [ucast (drop_bit 24 v), ucast (drop_bit 16 v), ucast (drop_bit 8 v), ucast v]"
    by (simp add: PutUint32_def)
  show ?thesis unfolding hi lo by (simp add: PutUint64_def)
qed

lemma ucast_or: "(ucast (a OR b) :: 64 word) = ucast (a :: 32 word) OR ucast b"
  by (intro bit_word_eqI) (auto simp: bit_simps)

lemma ucast_push_byte: "k \<le> 24 \<Longrightarrow>
    (ucast (push_bit k (ucast (x :: 8 word)) :: 32 word) :: 64 word) = push_bit k (ucast x)"
  by (intro bit_word_eqI) (auto simp: bit_simps dest: bit_byte_bound)

lemma ucast_byte: "(ucast (ucast (x :: 8 word) :: 32 word) :: 64 word) = ucast x"
  by (intro bit_word_eqI) (auto simp: bit_simps dest: bit_byte_bound)

lemma Uint64_halves: "length xs = 4 \<Longrightarrow> length ys = 4 \<Longrightarrow>
    Uint64 (xs @ ys) = push_bit 32 (ucast (Uint32 xs)) OR ucast (Uint32 ys)"
  by (simp add: Uint64_def Uint32_def ucast_or ucast_push_byte ucast_byte push_bit_or nth_append or.assoc)

lemma Uint64_Put [simp]: "Uint64 (PutUint64 v) = v"
proof (rule bit_word_eqI)
  fix n assume "n < LENGTH(64)"
  then show "bit (Uint64 (PutUint64 v)) n = bit v n"
    by (auto simp: PutUint64_halves Uint64_halves bit_simps)
qed

lemma PutUint64_inject [simp]: "PutUint64 v = PutUint64 w \<longleftrightarrow> v = w"
  by (metis Uint64_Put)

lemma take_append_exact [simp]: "length xs = n \<Longrightarrow> take n (xs @ ys) = xs"
  by simp

lemma drop_append_exact [simp]: "length xs = n \<Longrightarrow> drop n (xs @ ys) = ys"
  by simp

text \<open>The direction bit: the top bit of a byte set and cleared, as \<open>|= 0x80\<close> and \<open>&^= 0x80\<close> do.\<close>

lemma set_top_bit: "bit ((b :: 8 word) OR 0x80) 7"
  by (simp add: bit_simps)

lemma clear_top_bit: "\<not> bit ((b :: 8 word) AND NOT 0x80) 7"
  by (simp add: bit_simps)

end
