(* ===== verification/Codec.thy ===== *)
theory Codec
  imports Bytes
begin

text \<open>
  What the transports rely on. The cipher of \<open>golang.org/x/crypto/chacha20poly1305\<close> is a parameter:
  a pair of functions whose documented laws are the predicate \<open>aead_ok\<close>. A packet format is
  described by two contracts. \<open>datagram_codec\<close>: what one side seals the other opens, whatever was
  sent before and in whatever order datagrams arrive. \<open>nonce_schedule\<close>: the nonces a sender goes through repeat only after a stated
  number of packets. Both wire formats of the program are instances.
\<close>

section \<open>The AEAD parameter\<close>

record AEAD =
  Seal :: "bytes \<Rightarrow> bytes \<Rightarrow> bytes \<Rightarrow> bytes"
  Open :: "bytes \<Rightarrow> bytes \<Rightarrow> bytes \<Rightarrow> bytes option"

text \<open>
  The arguments are nonce, plaintext or ciphertext, additional data. A 12-byte nonce is what the
  package asks for (any other length panics); the tag is 16 bytes.
\<close>

definition Overhead :: nat where "Overhead = 16"

definition aead_ok :: "AEAD \<Rightarrow> bool" where
  "aead_ok a \<longleftrightarrow> (\<forall>nonce p ad. length nonce = 12 \<longrightarrow>
     Open a nonce (Seal a nonce p ad) ad = Some p \<and> length (Seal a nonce p ad) = length p + Overhead)"

lemma aead_okD:
  assumes "aead_ok a" "length nonce = 12"
  shows "Open a nonce (Seal a nonce p ad) ad = Some p"
    and "length (Seal a nonce p ad) = length p + Overhead"
  using assms by (simp_all add: aead_ok_def)

text \<open>The constructor of the package: a cipher for a key, or an error.\<close>

definition new_ok :: "(bytes \<Rightarrow> AEAD option) \<Rightarrow> bool" where
  "new_ok New \<longleftrightarrow> (\<forall>k a. New k = Some a \<longrightarrow> aead_ok a)"

section \<open>Sequences of sends\<close>

fun sendAll :: "('tx \<Rightarrow> 'e \<Rightarrow> 'tx \<times> bytes option) \<Rightarrow> 'tx \<Rightarrow> 'e list \<Rightarrow> bytes option list" where
  "sendAll f tx [] = []"
| "sendAll f tx (e # es) = (case f tx e of (tx', w) \<Rightarrow> w # sendAll f tx' es)"

definition sentPackets :: "('tx \<Rightarrow> 'e \<Rightarrow> 'tx \<times> bytes option) \<Rightarrow> 'tx \<Rightarrow> 'e list \<Rightarrow> bytes list" where
  "sentPackets f tx es = map the (filter (\<lambda>w. w \<noteq> None) (sendAll f tx es))"

lemma length_sendAll [simp]: "length (sendAll f tx es) = length es"
  by (induction es arbitrary: tx) (auto split: prod.split)

section \<open>Opening what was sealed\<close>

locale datagram_codec =
  fixes peers :: "'tx \<Rightarrow> 'rx \<Rightarrow> bool"
    and accepts :: "'tx \<Rightarrow> 'e \<Rightarrow> bool"
    and payload_of :: "'e \<Rightarrow> bytes"
    and wire_len :: "'e \<Rightarrow> nat"
    and seal :: "'tx \<Rightarrow> 'e \<Rightarrow> 'tx \<times> bytes option"
    and unseal :: "'rx \<Rightarrow> bytes \<Rightarrow> bytes option"
  assumes seal_unseal: "peers tx rx \<Longrightarrow> accepts tx e \<Longrightarrow>
      \<exists>w. snd (seal tx e) = Some w \<and> unseal rx w = Some (payload_of e) \<and> length w = wire_len e"
    and peers_seal: "peers tx rx \<Longrightarrow> accepts tx e \<Longrightarrow> peers (fst (seal tx e)) rx"
    and accepts_seal: "accepts tx e' \<Longrightarrow> accepts (fst (seal tx e)) e'"
begin

lemma delivery:
  assumes "peers tx rx" and "list_all (accepts tx) es" and "i < length es"
  shows "\<exists>w. sendAll seal tx es ! i = Some w \<and> unseal rx w = Some (payload_of (es ! i))
    \<and> length w = wire_len (es ! i)"
  using assms
proof (induction es arbitrary: tx i)
  case Nil
  then show ?case by simp
next
  case (Cons e es)
  obtain tx' w where s: "seal tx e = (tx', w)" by force
  have "peers tx' rx" using peers_seal [of tx rx e] Cons.prems s by simp
  moreover have "list_all (accepts tx') es"
    using accepts_seal [of tx _ e] Cons.prems(2) s by (auto simp: list_all_iff)
  ultimately show ?case
    using Cons.IH [of tx' "i - 1"] Cons.prems seal_unseal [of tx rx e] s by (cases i) auto
qed

end

section \<open>Nonces\<close>

locale nonce_schedule =
  fixes nonceAt :: "'tx \<Rightarrow> nat \<Rightarrow> bytes"
    and period :: nat
    and nonce_of :: "bytes \<Rightarrow> bytes"
    and seal :: "'tx \<Rightarrow> 'e \<Rightarrow> 'tx \<times> bytes option"
    and wf :: "'tx \<Rightarrow> bool"
  assumes nonce_inj: "wf tx \<Longrightarrow> inj_on (nonceAt tx) {..<period}"
    and wf_seal: "wf tx \<Longrightarrow> wf (fst (seal tx e))"
    and seal_nonce: "wf tx \<Longrightarrow> snd (seal tx e) = Some w \<Longrightarrow> nonce_of w = nonceAt tx 0"
    and seal_advance: "wf tx \<Longrightarrow> snd (seal tx e) \<noteq> None \<Longrightarrow> nonceAt (fst (seal tx e)) i = nonceAt tx (Suc i)"
    and seal_refused: "wf tx \<Longrightarrow> snd (seal tx e) = None \<Longrightarrow>
      nonceAt (fst (seal tx e)) = nonceAt tx \<or> (\<forall>i. nonceAt (fst (seal tx e)) i = nonceAt tx (Suc i))"
begin

text \<open>The nonces in use are nonces of the schedule at strictly increasing positions.\<close>

lemma schedule_positions:
  assumes "wf tx"
  shows "\<exists>ks. map nonce_of (sentPackets seal tx es) = map (nonceAt tx) ks \<and> sorted_wrt (<) ks
    \<and> (\<forall>k \<in> set ks. k < length es)"
  using assms
proof (induction es arbitrary: tx)
  case Nil
  then show ?case by (simp add: sentPackets_def)
next
  case (Cons e es)
  obtain tx' w where s: "seal tx e = (tx', w)" by force
  have "wf tx'" using wf_seal [OF Cons.prems, of e] s by simp
  then obtain ks where ks: "map nonce_of (sentPackets seal tx' es) = map (nonceAt tx') ks"
    "sorted_wrt (<) ks" "\<forall>k \<in> set ks. k < length es" using Cons.IH by blast
  show ?case
  proof (cases w)
    case None
    from seal_refused [OF Cons.prems, of e] s None consider
      "nonceAt tx' = nonceAt tx" | "\<And>i. nonceAt tx' i = nonceAt tx (Suc i)" by auto
    then show ?thesis
    proof cases
      case 1
      then show ?thesis using ks s None by (intro exI [of _ ks]) (auto simp: sentPackets_def)
    next
      case 2
      then show ?thesis using ks s None
        by (intro exI [of _ "map Suc ks"]) (auto simp: sentPackets_def sorted_wrt_map)
    qed
  next
    case (Some v)
    have adv: "nonceAt tx' i = nonceAt tx (Suc i)" for i
      using seal_advance [OF Cons.prems, of e i] s Some by simp
    have "nonce_of v = nonceAt tx 0" using seal_nonce [OF Cons.prems, of e v] s Some by simp
    then show ?thesis using ks s Some adv
      by (intro exI [of _ "0 # map Suc ks"]) (auto simp: sentPackets_def sorted_wrt_map)
  qed
qed

theorem nonces_distinct:
  assumes "wf tx" and "length es \<le> period"
  shows "distinct (map nonce_of (sentPackets seal tx es))"
proof -
  obtain ks where ks: "map nonce_of (sentPackets seal tx es) = map (nonceAt tx) ks"
    "sorted_wrt (<) ks" "\<forall>k \<in> set ks. k < length es" using schedule_positions [OF assms(1)] by blast
  have "set ks \<subseteq> {..<period}" using ks(3) assms(2) by auto
  then have "inj_on (nonceAt tx) (set ks)" using nonce_inj [OF assms(1)] by (rule inj_on_subset [rotated])
  moreover have "distinct ks" using ks(2) by (simp add: strict_sorted_iff)
  ultimately show ?thesis using ks(1) by (simp add: distinct_map)
qed

end

end
