(* ===== verification/Wrap.thy ===== *)
theory Wrap
  imports Codec
begin

text \<open>
  \<open>pkg/proxy/wrap.go\<close>: the SRTP-shaped envelope of the DTLS data path. A packet is a 12-byte RTP
  header, a 12-byte explicit nonce and the sealed payload; header and nonce are the additional
  data. The atomic counters are fields of the record, a call of \<open>wrapInto\<close> takes one step of
  each. Bytes from \<open>crypto/rand\<close> are arguments (\<open>None\<close>: the read failed). A destination buffer
  is a list, returned with the bytes the call has written.
\<close>

definition wrapKeyLen :: nat where "wrapKeyLen = 32"
definition wrapRTPHdrLen :: nat where "wrapRTPHdrLen = 12"
definition wrapNonceLen :: nat where "wrapNonceLen = 12"
definition wrapTagLen :: nat where "wrapTagLen = 16"
definition wrapHeaderLen :: nat where "wrapHeaderLen = wrapRTPHdrLen + wrapNonceLen"
definition wrapOverhead :: nat where "wrapOverhead = wrapHeaderLen + wrapTagLen"
definition wrapRTPVersion :: byte where "wrapRTPVersion = 0x80"
definition wrapRTPPT :: byte where "wrapRTPPT = 0x6F"
definition wrapTSStep :: "32 word" where "wrapTSStep = 960"

lemmas wrap_lens = wrapKeyLen_def wrapRTPHdrLen_def wrapNonceLen_def wrapTagLen_def wrapHeaderLen_def
  wrapOverhead_def Overhead_def

record wrapConn =
  aead :: AEAD
  sessionID :: bytes
  ssrc :: bytes
  counter :: "64 word"
  seq :: "32 word"
  timestamp :: "32 word"

datatype wrapError = BadKeyLength nat | AeadInit | RandFailed | DstTooSmall | PacketTooShort | AeadOpen

text \<open>The first byte of an array with its direction bit set for the server, cleared for the client.\<close>

definition setDirection :: "bool \<Rightarrow> bytes \<Rightarrow> bytes" where
  "setDirection isServer b = b[0 := (if isServer then b ! 0 OR 0x80 else b ! 0 AND NOT 0x80)]"

definition newWrapConn ::
  "(bytes \<Rightarrow> AEAD option) \<Rightarrow> bytes \<Rightarrow> bool \<Rightarrow> bytes option \<Rightarrow> bytes option \<Rightarrow> wrapError + wrapConn" where
  "newWrapConn New key isServer rnd16 rnd8 =
     (if length key \<noteq> wrapKeyLen then Inl (BadKeyLength (length key))
      else case New key of None \<Rightarrow> Inl AeadInit
      | Some a \<Rightarrow> (case rnd16 of None \<Rightarrow> Inl RandFailed
      | Some rnd \<Rightarrow> (case rnd8 of None \<Rightarrow> Inl RandFailed
      | Some cb \<Rightarrow> Inr \<lparr>aead = a,
          sessionID = setDirection isServer (take 4 rnd),
          ssrc = setDirection isServer (take 4 (drop 4 rnd)),
          counter = Uint64 cb,
          seq = ucast (Uint16 (take 2 (drop 8 rnd))),
          timestamp = Uint32 (take 4 (drop 10 rnd))\<rparr>)))"

definition wrapMaxWire :: "nat \<Rightarrow> nat" where
  "wrapMaxWire payloadLen = wrapOverhead + payloadLen"

text \<open>The first 24 bytes of the next packet, and the state after the three atomic additions.\<close>

definition wrapHeader :: "wrapConn \<Rightarrow> bytes" where
  "wrapHeader w = [wrapRTPVersion, wrapRTPPT] @ PutUint16 (ucast (seq w)) @ PutUint32 (timestamp w) @ ssrc w"

definition wrapNonce :: "wrapConn \<Rightarrow> bytes" where
  "wrapNonce w = sessionID w @ PutUint64 (counter w)"

definition wrapAdvance :: "wrapConn \<Rightarrow> wrapConn" where
  "wrapAdvance w = w\<lparr>seq := seq w + 1, timestamp := timestamp w + wrapTSStep, counter := counter w + 1\<rparr>"

definition wrapInto :: "wrapConn \<Rightarrow> bytes \<Rightarrow> bytes \<Rightarrow> wrapConn \<times> (wrapError + nat \<times> bytes)" where
  "wrapInto w dst payload =
     (let wireLen = wrapOverhead + length payload in
      if length dst < wireLen then (w, Inl DstTooSmall)
      else let aad = wrapHeader w @ wrapNonce w;
               sealed = Seal (aead w) (wrapNonce w) payload aad
           in (wrapAdvance w, Inr (wireLen, aad @ sealed @ drop (length aad + length sealed) dst)))"

definition unwrapPacket :: "wrapConn \<Rightarrow> bytes \<Rightarrow> bytes \<Rightarrow> wrapError + nat \<times> bytes" where
  "unwrapPacket w wire dst =
     (if length wire < wrapOverhead then Inl PacketTooShort
      else let nonce = take wrapNonceLen (drop wrapRTPHdrLen wire);
               aad = take wrapHeaderLen wire;
               ct = drop wrapHeaderLen wire
           in case Open (aead w) nonce ct aad of
                None \<Rightarrow> Inl AeadOpen
              | Some plain \<Rightarrow>
                  if length plain > length dst then Inl DstTooSmall
                  else Inr (length plain, plain @ drop (length plain) dst))"

section \<open>The format as an instance of the contracts\<close>

definition wrap_wf :: "wrapConn \<Rightarrow> bool" where
  "wrap_wf w \<longleftrightarrow> aead_ok (aead w) \<and> length (sessionID w) = 4 \<and> length (ssrc w) = 4"

lemma length_header_nonce [simp]:
  "wrap_wf w \<Longrightarrow> length (wrapHeader w) = 12" "wrap_wf w \<Longrightarrow> length (wrapNonce w) = 12"
  by (simp_all add: wrapHeader_def wrapNonce_def wrap_wf_def)

lemma wrap_wf_advance [simp]: "wrap_wf (wrapAdvance w) = wrap_wf w"
  by (simp add: wrapAdvance_def wrap_wf_def)

lemma setDirection_length [simp]: "length (setDirection s b) = length b"
  by (simp add: setDirection_def)

lemma newWrapConn_wf:
  assumes "newWrapConn New key isServer (Some rnd) (Some cb) = Inr w"
    and "length rnd = 16" and "new_ok New"
  shows "wrap_wf w"
  using assms by (auto simp: newWrapConn_def wrap_wf_def new_ok_def split: if_splits option.splits)

lemma length_sealed [simp]:
  "wrap_wf w \<Longrightarrow> length (Seal (aead w) (wrapNonce w) p d) = length p + Overhead"
  by (simp add: wrap_wf_def wrapNonce_def aead_okD(2))

lemma wrapInto_ok:
  assumes "wrap_wf w" and "wrapMaxWire (length p) \<le> length dst"
  shows "wrapInto w dst p = (wrapAdvance w, Inr (wrapMaxWire (length p),
    wrapHeader w @ wrapNonce w @ Seal (aead w) (wrapNonce w) p (wrapHeader w @ wrapNonce w)
      @ drop (wrapMaxWire (length p)) dst))"
  using assms length_sealed [OF assms(1)] by (simp add: wrapInto_def wrapMaxWire_def wrap_lens Let_def add_ac)

text \<open>One datagram as sent, and as read into a buffer as long as the datagram.\<close>

definition wrapSend :: "wrapConn \<Rightarrow> bytes \<times> bytes \<Rightarrow> wrapConn \<times> bytes option" where
  "wrapSend w = (\<lambda>(dst, p). case wrapInto w dst p of
     (w', Inl _) \<Rightarrow> (w', None) | (w', Inr (n, dst')) \<Rightarrow> (w', Some (take n dst')))"

definition wrapRecv :: "wrapConn \<Rightarrow> bytes \<Rightarrow> bytes option" where
  "wrapRecv w wire = (case unwrapPacket w wire wire of Inl _ \<Rightarrow> None | Inr (n, d) \<Rightarrow> Some (take n d))"

definition wrapPeers :: "wrapConn \<Rightarrow> wrapConn \<Rightarrow> bool" where
  "wrapPeers w r \<longleftrightarrow> wrap_wf w \<and> aead r = aead w"

definition wrapFits :: "wrapConn \<Rightarrow> bytes \<times> bytes \<Rightarrow> bool" where
  "wrapFits w = (\<lambda>(dst, p). wrapMaxWire (length p) \<le> length dst)"

lemma wrapSend_ok:
  assumes "wrap_wf w" and "wrapMaxWire (length p) \<le> length dst"
  shows "wrapSend w (dst, p) = (wrapAdvance w,
    Some (wrapHeader w @ wrapNonce w @ Seal (aead w) (wrapNonce w) p (wrapHeader w @ wrapNonce w)))"
  using assms length_sealed [OF assms(1)] by (simp add: wrapSend_def wrapInto_ok wrapMaxWire_def wrap_lens)

lemma wrapSend_small: "\<not> wrapMaxWire (length p) \<le> length dst \<Longrightarrow> wrapSend w (dst, p) = (w, None)"
  by (simp add: wrapSend_def wrapInto_def Let_def wrapMaxWire_def)

lemma unwrap_sealed:
  assumes "wrap_wf w" and "aead r = aead w" and "length p \<le> length buf"
  shows "unwrapPacket r (wrapHeader w @ wrapNonce w
      @ Seal (aead w) (wrapNonce w) p (wrapHeader w @ wrapNonce w)) buf
    = Inr (length p, p @ drop (length p) buf)"
proof -
  have ok: "aead_ok (aead w)" "length (wrapNonce w) = 12" "length (wrapHeader w) = 12"
    using assms(1) by (simp_all add: wrap_wf_def wrapNonce_def wrapHeader_def)
  show ?thesis
    using assms aead_okD [OF ok(1,2)] ok by (simp add: unwrapPacket_def wrap_lens Let_def)
qed

interpretation wrap_codec: datagram_codec wrapPeers wrapFits snd
  "\<lambda>e. wrapMaxWire (length (snd e))" wrapSend wrapRecv
proof unfold_locales
  fix w r and e :: "bytes \<times> bytes"
  obtain dst p where e: "e = (dst, p)" by force
  assume pr: "wrapPeers w r" and "wrapFits w e"
  then have fit: "wrapMaxWire (length p) \<le> length dst" by (simp add: wrapFits_def e)
  define wire where "wire = wrapHeader w @ wrapNonce w @ Seal (aead w) (wrapNonce w) p (wrapHeader w @ wrapNonce w)"
  have wf: "wrap_wf w" and same: "aead r = aead w" using pr by (simp_all add: wrapPeers_def)
  have "length p \<le> length wire"
    using wf by (simp add: wire_def)
  moreover have "length wire = wrapMaxWire (length p)"
    using wf by (simp add: wire_def wrapMaxWire_def wrap_lens)
  ultimately show "\<exists>wire. snd (wrapSend w e) = Some wire \<and> wrapRecv r wire = Some (snd e)
      \<and> length wire = wrapMaxWire (length (snd e))"
    using wrapSend_ok [OF wf fit] unwrap_sealed [OF wf same, of p wire]
    by (simp add: e wrapRecv_def wire_def [symmetric])
next
  fix w r and e :: "bytes \<times> bytes"
  obtain dst p where e: "e = (dst, p)" by force
  assume "wrapPeers w r"
  then show "wrapPeers (fst (wrapSend w e)) r"
    using wrapSend_ok [of w p dst] wrapSend_small [of p dst w]
    by (cases "wrapMaxWire (length p) \<le> length dst") (auto simp: e wrapPeers_def wrapAdvance_def wrap_wf_def)
next
  fix w and e e' :: "bytes \<times> bytes"
  show "wrapFits w e' \<Longrightarrow> wrapFits (fst (wrapSend w e)) e'" by (simp add: wrapFits_def)
qed

definition wireNonce :: "bytes \<Rightarrow> bytes" where
  "wireNonce wire = take wrapNonceLen (drop wrapRTPHdrLen wire)"

definition wrapNonceAt :: "wrapConn \<Rightarrow> nat \<Rightarrow> bytes" where
  "wrapNonceAt w i = sessionID w @ PutUint64 (counter w + of_nat i)"

lemma of_nat_word64_inject: "i < 2 ^ 64 \<Longrightarrow> j < 2 ^ 64 \<Longrightarrow> (of_nat i :: 64 word) = of_nat j \<Longrightarrow> i = j"
  by (simp add: word_of_nat_eq_iff take_bit_nat_eq_self)

interpretation wrap_nonces: nonce_schedule wrapNonceAt "2 ^ 64" wireNonce wrapSend wrap_wf
proof unfold_locales
  fix w show "inj_on (wrapNonceAt w) {..<2 ^ 64}"
    by (rule inj_onI) (auto simp: wrapNonceAt_def intro: of_nat_word64_inject)
next
  fix w and e :: "bytes \<times> bytes" assume wf: "wrap_wf w"
  obtain dst p where e: "e = (dst, p)" by force
  have cases: "wrapSend w e = (w, None) \<or> (\<exists>c. wrapSend w e = (wrapAdvance w, Some (wrapHeader w @ wrapNonce w @ c)))"
    using wrapSend_ok [OF wf, of p dst] wrapSend_small [of p dst w] e by auto
  show "wrap_wf (fst (wrapSend w e))" using cases wf by auto
  show "wireNonce v = wrapNonceAt w 0" if "snd (wrapSend w e) = Some v" for v
    using cases that wf by (auto simp: wireNonce_def wrap_lens wrapNonceAt_def wrap_wf_def)
      (simp_all add: wrapNonce_def wrapHeader_def)
  show "wrapNonceAt (fst (wrapSend w e)) i = wrapNonceAt w (Suc i)" if "snd (wrapSend w e) \<noteq> None" for i
    using cases that by (auto simp: wrapNonceAt_def wrapAdvance_def add_ac)
  show "wrapNonceAt (fst (wrapSend w e)) = wrapNonceAt w \<or>
      (\<forall>i. wrapNonceAt (fst (wrapSend w e)) i = wrapNonceAt w (Suc i))" if "snd (wrapSend w e) = None"
    using cases that by auto
qed

end
