(* ===== verification/WrapA.thy ===== *)
theory WrapA
  imports Codec
begin

text \<open>
  \<open>pkg/proxy/wrapa.go\<close>: the RTP envelope with an implicit nonce, spoken to amurcanov's server. The
  nonce is derived from the RTP fields of the packet, so it repeats exactly when sequence number
  and timestamp repeat together; the carry term \<open>count >> 16\<close> in the timestamp is what makes
  the period \<open>2 ^ 48\<close>. The base connection is a parameter: what a write returns and which datagrams
  a reader gets are arguments. Random bytes are arguments (\<open>None\<close>: the read failed).
\<close>

definition wrapAKeyLen :: nat where "wrapAKeyLen = 32"
definition wrapARTPHdrLen :: nat where "wrapARTPHdrLen = 12"
definition wrapAPayloadType :: byte where "wrapAPayloadType = 111"
definition wrapAPaddingMax :: nat where "wrapAPaddingMax = 24"
definition wrapATSStep :: "32 word" where "wrapATSStep = 960"
definition wrapAMaxPacket :: nat where "wrapAMaxPacket = 2048"

lemmas wrapa_lens = wrapAKeyLen_def wrapARTPHdrLen_def wrapAPaddingMax_def wrapAMaxPacket_def Overhead_def

datatype wrapAError =
  EmptyPassword | DeriveFailed | AKeyLength nat | ACipherInit | RandInit | EmptyPayload | RandPad
  | PacketTooLarge nat nat | RandPadBytes | BaseError | BadPacket | InvalidPadding nat | NoPayload | Auth

text \<open>The HKDF reader is a parameter; its arguments are secret, salt, info and the length read.\<close>

definition deriveWrapAKey ::
  "(string \<Rightarrow> string \<Rightarrow> string \<Rightarrow> nat \<Rightarrow> bytes option) \<Rightarrow> string \<Rightarrow> wrapAError + bytes" where
  "deriveWrapAKey hkdf password =
     (if password = [] then Inl EmptyPassword
      else case hkdf password ''WDTT-WRAP-v1'' ''rtp-obfs/chacha20poly1305'' wrapAKeyLen of
             None \<Rightarrow> Inl DeriveFailed | Some key \<Rightarrow> Inr key)"

definition wrapABuildNonce :: "32 word \<Rightarrow> 16 word \<Rightarrow> 32 word \<Rightarrow> bytes" where
  "wrapABuildNonce sr sq ts = PutUint32 sr @ PutUint16 sq @ [0, 0] @ PutUint32 ts"

definition wrapAIsRTP :: "bytes \<Rightarrow> bool" where
  "wrapAIsRTP wire \<longleftrightarrow>
     length wire \<ge> 13 \<and> drop_bit 6 (wire ! 0) = 2 \<and> wire ! 1 AND 0x7F = wrapAPayloadType"

record wrapAPacketConn =
  aeadA :: AEAD
  ssrcA :: "32 word"
  initSeq :: "16 word"
  initTs :: "32 word"
  pcount :: "64 word"
  txBuf :: bytes
  rxBuf :: bytes

definition newWrapAPacketConn ::
  "(bytes \<Rightarrow> AEAD option) \<Rightarrow> bytes \<Rightarrow> bytes option \<Rightarrow> wrapAError + wrapAPacketConn" where
  "newWrapAPacketConn New key rnd10 =
     (if length key \<noteq> wrapAKeyLen then Inl (AKeyLength (length key))
      else case New key of None \<Rightarrow> Inl ACipherInit
      | Some a \<Rightarrow> (case rnd10 of None \<Rightarrow> Inl RandInit
      | Some seed \<Rightarrow> Inr \<lparr>aeadA = a, ssrcA = Uint32 (take 4 seed),
          initSeq = Uint16 (take 2 (drop 4 seed)), initTs = Uint32 (take 4 (drop 6 seed)), pcount = 0,
          txBuf = replicate wrapAMaxPacket 0, rxBuf = replicate wrapAMaxPacket 0\<rparr>))"

text \<open>Sequence number and timestamp of the packet with a given count.\<close>

definition seqOf :: "wrapAPacketConn \<Rightarrow> 64 word \<Rightarrow> 16 word" where
  "seqOf c cnt = initSeq c + ucast cnt"

definition tsOf :: "wrapAPacketConn \<Rightarrow> 64 word \<Rightarrow> 32 word" where
  "tsOf c cnt = initTs c + ucast cnt * wrapATSStep + ucast (drop_bit 16 cnt)"

definition wrapAHeader :: "wrapAPacketConn \<Rightarrow> 64 word \<Rightarrow> bytes" where
  "wrapAHeader c cnt = [0x80 OR 0x20, wrapAPayloadType AND 0x7F] @ PutUint16 (seqOf c cnt)
     @ PutUint32 (tsOf c cnt) @ PutUint32 (ssrcA c)"

text \<open>
  \<open>WriteTo\<close>: the connection afterwards, the datagram handed to the base connection if one was,
  and the result. \<open>rnd\<close> is the byte the padding length is drawn from, \<open>pad\<close> the source of padding
  bytes, \<open>wrote\<close> whether the base connection took the datagram.
\<close>

definition WriteTo ::
  "byte option \<Rightarrow> (nat \<Rightarrow> bytes option) \<Rightarrow> bool \<Rightarrow> wrapAPacketConn \<Rightarrow> bytes
     \<Rightarrow> wrapAPacketConn \<times> bytes option \<times> (wrapAError + nat)" where
  "WriteTo rnd pad wrote c payload =
     (if payload = [] then (c, None, Inl EmptyPayload)
      else
        let cnt = pcount c; c1 = c\<lparr>pcount := cnt + 1\<rparr> in
        case rnd of None \<Rightarrow> (c1, None, Inl RandPad)
        | Some r \<Rightarrow>
          let padRand = unat r mod wrapAPaddingMax;
              padTotal = padRand + 1;
              outLen = wrapARTPHdrLen + length payload + Overhead + padTotal
          in if outLen > length (txBuf c) then (c1, None, Inl (PacketTooLarge outLen (length (txBuf c))))
             else
               let hdr = wrapAHeader c cnt;
                   sealed = hdr @ Seal (aeadA c) (wrapABuildNonce (ssrcA c) (seqOf c cnt) (tsOf c cnt)) payload hdr;
                   buf = sealed @ drop (length sealed) (txBuf c)
               in case (if padRand > 0 then pad padRand else Some []) of
                    None \<Rightarrow> (c1\<lparr>txBuf := buf\<rparr>, None, Inl RandPadBytes)
                  | Some pb \<Rightarrow>
                      let out = sealed @ pb @ [of_nat padTotal]
                      in (c1\<lparr>txBuf := out @ drop outLen (txBuf c)\<rparr>, Some out,
                          if wrote then Inr (length payload) else Inl BaseError))"

text \<open>
  \<open>wrapAUnwrap\<close>: the count returned and the bytes that end up at the start of the caller's buffer.
  \<open>Open(dst[:0], ...)\<close> appends: when the plaintext is longer than the capacity of the buffer it
  goes into a new allocation and the buffer keeps what it had, while the count is that of the
  plaintext.
\<close>

definition wrapAUnwrap :: "wrapAPacketConn \<Rightarrow> bytes \<Rightarrow> nat \<Rightarrow> wrapAError + nat \<times> bytes" where
  "wrapAUnwrap c wire bufcap =
     (if length wire < 13 \<or> drop_bit 6 (wire ! 0) \<noteq> 2 then Inl BadPacket
      else
        let sq = Uint16 (take 2 (drop 2 wire));
            ts = Uint32 (take 4 (drop 4 wire));
            sr = Uint32 (take 4 (drop 8 wire));
            padded = (wire ! 0 AND 0x20 \<noteq> 0);
            padLen = unat (last wire)
        in if padded \<and> (padLen = 0 \<or> int padLen > int (length wire) - int wrapARTPHdrLen)
           then Inl (InvalidPadding padLen)
           else
             let payloadEnd = (if padded then length wire - padLen else length wire)
             in if payloadEnd - wrapARTPHdrLen \<le> Overhead then Inl NoPayload
                else case Open (aeadA c) (wrapABuildNonce sr sq ts)
                            (drop wrapARTPHdrLen (take payloadEnd wire)) (take wrapARTPHdrLen wire) of
                       None \<Rightarrow> Inl Auth
                     | Some plain \<Rightarrow> Inr (length plain, if length plain \<le> bufcap then plain else []))"

text \<open>
  \<open>ReadFrom\<close> over the datagrams the base connection delivers; the list ends where the base
  connection returns an error. A datagram longer than the receive buffer is cut off there.
\<close>

fun ReadFrom :: "wrapAPacketConn \<Rightarrow> nat \<Rightarrow> bytes list \<Rightarrow> (wrapAError + nat \<times> bytes) \<times> bytes list" where
  "ReadFrom c bufcap [] = (Inl BaseError, [])"
| "ReadFrom c bufcap (d # ds) =
     (let wire = take (length (rxBuf c)) d in
      if \<not> wrapAIsRTP wire then ReadFrom c bufcap ds
      else case wrapAUnwrap c wire bufcap of Inl _ \<Rightarrow> ReadFrom c bufcap ds | Inr r \<Rightarrow> (Inr r, ds))"

section \<open>The format as an instance of the contracts\<close>

definition wrapa_wf :: "wrapAPacketConn \<Rightarrow> bool" where
  "wrapa_wf c \<longleftrightarrow> aead_ok (aeadA c) \<and> length (txBuf c) = wrapAMaxPacket \<and> length (rxBuf c) = wrapAMaxPacket"

text \<open>\<open>rand.Read\<close> fills the slice it is given, or fails.\<close>

definition fills :: "(nat \<Rightarrow> bytes option) \<Rightarrow> bool" where
  "fills pad \<longleftrightarrow> (\<forall>n. n < wrapAPaddingMax \<longrightarrow> (case pad n of None \<Rightarrow> True | Some b \<Rightarrow> length b = n))"

definition nonceOf :: "wrapAPacketConn \<Rightarrow> 64 word \<Rightarrow> bytes" where
  "nonceOf c cnt = wrapABuildNonce (ssrcA c) (seqOf c cnt) (tsOf c cnt)"

definition sealedOf :: "wrapAPacketConn \<Rightarrow> 64 word \<Rightarrow> bytes \<Rightarrow> bytes" where
  "sealedOf c cnt p = Seal (aeadA c) (nonceOf c cnt) p (wrapAHeader c cnt)"

definition padBytes :: "byte \<Rightarrow> (nat \<Rightarrow> bytes option) \<Rightarrow> bytes" where
  "padBytes r pad = (if unat r mod wrapAPaddingMax = 0 then [] else the (pad (unat r mod wrapAPaddingMax)))"

definition wireOf :: "wrapAPacketConn \<Rightarrow> 64 word \<Rightarrow> bytes \<Rightarrow> bytes \<Rightarrow> bytes" where
  "wireOf c cnt p pb = wrapAHeader c cnt @ sealedOf c cnt p @ pb @ [of_nat (length pb + 1)]"

lemma length_wrapa [simp]:
  "length (wrapABuildNonce a b t) = 12" "length (wrapAHeader c cnt) = 12" "length (nonceOf c cnt) = 12"
  "wrapa_wf c \<Longrightarrow> length (sealedOf c cnt p) = length p + 16"
  by (simp_all add: wrapABuildNonce_def wrapAHeader_def nonceOf_def sealedOf_def wrapa_wf_def aead_okD Overhead_def)

lemma padLen_small: "unat (r :: byte) mod wrapAPaddingMax < 24"
  by (simp add: wrapAPaddingMax_def)

lemma length_padBytes:
  assumes "fills pad" "pad (unat r mod wrapAPaddingMax) \<noteq> None"
  shows "length (padBytes r pad) = unat r mod wrapAPaddingMax"
  using assms padLen_small [of r]
  by (auto simp: padBytes_def fills_def wrapAPaddingMax_def dest!: spec [of _ "unat r mod 24"])

lemma WriteTo_ok:
  assumes "wrapa_wf c" "p \<noteq> []" "fills pad" "pad (unat r mod wrapAPaddingMax) \<noteq> None"
    and "length p + 28 + unat r mod wrapAPaddingMax + 1 \<le> wrapAMaxPacket"
  shows "\<exists>buf. length buf = wrapAMaxPacket \<and> WriteTo (Some r) pad wrote c p =
    (c\<lparr>pcount := pcount c + 1, txBuf := buf\<rparr>, Some (wireOf c (pcount c) p (padBytes r pad)),
     if wrote then Inr (length p) else Inl BaseError)"
proof -
  define k where "k = unat r mod wrapAPaddingMax"
  have pad: "(if k > 0 then pad k else Some []) = Some (padBytes r pad)" "length (padBytes r pad) = k"
    using assms(4) length_padBytes [OF assms(3,4)] by (auto simp: k_def padBytes_def)
  let ?out = "wireOf c (pcount c) p (padBytes r pad)"
  have len: "length ?out = length p + 29 + k" "length (txBuf c) = wrapAMaxPacket"
    using assms(1) pad(2) by (simp_all add: wireOf_def) (simp add: wrapa_wf_def)
  have "WriteTo (Some r) pad wrote c p =
    (c\<lparr>pcount := pcount c + 1, txBuf := ?out @ drop (length p + 29 + k) (txBuf c)\<rparr>, Some ?out,
     if wrote then Inr (length p) else Inl BaseError)"
    using assms(2,5) pad len(2)
    by (simp add: WriteTo_def Let_def k_def [symmetric] wireOf_def sealedOf_def nonceOf_def wrapARTPHdrLen_def
        Overhead_def add_ac)
  then show ?thesis using len assms(5) k_def by (intro exI conjI) simp_all
qed

lemma header_bytes [simp]:
  "drop_bit 6 (wireOf c cnt p pb ! 0) = 2" "wireOf c cnt p pb ! 0 AND 0x20 \<noteq> 0"
  "wireOf c cnt p pb ! Suc 0 AND 0x7F = wrapAPayloadType"
  by (simp_all add: wireOf_def wrapAHeader_def wrapAPayloadType_def)

lemma header_fields:
  "Uint16 (take 2 (drop 2 (wireOf c cnt p pb))) = seqOf c cnt"
  "Uint32 (take 4 (drop 4 (wireOf c cnt p pb))) = tsOf c cnt"
  "Uint32 (take 4 (drop 8 (wireOf c cnt p pb))) = ssrcA c"
  by (simp_all add: wireOf_def wrapAHeader_def)

lemma unwrap_wireOf:
  assumes "wrapa_wf c" "aeadA r = aeadA c" "p \<noteq> []" "length pb < 24"
  shows "wrapAUnwrap r (wireOf c cnt p pb) bufcap = Inr (length p, if length p \<le> bufcap then p else [])"
    and "wrapAIsRTP (wireOf c cnt p pb)"
proof -
  let ?w = "wireOf c cnt p pb"
  have len: "length ?w = length p + 29 + length pb" using assms(1) by (simp add: wireOf_def)
  have "unat (of_nat (length pb + 1) :: byte) = length pb + 1"
    using assms(4) by (simp only: unat_of_nat take_bit_nat_eq_self_iff) (simp add: take_bit_nat_eq_self)
  then have last: "unat (last ?w) = length pb + 1" by (simp add: wireOf_def)
  have pay: "drop 12 (take (length ?w - (length pb + 1)) ?w) = sealedOf c cnt p" "take 12 ?w = wrapAHeader c cnt"
    using assms(1) by (simp_all add: wireOf_def)
  have "Open (aeadA c) (nonceOf c cnt) (sealedOf c cnt p) (wrapAHeader c cnt) = Some p"
    using assms(1) by (simp add: sealedOf_def wrapa_wf_def aead_okD)
  then show "wrapAUnwrap r ?w bufcap = Inr (length p, if length p \<le> bufcap then p else [])"
    using assms(2,3) len last pay
    by (simp add: wrapAUnwrap_def Let_def header_fields wrapARTPHdrLen_def Overhead_def nonceOf_def)
  show "wrapAIsRTP ?w" using len assms(3) by (simp add: wrapAIsRTP_def)
qed

type_synonym writeArgs = "byte \<times> (nat \<Rightarrow> bytes option) \<times> bool \<times> bytes"

definition wrapaSend :: "wrapAPacketConn \<Rightarrow> writeArgs \<Rightarrow> wrapAPacketConn \<times> bytes option" where
  "wrapaSend c = (\<lambda>(r, pad, wrote, p). case WriteTo (Some r) pad wrote c p of (c', w, _) \<Rightarrow> (c', w))"

definition wrapaRecv :: "wrapAPacketConn \<Rightarrow> bytes \<Rightarrow> bytes option" where
  "wrapaRecv c wire = (case fst (ReadFrom c wrapAMaxPacket [wire]) of Inl _ \<Rightarrow> None
     | Inr (n, b) \<Rightarrow> if n = length b then Some b else None)"

definition wrapaFits :: "wrapAPacketConn \<Rightarrow> writeArgs \<Rightarrow> bool" where
  "wrapaFits c = (\<lambda>(r, pad, wrote, p). p \<noteq> [] \<and> fills pad \<and> pad (unat r mod wrapAPaddingMax) \<noteq> None
     \<and> length p + 28 + unat r mod wrapAPaddingMax + 1 \<le> wrapAMaxPacket)"

definition wrapaPeers :: "wrapAPacketConn \<Rightarrow> wrapAPacketConn \<Rightarrow> bool" where
  "wrapaPeers c r \<longleftrightarrow> wrapa_wf c \<and> aeadA r = aeadA c \<and> length (rxBuf r) = wrapAMaxPacket"

lemma WriteTo_state:
  "fst (WriteTo rnd pad wrote c p) = c \<and> fst (snd (WriteTo rnd pad wrote c p)) = None
   \<or> (\<exists>buf. fst (WriteTo rnd pad wrote c p) = c\<lparr>pcount := pcount c + 1, txBuf := buf\<rparr>
        \<and> (aead_ok (aeadA c) \<and> fills pad \<longrightarrow> length buf = length (txBuf c))
        \<and> (fst (snd (WriteTo rnd pad wrote c p)) = None \<or>
           (\<exists>rest. fst (snd (WriteTo rnd pad wrote c p)) = Some (wrapAHeader c (pcount c) @ rest))))"
proof (cases "p = []")
  case True
  then show ?thesis by (simp add: WriteTo_def)
next
  case False
  have keep: "c\<lparr>pcount := n\<rparr> = c\<lparr>pcount := n, txBuf := txBuf c\<rparr>" for n by simp
  show ?thesis
  proof (cases rnd)
    case None
    then show ?thesis using False keep by (auto simp: WriteTo_def Let_def intro: exI [of _ "txBuf c"])
  next
    case (Some r)
    define k where "k = unat r mod wrapAPaddingMax"
    show ?thesis
    proof (cases "12 + length p + Overhead + (k + 1) > length (txBuf c)")
      case True
      then show ?thesis using False Some keep
        by (auto simp: WriteTo_def Let_def k_def [symmetric] wrapARTPHdrLen_def intro!: exI [of _ "txBuf c"])
    next
      case fits: False
      have sealed: "aead_ok (aeadA c) \<Longrightarrow> length (Seal (aeadA c) (wrapABuildNonce a b t) p h) = length p + Overhead"
        for a b t h by (simp add: aead_okD)
      have pb: "fills pad \<Longrightarrow> k > 0 \<Longrightarrow> pad k = Some b \<Longrightarrow> length b = k" for b
        using padLen_small [of r] by (auto simp: fills_def k_def wrapAPaddingMax_def dest!: spec [of _ k])
      show ?thesis
        using False Some fits sealed pb
        by (auto simp: WriteTo_def Let_def k_def [symmetric] wrapARTPHdrLen_def intro!: exI split: option.splits)
    qed
  qed
qed

definition wireLenA :: "writeArgs \<Rightarrow> nat" where
  "wireLenA = (\<lambda>(r, pad, wrote, p). wrapARTPHdrLen + length p + Overhead + unat r mod wrapAPaddingMax + 1)"

interpretation wrapa_codec: datagram_codec wrapaPeers wrapaFits "\<lambda>e. snd (snd (snd e))" wireLenA wrapaSend wrapaRecv
proof unfold_locales
  fix c r and e :: writeArgs
  obtain b pad wrote p where e: "e = (b, pad, wrote, p)" by (cases e)
  assume pr: "wrapaPeers c r" and "wrapaFits c e"
  then have fit: "p \<noteq> []" "fills pad" "pad (unat b mod wrapAPaddingMax) \<noteq> None"
    "length p + 28 + unat b mod wrapAPaddingMax + 1 \<le> wrapAMaxPacket" by (auto simp: wrapaFits_def e)
  have wf: "wrapa_wf c" and peer: "aeadA r = aeadA c" "length (rxBuf r) = wrapAMaxPacket"
    using pr by (simp_all add: wrapaPeers_def)
  let ?w = "wireOf c (pcount c) p (padBytes b pad)"
  have k: "length (padBytes b pad) < 24" "length ?w \<le> wrapAMaxPacket"
    using length_padBytes [OF fit(2,3)] fit(4) padLen_small [of b] wf by (simp_all add: wireOf_def)
  have "snd (wrapaSend c e) = Some ?w"
    using WriteTo_ok [OF wf fit, of wrote] by (auto simp: e wrapaSend_def)
  moreover have "wrapaRecv r ?w = Some p"
    using unwrap_wireOf [OF wf peer(1) fit(1) k(1)] k(2) peer(2) fit(4) by (simp add: wrapaRecv_def)
  moreover have "length ?w = wireLenA e"
    using wf length_padBytes [OF fit(2,3)] by (simp add: wireOf_def e wireLenA_def wrapARTPHdrLen_def Overhead_def)
  ultimately show "\<exists>w. snd (wrapaSend c e) = Some w \<and> wrapaRecv r w = Some (snd (snd (snd e)))
      \<and> length w = wireLenA e"
    by (simp add: e)
next
  fix c r and e :: writeArgs
  obtain b pad wrote p where e: "e = (b, pad, wrote, p)" by (cases e)
  assume "wrapaPeers c r" and "wrapaFits c e"
  then show "wrapaPeers (fst (wrapaSend c e)) r"
    using WriteTo_state [of "Some b" pad wrote c p]
    by (auto simp: e wrapaPeers_def wrapa_wf_def wrapaSend_def wrapaFits_def split: prod.splits)
next
  fix c and e e' :: writeArgs
  show "wrapaFits c e' \<Longrightarrow> wrapaFits (fst (wrapaSend c e)) e'" by (simp add: wrapaFits_def)
qed

section \<open>The implicit nonce\<close>

definition wireNonceA :: "bytes \<Rightarrow> bytes" where
  "wireNonceA wire = wrapABuildNonce (Uint32 (take 4 (drop 8 wire))) (Uint16 (take 2 (drop 2 wire)))
     (Uint32 (take 4 (drop 4 wire)))"

definition wrapaNonceAt :: "wrapAPacketConn \<Rightarrow> nat \<Rightarrow> bytes" where
  "wrapaNonceAt c i = nonceOf c (pcount c + of_nat i)"

text \<open>
  Sequence number and timestamp determine the count modulo \<open>2 ^ 48\<close>: the low 16 bits are in the
  sequence number, and the factor of the high bits in the timestamp, \<open>960 * 2 ^ 16 + 1\<close>, is odd.
\<close>

lemma carry_factor_cancels:
  fixes x y :: int
  assumes "x mod 65536 = y mod 65536"
    and "(960 * x + x div 65536) mod 4294967296 = (960 * y + y div 65536) mod 4294967296"
  shows "x mod 281474976710656 = y mod 281474976710656"
proof -
  define a bx b_y where "a = x mod 65536" and "bx = x div 65536" and "b_y = y div 65536"
  have x: "x = a + 65536 * bx" and y: "y = a + 65536 * b_y"
    using assms(1) mult_div_mod_eq [of 65536 x] mult_div_mod_eq [of 65536 y]
    by (simp_all only: a_def bx_def b_y_def add.commute)
  have "4294967296 dvd (960 * x + bx) - (960 * y + b_y)"
    using assms(2) by (simp add: bx_def b_y_def mod_eq_dvd_iff)
  then have "(4294967296 :: int) dvd 62914561 * (bx - b_y)" by (simp add: x y algebra_simps)
  moreover have "coprime (4294967296 :: int) 62914561"
  proof -
    have "coprime ((2 :: int) ^ 32) 62914561" by (rule coprime_power_left_iff [THEN iffD2]) simp
    then show ?thesis by simp
  qed
  ultimately have "(4294967296 :: int) dvd bx - b_y"
    by (simp only: coprime_dvd_mult_right_iff)
  then obtain q where "bx - b_y = 4294967296 * q" by (rule dvdE)
  then have "x - y = 281474976710656 * q" by (simp add: x y)
  then show ?thesis by (simp add: mod_eq_dvd_iff)
qed

lemma uint_add_nat: "uint (c + of_nat k :: 64 word) = (uint c + int k) mod 18446744073709551616"
proof -
  have "c + of_nat k = word_of_int (uint c + int k)" by simp
  then show ?thesis by (simp only: unsigned_of_int take_bit_eq_mod) simp
qed

lemma uint_ts: "uint (ucast (v :: 64 word) * (960 :: 32 word) + ucast (drop_bit 16 v))
    = (960 * uint v + uint v div 65536) mod 4294967296"
proof -
  have low: "ucast u = (word_of_int (uint u) :: 32 word)" for u :: "64 word" by simp
  have "uint (drop_bit 16 v) = uint v div 65536" by (simp add: drop_bit_eq_div uint_div)
  then have "ucast v * (960 :: 32 word) + ucast (drop_bit 16 v) = word_of_int (960 * uint v + uint v div 65536)"
    using low [of v] low [of "drop_bit 16 v"] by (simp add: mult.commute)
  then show ?thesis by (simp only: unsigned_of_int take_bit_eq_mod) simp
qed

lemma carry_period:
  fixes x :: int
  shows "(960 * x + x div 65536) mod 4294967296
    = (960 * (x mod 281474976710656) + x mod 281474976710656 div 65536) mod 4294967296"
proof -
  define q r where "q = x div 281474976710656" and "r = x mod 281474976710656"
  have x: "x = r + 65536 * (4294967296 * q)"
    using mult_div_mod_eq [of 281474976710656 x] by (simp add: q_def r_def)
  have "x div 65536 = r div 65536 + 4294967296 * q" unfolding x by simp
  then have "960 * x + x div 65536 = (960 * r + r div 65536) + (62914561 * q) * 4294967296" by (simp add: x)
  then show ?thesis by (simp only: mod_mult_self1 r_def)
qed

lemma nonceOf_eqI:
  assumes "uint v mod 281474976710656 = uint w mod 281474976710656"
  shows "nonceOf c v = nonceOf c w"
proof -
  have "uint v mod 281474976710656 mod 65536 = uint w mod 281474976710656 mod 65536" using assms by simp
  then have "uint v mod 65536 = uint w mod 65536" by (simp add: mod_mod_cancel)
  then have "uint (ucast v :: 16 word) = uint (ucast w :: 16 word)"
    by (simp add: unsigned_ucast_eq take_bit_eq_mod)
  then have "ucast v = (ucast w :: 16 word)" by (rule word_uint_eqI)
  moreover have "uint (ucast v * (960 :: 32 word) + ucast (drop_bit 16 v)) = uint (ucast w * (960 :: 32 word) + ucast (drop_bit 16 w))"
    unfolding uint_ts carry_period [of "uint v"] carry_period [of "uint w"] assms ..
  then have "ucast v * (960 :: 32 word) + ucast (drop_bit 16 v) = ucast w * 960 + ucast (drop_bit 16 w)"
    by (rule word_uint_eqI)
  ultimately show ?thesis by (simp add: nonceOf_def seqOf_def tsOf_def wrapATSStep_def add.assoc)
qed

lemma nonceOf_inject:
  assumes "nonceOf c v = nonceOf c w"
  shows "uint v mod 281474976710656 = uint w mod 281474976710656"
proof -
  have "ucast v = (ucast w :: 16 word)"
    and "ucast v * (960 :: 32 word) + ucast (drop_bit 16 v) = ucast w * 960 + ucast (drop_bit 16 w)"
    using assms by (simp_all add: nonceOf_def wrapABuildNonce_def seqOf_def tsOf_def wrapATSStep_def add.assoc)
  then have "uint (ucast v :: 16 word) = uint (ucast w :: 16 word)"
    and "(960 * uint v + uint v div 65536) mod 4294967296 = (960 * uint w + uint w div 65536) mod 4294967296"
    by (simp_all flip: uint_ts)
  then show ?thesis
    by (intro carry_factor_cancels) (simp_all add: unsigned_ucast_eq take_bit_eq_mod)
qed

lemma count_mod:
  "uint (c + of_nat k :: 64 word) mod 281474976710656 = (uint c + int k) mod 281474976710656"
  by (simp only: uint_add_nat) (simp add: mod_mod_cancel)

lemma wrapaNonceAt_inj: "inj_on (wrapaNonceAt c) {..<2 ^ 48}"
proof (rule inj_onI)
  fix i j :: nat
  assume "i \<in> {..<2 ^ 48}" "j \<in> {..<2 ^ 48}" "wrapaNonceAt c i = wrapaNonceAt c j"
  then have lt: "int i < 281474976710656" "int j < 281474976710656"
    and "nonceOf c (pcount c + of_nat i) = nonceOf c (pcount c + of_nat j)"
    by (simp_all add: wrapaNonceAt_def)
  from nonceOf_inject [OF this(3)]
  have eq: "uint (pcount c + of_nat i) mod 281474976710656 = uint (pcount c + of_nat j) mod 281474976710656" .
  have "(uint (pcount c) + int i) mod 281474976710656 = (uint (pcount c) + int j) mod 281474976710656"
    using eq by (simp only: count_mod)
  then have "281474976710656 dvd int i - int j" by (simp add: mod_eq_dvd_iff)
  then obtain q where "int i - int j = 281474976710656 * q" by (rule dvdE)
  moreover from this lt have "q < 1" "- 1 < q" by linarith+
  ultimately show "i = j" by simp
qed

lemma nonce_advance:
  "wrapaNonceAt (c\<lparr>pcount := pcount c + 1, txBuf := buf\<rparr>) i = wrapaNonceAt c (Suc i)"
  by (simp add: wrapaNonceAt_def nonceOf_def seqOf_def tsOf_def add_ac)

interpretation wrapa_nonces: nonce_schedule wrapaNonceAt "2 ^ 48" wireNonceA wrapaSend "\<lambda>_. True"
proof unfold_locales
  fix c show "inj_on (wrapaNonceAt c) {..<2 ^ 48}" by (rule wrapaNonceAt_inj)
next
  fix c and e :: writeArgs
  obtain b pad wrote p where e: "e = (b, pad, wrote, p)" by (cases e)
  note st = WriteTo_state [of "Some b" pad wrote c p]
  have send: "fst (wrapaSend c e) = fst (WriteTo (Some b) pad wrote c p)"
    "snd (wrapaSend c e) = fst (snd (WriteTo (Some b) pad wrote c p))"
    by (simp_all add: e wrapaSend_def split: prod.split)
  show "wireNonceA w = wrapaNonceAt c 0" if "snd (wrapaSend c e) = Some w" for w
    using st that unfolding send
    by (auto simp: wireNonceA_def wrapaNonceAt_def nonceOf_def) (simp_all add: wrapAHeader_def)
  show "wrapaNonceAt (fst (wrapaSend c e)) i = wrapaNonceAt c (Suc i)" if "snd (wrapaSend c e) \<noteq> None" for i
    using st that unfolding send by (auto simp: nonce_advance)
  show "wrapaNonceAt (fst (wrapaSend c e)) = wrapaNonceAt c \<or>
      (\<forall>i. wrapaNonceAt (fst (wrapaSend c e)) i = wrapaNonceAt c (Suc i))" if "snd (wrapaSend c e) = None"
    using st that unfolding send by (auto simp: nonce_advance)
qed auto

end
