(* ===== verification/WireProps.thy ===== *)
theory WireProps
  imports Wrap WrapA
begin

text \<open>
  The properties of the two packet formats. The cipher is any pair of functions with the laws of
  \<open>aead_ok\<close>; the witnesses use one that appends a 16-byte tag of zeros.
\<close>

definition demoAEAD :: AEAD where
  "demoAEAD = \<lparr>Seal = \<lambda>n p ad. p @ replicate 16 0,
     Open = \<lambda>n c ad. if length c < 16 then None else Some (take (length c - 16) c)\<rparr>"

lemma demoAEAD_ok [simp]: "aead_ok demoAEAD"
  by (simp add: aead_ok_def demoAEAD_def Overhead_def)

definition demoNew :: "bytes \<Rightarrow> AEAD option" where "demoNew key = Some demoAEAD"

definition demoWrap :: "bool \<Rightarrow> wrapConn" where
  "demoWrap srv = projr (newWrapConn demoNew (replicate 32 7) srv (Some (replicate 16 1)) (Some (replicate 8 2)))"

lemma demoWrap_new:
  "newWrapConn demoNew (replicate 32 7) srv (Some (replicate 16 1)) (Some (replicate 8 2)) = Inr (demoWrap srv)"
  by (simp add: newWrapConn_def demoWrap_def demoNew_def wrapKeyLen_def)

lemma demoNew_ok: "new_ok demoNew"
  by (simp add: demoNew_def new_ok_def)

section \<open>SRTP-WRAP\<close>

lemma newWrapConn_peers:
  assumes "newWrapConn New key srv (Some rnd) cb = Inr w" and "newWrapConn New key srv' rnd' cb' = Inr r"
    and "length rnd = 16" and "new_ok New"
  shows "wrapPeers w r"
  using assms by (auto simp: newWrapConn_def wrapPeers_def wrap_wf_def new_ok_def split: if_splits option.splits)

text \<open>
  C8. Delivery. Two connections made from the same key, either side: every packet of a sequence
  sealed by one, whatever its position and whichever packets of the sequence arrive, is opened by
  the other to exactly its payload, and is 40 bytes longer on the wire.
\<close>

theorem wrap_delivery:
  assumes "newWrapConn New key srv (Some rnd) (Some cb) = Inr w"
    and "newWrapConn New key srv' rnd' cb' = Inr r"
    and "length rnd = 16" and "new_ok New"
    and "list_all (\<lambda>(dst, p). wrapMaxWire (length p) \<le> length dst) es" and "i < length es"
  shows "\<exists>wire. sendAll wrapSend w es ! i = Some wire \<and> wrapRecv r wire = Some (snd (es ! i))
    \<and> length wire = 40 + length (snd (es ! i))"
proof -
  have "wrapPeers w r" by (rule newWrapConn_peers [OF assms(1,2,3,4)])
  moreover have "list_all (wrapFits w) es" using assms(5) by (simp add: wrapFits_def)
  ultimately show ?thesis
    using wrap_codec.delivery [of w r es i] assms(6) by (simp add: wrapMaxWire_def wrap_lens)
qed

theorem wrap_delivery_witness:
  "\<exists>wire. sendAll wrapSend (demoWrap False) [(replicate 50 0, [1, 2]), (replicate 50 0, [3])] ! 1 = Some wire
     \<and> wrapRecv (demoWrap True) wire = Some [3] \<and> length wire = 41"
  using wrap_delivery [OF demoWrap_new [of False] demoWrap_new [of True] _ demoNew_ok,
      where es = "[(replicate 50 0, [1, 2]), (replicate 50 0, [3])]" and i = 1]
  by (simp add: wrapMaxWire_def wrap_lens del: sendAll.simps)

lemma direction_bit:
  assumes "newWrapConn New key srv (Some rnd) (Some cb) = Inr w" and "length rnd = 16"
  shows "bit (wrapNonceAt w i ! 0) 7 = srv"
proof -
  obtain b bs where "take 4 rnd = b # bs" using assms(2) by (cases "take 4 rnd") auto
  then have "sessionID w = (if srv then b OR 0x80 else b AND NOT 0x80) # bs"
    using assms by (auto simp: newWrapConn_def setDirection_def split: if_splits option.splits)
  then show ?thesis using set_top_bit [of b] clear_top_bit [of b] by (simp add: wrapNonceAt_def)
qed

text \<open>
  C9. Nonces never repeat under the shared key. In a session of at most \<open>2 ^ 64\<close> sends per side, the
  nonces of all packets of the client and of the server together are distinct: the counter
  separates the packets of one side, the direction bit the two sides. Refused sends included.
\<close>

theorem wrap_nonces_unique:
  assumes "newWrapConn New key False (Some rnd) (Some cb) = Inr client" and "length rnd = 16"
    and "newWrapConn New key True (Some rnd') (Some cb') = Inr server" and "length rnd' = 16"
    and "new_ok New"
    and "length es \<le> 2 ^ 64" and "length es' \<le> 2 ^ 64"
  shows "distinct (map wireNonce (sentPackets wrapSend client es @ sentPackets wrapSend server es'))"
proof -
  have wf: "wrap_wf client" "wrap_wf server"
    using newWrapConn_wf [OF assms(1,2,5)] newWrapConn_wf [OF assms(3,4,5)] by simp_all
  have side: "bit (n ! 0) 7 = srv"
    if h: "newWrapConn New key srv (Some rd) (Some c) = Inr w" "length rd = 16" "wrap_wf w"
      "n \<in> set (map wireNonce (sentPackets wrapSend w fs))" for srv rd c w n fs
  proof -
    obtain ks where "map wireNonce (sentPackets wrapSend w fs) = map (wrapNonceAt w) ks"
      using wrap_nonces.schedule_positions [OF h(3), of fs] by blast
    then show ?thesis using direction_bit [OF h(1,2)] h(4) by auto
  qed
  have "set (map wireNonce (sentPackets wrapSend client es))
      \<inter> set (map wireNonce (sentPackets wrapSend server es')) = {}"
    using side [OF assms(1,2) wf(1), of _ es] side [OF assms(3,4) wf(2), of _ es'] by blast
  then show ?thesis
    using wrap_nonces.nonces_distinct [OF wf(1) assms(6)] wrap_nonces.nonces_distinct [OF wf(2) assms(7)]
    by (simp add: image_image)
qed

theorem wrap_nonces_unique_witness:
  "distinct (map wireNonce (sentPackets wrapSend (demoWrap False) [(replicate 50 0, [1]), (replicate 50 0, [1])]
     @ sentPackets wrapSend (demoWrap True) [(replicate 50 0, [1])]))"
  by (rule wrap_nonces_unique [OF demoWrap_new _ demoWrap_new _ demoNew_ok]) simp_all

section \<open>SRTP-WRAP-A\<close>

definition demoWrapA :: wrapAPacketConn where
  "demoWrapA = projr (newWrapAPacketConn demoNew (replicate 32 7) (Some (replicate 10 1)))"

lemma demoWrapA_new: "newWrapAPacketConn demoNew (replicate 32 7) (Some (replicate 10 1)) = Inr demoWrapA"
  by (simp add: newWrapAPacketConn_def demoWrapA_def demoNew_def wrapAKeyLen_def)

definition demoPad :: "nat \<Rightarrow> bytes option" where "demoPad n = Some (replicate n 9)"

lemma demoPad_fills [simp]: "fills demoPad"
  by (simp add: fills_def demoPad_def)

lemma newWrapA_peers:
  assumes "newWrapAPacketConn New key s = Inr c" and "newWrapAPacketConn New key s' = Inr r"
    and "new_ok New"
  shows "wrapaPeers c r"
  using assms by (auto simp: newWrapAPacketConn_def wrapaPeers_def wrapa_wf_def new_ok_def split: if_splits option.splits)

text \<open>
  C10. Delivery with the implicit nonce. What one end of a WRAP-A link writes, the other end reads
  back byte for byte, whatever padding was drawn and whichever packets of the sequence arrive. A
  payload of up to 1996 bytes always fits.
\<close>

theorem wrapa_delivery:
  assumes "newWrapAPacketConn New key s = Inr c" and "newWrapAPacketConn New key s' = Inr r"
    and "new_ok New"
    and "list_all (\<lambda>(b, pad, wrote, p). p \<noteq> [] \<and> length p \<le> 1996 \<and> fills pad
           \<and> pad (unat b mod wrapAPaddingMax) \<noteq> None) es"
    and "i < length es" and "es ! i = (b, pad, wrote, p)"
  shows "\<exists>wire. sendAll wrapaSend c es ! i = Some wire
    \<and> ReadFrom r wrapAMaxPacket [wire] = (Inr (length p, p), [])
    \<and> length wire = 29 + length p + unat b mod 24"
proof -
  have pr: "wrapaPeers c r" by (rule newWrapA_peers [OF assms(1-3)])
  have "list_all (wrapaFits c) es"
  proof (rule list.pred_mono_strong [OF assms(4)])
    fix z :: writeArgs assume "case z of (b, pad, wrote, p) \<Rightarrow> p \<noteq> [] \<and> length p \<le> 1996 \<and> fills pad
        \<and> pad (unat b mod wrapAPaddingMax) \<noteq> None"
    then show "wrapaFits c z"
      using padLen_small [of "fst z"] by (cases z) (simp add: wrapaFits_def wrapAMaxPacket_def)
  qed
  from wrapa_codec.delivery [OF pr this assms(5)] assms(6)
  obtain wire where w: "sendAll wrapaSend c es ! i = Some wire" "wrapaRecv r wire = Some p" "length wire = wireLenA (es ! i)"
    by auto
  have "snd (ReadFrom r wrapAMaxPacket [wire]) = []" by (simp add: Let_def split: sum.split)
  then have "ReadFrom r wrapAMaxPacket [wire] = (Inr (length p, p), [])"
    using w(2) by (cases "ReadFrom r wrapAMaxPacket [wire]")
      (auto simp: wrapaRecv_def simp del: ReadFrom.simps split: sum.splits if_splits)
  then show ?thesis using w assms(6) by (simp add: wireLenA_def wrapARTPHdrLen_def Overhead_def wrapAPaddingMax_def)
qed

theorem wrapa_delivery_witness:
  "\<exists>wire. sendAll wrapaSend demoWrapA [(25, demoPad, True, [1]), (30, demoPad, True, [4, 5])] ! 1 = Some wire
     \<and> ReadFrom demoWrapA wrapAMaxPacket [wire] = (Inr (length [4, 5 :: byte], [4, 5]), []) \<and> length wire = 37"
  using wrapa_delivery [OF demoWrapA_new demoWrapA_new demoNew_ok,
      where es = "[(25, demoPad, True, [1]), (30, demoPad, True, [4, 5])]" and i = 1 and wrote = True]
  by (simp add: demoPad_def del: sendAll.simps ReadFrom.simps)

text \<open>
  The period of the implicit nonce. A connection that makes at most \<open>2 ^ 48\<close> writes, the failed
  ones included, never uses a nonce twice; and the bound is exact, packet \<open>2 ^ 48\<close> uses the nonce of
  packet 0 again.
\<close>

theorem wrapa_nonce_period:
  assumes "length es \<le> 2 ^ 48"
  shows "distinct (map wireNonceA (sentPackets wrapaSend c es))
    \<and> wrapaNonceAt c (2 ^ 48) = wrapaNonceAt c 0"
proof -
  have "wrapaNonceAt c (2 ^ 48) = wrapaNonceAt c 0"
    unfolding wrapaNonceAt_def by (rule nonceOf_eqI) (simp only: count_mod, simp)
  then show ?thesis using wrapa_nonces.nonces_distinct [OF _ assms] by simp
qed

theorem wrapa_nonce_period_witness:
  "distinct (map wireNonceA (sentPackets wrapaSend demoWrapA [(25, demoPad, True, [1]), (30, demoPad, True, [1])]))
   \<and> wrapaNonceAt demoWrapA (2 ^ 48) = wrapaNonceAt demoWrapA 0"
  by (rule wrapa_nonce_period) simp

text \<open>
  Reading past foreign traffic. Datagrams that are not RTP of our payload type, and datagrams
  that do not unwrap, are skipped however many there are: the reader returns the first packet that
  does unwrap, and returns an error only when the base connection does.
\<close>

theorem wrapa_reads_first_good:
  assumes "list_all (\<lambda>d. let w = take (length (rxBuf r)) d in
      \<not> wrapAIsRTP w \<or> (\<exists>e. wrapAUnwrap r w cap = Inl e)) junk"
  shows "ReadFrom r cap (junk @ ds) = ReadFrom r cap ds
    \<and> (fst (ReadFrom r cap ds) = Inl e \<longrightarrow> e = BaseError \<and> snd (ReadFrom r cap ds) = [])"
proof
  show "ReadFrom r cap (junk @ ds) = ReadFrom r cap ds"
    using assms by (induction junk) (auto simp: Let_def)
  show "fst (ReadFrom r cap ds) = Inl e \<longrightarrow> e = BaseError \<and> snd (ReadFrom r cap ds) = []"
    by (induction ds) (auto simp: Let_def split: sum.splits)
qed

theorem wrapa_reads_first_good_witness:
  "ReadFrom demoWrapA 2048 ([[1, 2, 3], replicate 20 0] @ [[1]]) = ReadFrom demoWrapA 2048 [[1]]"
  by (rule wrapa_reads_first_good [THEN conjunct1]) (simp add: wrapAIsRTP_def Let_def drop_bit_Suc
      take_Cons' demoWrapA_def newWrapAPacketConn_def demoNew_def wrapa_lens)

text \<open>
  A buffer that is too small. When the caller's buffer is shorter than the plaintext,
  \<open>ReadFrom\<close> reports success with a count larger than the buffer and nothing written to it.
\<close>

theorem wrapa_short_buffer:
  assumes "wrapa_wf c" and "aeadA r = aeadA c" and "p \<noteq> []" and "length pb < 24" and "cap < length p"
    and "length (wireOf c cnt p pb) \<le> length (rxBuf r)"
  shows "ReadFrom r cap [wireOf c cnt p pb] = (Inr (length p, []), [])"
  using unwrap_wireOf [OF assms(1-4)] assms(5,6) by simp

theorem wrapa_short_buffer_witness:
  "ReadFrom demoWrapA 1 [wireOf demoWrapA 0 [7, 8, 9] []] = (Inr (length [7, 8, 9 :: byte], []), [])"
proof -
  have wf: "wrapa_wf demoWrapA" using newWrapA_peers [OF demoWrapA_new demoWrapA_new demoNew_ok] by (simp add: wrapaPeers_def)
  show ?thesis
  proof (rule wrapa_short_buffer [OF wf refl])
    show "length (wireOf demoWrapA 0 [7, 8, 9] []) \<le> length (rxBuf demoWrapA)"
      using wf by (simp add: wireOf_def) (simp add: wrapa_wf_def wrapAMaxPacket_def)
  qed simp_all
qed

end
