(* ===== verification/Json.thy ===== *)
theory Json
  imports Complex_Main Prelude
begin

text \<open>
  Decoded JSON as \<open>encoding/json\<close> delivers it into an \<open>interface{}\<close>, the type assertions the sources
  make on it, and the string helpers of the standard library that several components call. A number
  is a \<open>float64\<close>, here the rational it stands for. A Go string is a list of bytes; \<open>TrimSpace\<close> and
  \<open>ToLower\<close> are modelled on ASCII.
\<close>

datatype json = JNull | JBool bool | JNum rat | JStr string | JArr "json list" | JObj "(string \<times> json) list"

type_synonym jobj = "(string \<times> json) list"

text \<open>\<open>m[k]\<close> on a decoded object: nil for a missing key.\<close>

definition jget :: "jobj \<Rightarrow> string \<Rightarrow> json" where
  "jget m k = (case map_of m k of None \<Rightarrow> JNull | Some v \<Rightarrow> v)"

text \<open>Type assertions in their two-value form.\<close>

fun as_obj :: "json \<Rightarrow> jobj option" where
  "as_obj (JObj m) = Some m"
| "as_obj _ = None"

fun as_str :: "json \<Rightarrow> string option" where
  "as_str (JStr s) = Some s"
| "as_str _ = None"

fun as_num :: "json \<Rightarrow> rat option" where
  "as_num (JNum q) = Some q"
| "as_num _ = None"

fun as_arr :: "json \<Rightarrow> json list option" where
  "as_arr (JArr xs) = Some xs"
| "as_arr _ = None"

text \<open>\<open>s, _ := v.(string)\<close> and \<open>f, _ := v.(float64)\<close>: the zero value when the assertion fails.\<close>

definition str_or_empty :: "json \<Rightarrow> string" where
  "str_or_empty v = (case as_str v of None \<Rightarrow> [] | Some s \<Rightarrow> s)"

definition num_or_zero :: "json \<Rightarrow> rat" where
  "num_or_zero v = (case as_num v of None \<Rightarrow> 0 | Some q \<Rightarrow> q)"

text \<open>\<open>int(f)\<close> on a float64 in range: truncation towards zero.\<close>

definition int_of_float :: "rat \<Rightarrow> int" where
  "int_of_float q = (if 0 \<le> q then \<lfloor>q\<rfloor> else \<lceil>q\<rceil>)"

lemma int_of_float_of_int [simp]: "int_of_float (of_int i) = i"
  by (simp add: int_of_float_def)

lemma int_of_float_numeral [simp]: "int_of_float (numeral n) = numeral n" "int_of_float 0 = 0" "int_of_float 1 = 1"
  by (simp_all add: int_of_float_def)

section \<open>Strings\<close>

definition is_space :: "char \<Rightarrow> bool" where
  "is_space c \<longleftrightarrow> (of_char c :: nat) \<in> {9, 10, 11, 12, 13, 32}"

definition TrimLeft :: "string \<Rightarrow> string" where
  "TrimLeft s = dropWhile is_space s"

definition TrimSpace :: "string \<Rightarrow> string" where
  "TrimSpace s = rev (TrimLeft (rev (TrimLeft s)))"

definition lower_char :: "char \<Rightarrow> char" where
  "lower_char c = (let n = (of_char c :: nat) in if 65 \<le> n \<and> n \<le> 90 then char_of (n + 32) else c)"

definition ToLower :: "string \<Rightarrow> string" where
  "ToLower s = map lower_char s"

definition HasPrefix :: "string \<Rightarrow> string \<Rightarrow> bool" where
  "HasPrefix s p \<longleftrightarrow> take (length p) s = p"

definition HasSuffix :: "string \<Rightarrow> string \<Rightarrow> bool" where
  "HasSuffix s p \<longleftrightarrow> length p \<le> length s \<and> drop (length s - length p) s = p"

definition TrimPrefix :: "string \<Rightarrow> string \<Rightarrow> string" where
  "TrimPrefix s p = (if HasPrefix s p then drop (length p) s else s)"

text \<open>\<open>strings.Split(s, sep)\<close> and \<open>strings.Cut(s, sep)\<close> for a one-byte separator.\<close>

fun Split :: "char \<Rightarrow> string \<Rightarrow> string list" where
  "Split c [] = [[]]"
| "Split c (x # xs) = (if x = c then [] # Split c xs else (case Split c xs of p # ps \<Rightarrow> (x # p) # ps | [] \<Rightarrow> [[x]]))"

definition Cut :: "char \<Rightarrow> string \<Rightarrow> (string \<times> string) option" where
  "Cut c s = (if c \<in> set s then Some (takeWhile (\<lambda>d. d \<noteq> c) s, tl (dropWhile (\<lambda>d. d \<noteq> c) s)) else None)"

text \<open>\<open>strings.Join\<close>, and \<open>strconv.Itoa\<close>.\<close>

fun Join :: "string \<Rightarrow> string list \<Rightarrow> string" where
  "Join sep [] = []"
| "Join sep [x] = x"
| "Join sep (x # y # ys) = x @ sep @ Join sep (y # ys)"

fun itoa_nat :: "nat \<Rightarrow> string" where
  "itoa_nat n = (if n < 10 then [char_of (48 + n)] else itoa_nat (n div 10) @ [char_of (48 + n mod 10)])"

declare itoa_nat.simps [simp del]

definition Itoa :: "int \<Rightarrow> string" where
  "Itoa i = (if i < 0 then CHR ''-'' # itoa_nat (nat (- i)) else itoa_nat (nat i))"

lemma of_char_digit: "n < 10 \<Longrightarrow> (of_char (char_of (48 + n) :: char) :: nat) = 48 + n"
  by (simp add: of_char_of)

lemma itoa_nat_digits: "list_all is_digit (itoa_nat n) \<and> itoa_nat n \<noteq> [] \<and> digits_val (itoa_nat n) = n"
proof (induction n rule: itoa_nat.induct)
  case (1 n)
  have last: "is_digit (char_of (48 + k))" "digit_val (char_of (48 + k)) = k" if "k < 10" for k
    using of_char_digit [OF that] that by (simp_all add: is_digit_def digit_val_def)
  show ?case
  proof (cases "n < 10")
    case True
    then show ?thesis using last by (simp add: itoa_nat.simps [of n] digits_val_def)
  next
    case False
    then show ?thesis using 1 last [of "n mod 10"] by (simp add: itoa_nat.simps [of n] digits_val_def)
  qed
qed

lemma itoa_nat_head: "\<exists>c cs. itoa_nat n = c # cs \<and> is_digit c"
  using itoa_nat_digits [of n] by (cases "itoa_nat n") auto

text \<open>Printing and parsing an integer is a round trip on the 64-bit range.\<close>

lemma ParseInt64_Itoa:
  assumes "- (2 ^ 63) \<le> i" "i < 2 ^ 63"
  shows "ParseInt64 (Itoa i) = Some i"
proof (cases "i < 0")
  case True
  have "nat (- i) \<le> 2 ^ 63" using assms(1) True by simp
  then show ?thesis using True itoa_nat_digits [of "nat (- i)"] by (simp add: ParseInt64_def Itoa_def Let_def)
next
  case False
  obtain c cs where c: "itoa_nat (nat i) = c # cs" "is_digit c" using itoa_nat_head by blast
  have "c \<noteq> CHR ''-''" "c \<noteq> CHR ''+''" using c(2) by (auto simp: is_digit_def)
  moreover have "nat i < 2 ^ 63" using assms(2) False by (simp add: nat_less_iff)
  ultimately show ?thesis
    using False itoa_nat_digits [of "nat i"] c(1) by (simp add: ParseInt64_def Itoa_def Let_def)
qed

end
