(* ===== verification/Encoding.thy ===== *)
theory Encoding
  imports Json
begin

text \<open>
  The text encodings of keys and answers, as the standard library defines them: base64 with padding
  (\<open>encoding/base64\<close>, \<open>StdEncoding\<close>) and lowercase hexadecimal (\<open>encoding/hex\<close>). Decoding base64
  ignores line breaks and the unused low bits of the last character, as Go's non-strict decoder does.
\<close>

definition alphabet :: string where
  "alphabet = ''ABCDEFGHIJKLMNOPQRSTUVWXYZabcdefghijklmnopqrstuvwxyz0123456789+/''"

definition sextet_char :: "nat \<Rightarrow> char" where "sextet_char n = alphabet ! n"

definition char_sextet :: "char \<Rightarrow> nat option" where
  "char_sextet c = (if c \<in> set alphabet then Some (length (takeWhile (\<lambda>d. d \<noteq> c) alphabet)) else None)"

fun b64_encode :: "bytes \<Rightarrow> string" where
  "b64_encode [] = []"
| "b64_encode [a] = (let n = unat a in
     [sextet_char (n div 4), sextet_char (n mod 4 * 16), CHR ''='', CHR ''=''])"
| "b64_encode [a, b] = (let n = unat a * 256 + unat b in
     [sextet_char (n div 1024), sextet_char (n div 16 mod 64), sextet_char (n mod 16 * 4), CHR ''=''])"
| "b64_encode (a # b # c # bs) = (let n = unat a * 65536 + unat b * 256 + unat c in
     [sextet_char (n div 262144), sextet_char (n div 4096 mod 64), sextet_char (n div 64 mod 64),
      sextet_char (n mod 64)] @ b64_encode bs)"

fun b64_quads :: "string \<Rightarrow> bytes option" where
  "b64_quads [] = Some []"
| "b64_quads (p # q # r # s # rest) =
     (case (char_sextet p, char_sextet q) of
        (Some i, Some j) \<Rightarrow>
          (if r = CHR ''='' \<and> s = CHR ''=''
           then (if rest = [] then Some [of_nat ((i * 64 + j) div 16)] else None)
           else case char_sextet r of None \<Rightarrow> None
           | Some k \<Rightarrow>
             (if s = CHR ''=''
              then (if rest = [] then let n = (i * 64 + j) * 64 + k in Some [of_nat (n div 1024), of_nat (n div 4 mod 256)]
                    else None)
              else case char_sextet s of None \<Rightarrow> None
              | Some l \<Rightarrow>
                (let n = ((i * 64 + j) * 64 + k) * 64 + l in
                 map_option (\<lambda>bs. of_nat (n div 65536) # of_nat (n div 256 mod 256) # of_nat (n mod 256) # bs)
                   (b64_quads rest))))
      | _ \<Rightarrow> None)"
| "b64_quads _ = None"

definition b64_decode :: "string \<Rightarrow> bytes option" where
  "b64_decode s = b64_quads (filter (\<lambda>c. of_char c \<noteq> (10 :: nat) \<and> of_char c \<noteq> (13 :: nat)) s)"

definition hex_digits :: string where "hex_digits = ''0123456789abcdef''"

definition hex_encode :: "bytes \<Rightarrow> string" where
  "hex_encode bs = concat (map (\<lambda>b. [hex_digits ! (unat b div 16), hex_digits ! (unat b mod 16)]) bs)"

definition hex_val :: "char \<Rightarrow> nat option" where
  "hex_val c = (let n = (of_char c :: nat) in
     if 48 \<le> n \<and> n \<le> 57 then Some (n - 48) else if 97 \<le> n \<and> n \<le> 102 then Some (n - 87)
     else if 65 \<le> n \<and> n \<le> 70 then Some (n - 55) else None)"

fun hex_decode :: "string \<Rightarrow> bytes option" where
  "hex_decode [] = Some []"
| "hex_decode [_] = None"
| "hex_decode (p # q # rest) =
     (case (hex_val p, hex_val q) of
        (Some i, Some j) \<Rightarrow> map_option (\<lambda>bs. of_nat (i * 16 + j) # bs) (hex_decode rest)
      | _ \<Rightarrow> None)"

section \<open>Round trips\<close>

lemma sextet_all: "list_all (\<lambda>n. char_sextet (sextet_char n) = Some n \<and> sextet_char n \<noteq> CHR ''=''
    \<and> of_char (sextet_char n) \<noteq> (10 :: nat) \<and> of_char (sextet_char n) \<noteq> (13 :: nat)) [0..<64]"
  by code_simp

lemma sextet [simp]:
  "n < 64 \<Longrightarrow> char_sextet (sextet_char n) = Some n" "n < 64 \<Longrightarrow> sextet_char n \<noteq> CHR ''=''"
  using sextet_all by (auto simp: list_all_iff)

lemma sextet_not_break: "n < 64 \<Longrightarrow> of_char (sextet_char n) \<noteq> (10 :: nat) \<and> of_char (sextet_char n) \<noteq> (13 :: nat)"
  using sextet_all by (auto simp: list_all_iff)

lemma unat_byte: "unat (b :: byte) < 256"
  using unsigned_less [of b] by simp

lemma b64_encode_no_breaks:
  "list_all (\<lambda>c. of_char c \<noteq> (10 :: nat) \<and> of_char c \<noteq> (13 :: nat)) (b64_encode bs)"
proof (induction bs rule: b64_encode.induct)
  case (2 a)
  then show ?case using unat_byte [of a] by (auto simp: Let_def intro!: sextet_not_break [THEN conjunct1] sextet_not_break [THEN conjunct2])
next
  case (3 a b)
  then show ?case using unat_byte [of a] unat_byte [of b]
    by (auto simp: Let_def intro!: sextet_not_break [THEN conjunct1] sextet_not_break [THEN conjunct2])
next
  case (4 a b c bs)
  then show ?case using unat_byte [of a] unat_byte [of b] unat_byte [of c]
    by (auto simp: Let_def intro!: sextet_not_break [THEN conjunct1] sextet_not_break [THEN conjunct2])
qed simp

lemma regroup3:
  fixes n :: nat
  shows "((n div 262144 * 64 + n div 4096 mod 64) * 64 + n div 64 mod 64) * 64 + n mod 64 = n"
proof -
  have "n div 64 = n div 4096 * 64 + n div 64 mod 64" "n div 4096 = n div 262144 * 64 + n div 4096 mod 64"
    using div_mult_mod_eq [of "n div 64" 64] div_mult_mod_eq [of "n div 4096" 64] by (simp_all add: div_mult2_eq [symmetric])
  then show ?thesis using div_mult_mod_eq [of n 64] by simp
qed

lemma b64_quads_encode: "b64_quads (b64_encode bs) = Some bs"
proof (induction bs rule: b64_encode.induct)
  case 1
  then show ?case by simp
next
  case (2 a)
  have "unat a div 4 * 64 + unat a mod 4 * 16 = unat a * 16" using div_mult_mod_eq [of "unat a" 4] by linarith
  then show ?case using unat_byte [of a] by (simp add: Let_def)
next
  case (3 a b)
  define n where "n = unat a * 256 + unat b"
  have "(n div 1024 * 64 + n div 16 mod 64) * 64 + n mod 16 * 4 = n * 4"
  proof -
    have "n div 1024 * 64 + n div 16 mod 64 = n div 16"
      using div_mult_mod_eq [of "n div 16" 64] by (simp add: div_mult2_eq [symmetric])
    then have "(n div 1024 * 64 + n div 16 mod 64) * 64 + n mod 16 * 4 = (n div 16 * 16 + n mod 16) * 4"
      by (simp only: add_mult_distrib mult.assoc)
    then show ?thesis by (simp only: div_mult_mod_eq)
  qed
  then have v: "((n div 1024 * 64 + n div 16 mod 64) * 64 + n mod 16 * 4) div 1024 = unat a"
    "((n div 1024 * 64 + n div 16 mod 64) * 64 + n mod 16 * 4) div 4 mod 256 = unat b"
    using unat_byte [of b] by (simp_all add: n_def)
  have "n div 1024 < 64" using unat_byte [of a] unat_byte [of b] by (simp add: n_def)
  then show ?case using v by (simp add: Let_def n_def [symmetric])
next
  case (4 a b c bs)
  define n where "n = unat a * 65536 + unat b * 256 + unat c"
  have n: "n = unat c + 256 * (unat b + 256 * unat a)" by (simp add: n_def)
  have low: "n mod 256 = unat c" "n div 256 = unat b + 256 * unat a"
    unfolding n using unat_byte [of c] mod_mult_self2 [of "unat c" 256 "unat b + 256 * unat a"]
      div_mult_self2 [of 256 "unat c" "unat b + 256 * unat a"] by simp_all
  have "n div 65536 = unat a" "n div 262144 < 64"
    using unat_byte [of a] unat_byte [of b] unat_byte [of c] by (simp_all add: n_def)
  moreover have "n div 256 mod 256 = unat b" unfolding low(2) using unat_byte [of b] by simp
  moreover note low(1)
  moreover have "262144 * (n div 262144) + 4096 * (n div 4096 mod 64) + n div 64 mod 64 * 64 + n mod 64 = n"
    using regroup3 [of n] by (simp add: algebra_simps)
  ultimately show ?case using 4 by (simp add: Let_def n_def [symmetric])
qed

lemma b64_roundtrip [simp]: "b64_decode (b64_encode bs) = Some bs"
proof -
  have "filter (\<lambda>c. of_char c \<noteq> (10 :: nat) \<and> of_char c \<noteq> (13 :: nat)) (b64_encode bs) = b64_encode bs"
    using b64_encode_no_breaks [of bs] by (simp add: filter_id_conv list_all_iff)
  then show ?thesis by (simp add: b64_decode_def b64_quads_encode)
qed

lemma hex_all: "list_all (\<lambda>n. hex_val (hex_digits ! n) = Some n) [0..<16]"
  by code_simp

lemma hex_val_digit [simp]: "n < 16 \<Longrightarrow> hex_val (hex_digits ! n) = Some n"
  using hex_all by (simp add: list_all_iff)

lemma hex_encode_Cons:
  "hex_encode (b # bs) = (hex_digits ! (unat b div 16)) # (hex_digits ! (unat b mod 16)) # hex_encode bs"
  by (simp add: hex_encode_def)

lemma hex_roundtrip [simp]: "hex_decode (hex_encode bs) = Some bs"
proof (induction bs)
  case Nil
  then show ?case by (simp add: hex_encode_def)
next
  case (Cons b bs)
  then show ?case using unat_byte [of b] by (simp add: hex_encode_Cons)
qed

lemma length_hex_encode [simp]: "length (hex_encode bs) = 2 * length bs"
  by (induction bs) (simp_all add: hex_encode_def)

end
