(* ===== verification/Slider.thy ===== *)
theory Slider
  imports Encoding "HOL-Library.Product_Lexorder" "HOL-Library.Multiset"
begin

text \<open>
  \<open>pkg/proxy/captcha_slider.go\<close>: the slider captcha. VK sends a scrambled image of a grid of tiles
  and a list of swaps; position \<open>i\<close> of the slider applies the first \<open>i\<close> swaps. The solver scores each
  position by how well the tiles fit at their seams and tries the best ones.

  An image is its bounds and the function \<open>At\<close>; a colour is the triple of 16-bit components that
  \<open>RGBA()\<close> returns. Base64 and JPEG decoding of the image is a parameter. The text score, a
  \<open>float64\<close> computed with \<open>math.Exp\<close>, is a parameter with values in a linear order: it is only
  ever compared. The requests to VK are a parameter too, a function of the requests made before;
  a request value holds what the solver chooses (the settings, the guess), not the form fields
  that are the same in every call.
\<close>

section \<open>The response of getContent\<close>

definition sliderCaptchaType :: string where "sliderCaptchaType = ''slider''"
definition defaultSliderAttempts :: int where "defaultSliderAttempts = 4"

type_synonym color = "nat \<times> nat \<times> nat"

record rect =
  minX :: int
  minY :: int
  maxX :: int
  maxY :: int

abbreviation Dx :: "rect \<Rightarrow> int" where "Dx r \<equiv> maxX r - minX r"
abbreviation Dy :: "rect \<Rightarrow> int" where "Dy r \<equiv> maxY r - minY r"

record image =
  Bounds :: rect
  At :: "int \<Rightarrow> int \<Rightarrow> color"

record sliderCaptchaContent =
  Picture :: image
  Size :: int
  Steps :: "int list"
  Attempts :: int

record sliderCandidate =
  Index :: nat
  ActiveSteps :: "int list"
  Score :: nat

datatype sliderError =
  InvalidResponse | BadStatus string | UnsupportedFormat string | ImageMissing | StepsMissing
  | InvalidNumeric | StepsTooShort nat | InvalidGridSize int | InvalidSwapPayload | ImageDecode
  | NoCandidates | InvalidTileCount | InvalidStepsLength nat | StepOutOfRange int int
  | RequestFailed string | TokenNotFound | ErrorLimit | AllRejected nat

fun parseIntSlice :: "json list \<Rightarrow> sliderError + int list" where
  "parseIntSlice [] = Inr []"
| "parseIntSlice (v # vs) =
     (case (case v of JNum q \<Rightarrow> Some (int_of_float q) | JStr s \<Rightarrow> ParseInt64 (TrimSpace s) | _ \<Rightarrow> None) of
        None \<Rightarrow> Inl InvalidNumeric
      | Some n \<Rightarrow> (case parseIntSlice vs of Inl e \<Rightarrow> Inl e | Inr ns \<Rightarrow> Inr (n # ns)))"

definition parseSliderSteps :: "int list \<Rightarrow> sliderError + int \<times> int list \<times> int" where
  "parseSliderSteps steps =
     (if length steps < 3 then Inl (StepsTooShort (length steps))
      else
        let gsize = steps ! 0; remaining = tl steps in
        if gsize \<le> 0 then Inl (InvalidGridSize gsize)
        else
          let odd_len = length remaining mod 2 \<noteq> 0;
              attempts0 = (if odd_len then last remaining else defaultSliderAttempts);
              remaining' = (if odd_len then butlast remaining else remaining);
              attempts = (if attempts0 \<le> 0 then defaultSliderAttempts else attempts0)
          in if length remaining' = 0 \<or> length remaining' mod 2 \<noteq> 0 then Inl InvalidSwapPayload
             else Inr (gsize, remaining', attempts))"

definition parseSliderContent :: "(string \<Rightarrow> image option) \<Rightarrow> jobj \<Rightarrow> sliderError + sliderCaptchaContent" where
  "parseSliderContent decodeSliderImage resp =
     (case as_obj (jget resp ''response'') of None \<Rightarrow> Inl InvalidResponse
      | Some respObj \<Rightarrow>
        let status = str_or_empty (jget respObj ''status'');
            ext = ToLower (str_or_empty (jget respObj ''extension''));
            rawImage = str_or_empty (jget respObj ''image'')
        in if status \<noteq> ''OK'' then Inl (BadStatus status)
           else if ext \<noteq> ''jpeg'' \<and> ext \<noteq> ''jpg'' then Inl (UnsupportedFormat ext)
           else if rawImage = [] then Inl ImageMissing
           else case as_arr (jget respObj ''steps'') of None \<Rightarrow> Inl StepsMissing
           | Some rawSteps \<Rightarrow>
             (case parseIntSlice rawSteps of Inl e \<Rightarrow> Inl e
              | Inr steps \<Rightarrow>
                (case parseSliderSteps steps of Inl e \<Rightarrow> Inl e
                 | Inr (gsize, swaps, attempts) \<Rightarrow>
                   (case decodeSliderImage rawImage of None \<Rightarrow> Inl ImageDecode
                    | Some img \<Rightarrow> Inr \<lparr>Picture = img, Size = gsize, Steps = swaps, Attempts = attempts\<rparr>))))"

section \<open>Candidate permutations\<close>

definition buildSliderActiveSteps :: "int list \<Rightarrow> int \<Rightarrow> int list" where
  "buildSliderActiveSteps swaps candidateIndex =
     (if candidateIndex \<le> 0 then []
      else let e = candidateIndex * 2;
               e' = (if e > int (length swaps) then int (length swaps) else e)
           in take (nat e') swaps)"

fun applySwaps :: "int \<Rightarrow> int list \<Rightarrow> nat list \<Rightarrow> sliderError + nat list" where
  "applySwaps tileCount (l # r # rest) m =
     (if l < 0 \<or> r < 0 \<or> l \<ge> tileCount \<or> r \<ge> tileCount then Inl (StepOutOfRange l r)
      else applySwaps tileCount rest (m[nat l := m ! nat r, nat r := m ! nat l]))"
| "applySwaps tileCount _ m = Inr m"

definition buildSliderTileMapping :: "int \<Rightarrow> int list \<Rightarrow> sliderError + nat list" where
  "buildSliderTileMapping gridSize activeSteps =
     (let tileCount = wrap64 (gridSize * gridSize) in
      if tileCount \<le> 0 then Inl InvalidTileCount
      else if length activeSteps mod 2 \<noteq> 0 then Inl (InvalidStepsLength (length activeSteps))
      else applySwaps tileCount activeSteps [0..<nat tileCount])"

section \<open>Tiles and samples\<close>

definition mkRect :: "int \<Rightarrow> int \<Rightarrow> int \<Rightarrow> int \<Rightarrow> rect" where
  "mkRect x0 y0 x1 y1 = \<lparr>minX = min x0 x1, minY = min y0 y1, maxX = max x0 x1, maxY = max y0 y1\<rparr>"

definition sliderTileRect :: "rect \<Rightarrow> nat \<Rightarrow> nat \<Rightarrow> rect" where
  "sliderTileRect b gridSize idx =
     (let row = int (idx div gridSize); col = int (idx mod gridSize); g = int gridSize in
      mkRect (minX b + go_quot (col * Dx b) g) (minY b + go_quot (row * Dy b) g)
             (minX b + go_quot ((col + 1) * Dx b) g) (minY b + go_quot ((row + 1) * Dy b) g))"

definition samplePoint :: "rect \<Rightarrow> rect \<Rightarrow> int \<Rightarrow> int \<Rightarrow> int \<times> int" where
  "samplePoint dstRect srcRect dstX dstY =
     (let dx = (if Dx dstRect < 1 then 1 else Dx dstRect);
          dy = (if Dy dstRect < 1 then 1 else Dy dstRect)
      in (minX srcRect + go_quot ((dstX - minX dstRect) * Dx srcRect) dx,
          minY srcRect + go_quot ((dstY - minY dstRect) * Dy srcRect) dy))"

definition sampleColorMappedV2 :: "image \<Rightarrow> rect \<Rightarrow> rect \<Rightarrow> int \<Rightarrow> int \<Rightarrow> color" where
  "sampleColorMappedV2 img dstRect srcRect dstX dstY =
     (case samplePoint dstRect srcRect dstX dstY of (sx, sy) \<Rightarrow> At img sx sy)"

definition sampleLumaMappedV2 :: "image \<Rightarrow> rect \<Rightarrow> rect \<Rightarrow> int \<Rightarrow> int \<Rightarrow> nat" where
  "sampleLumaMappedV2 img dstRect srcRect dstX dstY =
     (case sampleColorMappedV2 img dstRect srcRect dstX dstY of (r, g, b) \<Rightarrow>
        (299 * (r div 256) + 587 * (g div 256) + 114 * (b div 256)) div 1000 mod 256)"

definition absIntV2 :: "int \<Rightarrow> int" where "absIntV2 v = (if v < 0 then - v else v)"

definition pixelDiff :: "color \<Rightarrow> color \<Rightarrow> int" where
  "pixelDiff a b = (case (a, b) of ((ar, ag, ab), (br, bg, bb)) \<Rightarrow>
     absIntV2 (int (ar div 256) - int (br div 256)) + absIntV2 (int (ag div 256) - int (bg div 256))
       + absIntV2 (int (ab div 256) - int (bb div 256)))"

text \<open>
  The seams: pairs of pixel positions on the two sides, with the tiles they lie in. A pixel is
  given by destination tile, source tile and coordinates.
\<close>

type_synonym pixel = "rect \<times> rect \<times> int \<times> int"

definition horizontalSeams :: "rect \<Rightarrow> nat \<Rightarrow> nat list \<Rightarrow> (pixel \<times> pixel) list" where
  "horizontalSeams b g m = concat (concat (map (\<lambda>row. map (\<lambda>col.
     let leftIdx = row * g + col; rightIdx = leftIdx + 1;
         leftDst = sliderTileRect b g leftIdx; rightDst = sliderTileRect b g rightIdx;
         leftSrc = sliderTileRect b g (m ! leftIdx); rightSrc = sliderTileRect b g (m ! rightIdx);
         h = (if Dy rightDst < Dy leftDst then Dy rightDst else Dy leftDst)
     in map (\<lambda>y. let yy = minY leftDst + int y in
              ((leftDst, leftSrc, maxX leftDst - 1, yy), (rightDst, rightSrc, minX rightDst, yy)))
          [0..<nat h]) [0..<g - 1]) [0..<g]))"

definition verticalSeams :: "rect \<Rightarrow> nat \<Rightarrow> nat list \<Rightarrow> (pixel \<times> pixel) list" where
  "verticalSeams b g m = concat (concat (map (\<lambda>row. map (\<lambda>col.
     let topIdx = row * g + col; bottomIdx = (row + 1) * g + col;
         topDst = sliderTileRect b g topIdx; bottomDst = sliderTileRect b g bottomIdx;
         topSrc = sliderTileRect b g (m ! topIdx); bottomSrc = sliderTileRect b g (m ! bottomIdx);
         w = (if Dx bottomDst < Dx topDst then Dx bottomDst else Dx topDst)
     in map (\<lambda>x. let xx = minX topDst + int x in
              ((topDst, topSrc, xx, maxY topDst - 1), (bottomDst, bottomSrc, xx, minY bottomDst)))
          [0..<nat w]) [0..<g]) [0..<g - 1]))"

definition lumaAt :: "image \<Rightarrow> pixel \<Rightarrow> nat" where
  "lumaAt img = (\<lambda>(d, s, x, y). sampleLumaMappedV2 img d s x y)"

definition colorAt :: "image \<Rightarrow> pixel \<Rightarrow> color" where
  "colorAt img = (\<lambda>(d, s, x, y). sampleColorMappedV2 img d s x y)"

definition seamScoreLumaV2 :: "image \<Rightarrow> nat \<Rightarrow> nat list \<Rightarrow> int" where
  "seamScoreLumaV2 img g m =
     sum_list (map (\<lambda>(p, q). absIntV2 (int (lumaAt img p) - int (lumaAt img q)))
       (horizontalSeams (Bounds img) g m @ verticalSeams (Bounds img) g m))"

definition seamScoreRGB :: "image \<Rightarrow> nat \<Rightarrow> nat list \<Rightarrow> int" where
  "seamScoreRGB img g m =
     sum_list (map (\<lambda>(p, q). pixelDiff (colorAt img p) (colorAt img q))
       (horizontalSeams (Bounds img) g m @ verticalSeams (Bounds img) g m))"

section \<open>Ranking\<close>

record 'f scored =
  sindex :: nat
  activeSteps :: "int list"
  luma :: int
  rgb :: int
  stext :: 'f
  consensus :: nat

text \<open>The loop over all candidates with its early error return.\<close>

fun scoreAll :: "image \<Rightarrow> int \<Rightarrow> int list \<Rightarrow> nat list \<Rightarrow> sliderError + ('f :: zero) scored list" where
  "scoreAll img gridSize swaps [] = Inr []"
| "scoreAll img gridSize swaps (idx # idxs) =
     (let active = buildSliderActiveSteps swaps (int idx) in
      case buildSliderTileMapping gridSize active of Inl e \<Rightarrow> Inl e
      | Inr m \<Rightarrow> (case scoreAll img gridSize swaps idxs of Inl e \<Rightarrow> Inl e
        | Inr ss \<Rightarrow> Inr (\<lparr>sindex = idx, activeSteps = active, luma = seamScoreLumaV2 img (nat gridSize) m,
            rgb = 0, stext = 0, consensus = 0\<rparr> # ss)))"

text \<open>\<open>rank[all[pos].index] = rank\<close> along an order; a missing key reads as 0.\<close>

definition rankMap :: "'f scored list \<Rightarrow> nat list \<Rightarrow> nat \<rightharpoonup> nat" where
  "rankMap ss ord = map_of (zip (map (\<lambda>pos. sindex (ss ! pos)) ord) [0..<length ord])"

definition lookup0 :: "(nat \<rightharpoonup> nat) \<Rightarrow> nat \<Rightarrow> nat" where
  "lookup0 m k = (case m k of None \<Rightarrow> 0 | Some v \<Rightarrow> v)"

text \<open>Stage 2 adds the RGB and text scores to the positions it is given.\<close>

fun stage2 :: "image \<Rightarrow> int \<Rightarrow> (nat list \<Rightarrow> 'f) \<Rightarrow> nat list \<Rightarrow> 'f scored list \<Rightarrow> sliderError + 'f scored list" where
  "stage2 img gridSize textScore [] ss = Inr ss"
| "stage2 img gridSize textScore (pos # rest) ss =
     (case buildSliderTileMapping gridSize (activeSteps (ss ! pos)) of Inl e \<Rightarrow> Inl e
      | Inr m \<Rightarrow> stage2 img gridSize textScore rest
          (ss[pos := (ss ! pos)\<lparr>rgb := seamScoreRGB img (nat gridSize) m, stext := textScore m\<rparr>]))"

definition rankScored :: "nat \<Rightarrow> nat list \<Rightarrow> ('f :: linorder) scored list \<Rightarrow> 'f scored list" where
  "rankScored n lumaOrder ss =
     (let stage2Pos = take (min n 12) lumaOrder;
          lumaRank = rankMap ss lumaOrder;
          rgbRank = rankMap ss (sort_key (\<lambda>p. (rgb (ss ! p), sindex (ss ! p))) stage2Pos);
          textRank = rankMap ss (sort_key (\<lambda>p. (stext (ss ! p), sindex (ss ! p))) stage2Pos);
          inStage2 = (\<lambda>k. k \<in> set (map (\<lambda>p. sindex (ss ! p)) stage2Pos))
      in sort_key (\<lambda>s. (consensus s, luma s, sindex s))
           (map (\<lambda>s. s\<lparr>consensus := lookup0 lumaRank (sindex s)
              + (if inStage2 (sindex s) then lookup0 rgbRank (sindex s) + lookup0 textRank (sindex s) else n)\<rparr>) ss))"

definition rankSliderCandidates ::
  "(nat list \<Rightarrow> 'f :: {linorder, zero}) \<Rightarrow> image \<Rightarrow> int \<Rightarrow> int list \<Rightarrow> sliderError + sliderCandidate list" where
  "rankSliderCandidates textScore img gridSize swaps =
     (let n = length swaps div 2 in
      if n = 0 then Inl NoCandidates
      else case scoreAll img gridSize swaps [1..<Suc n] of Inl e \<Rightarrow> Inl e
      | Inr ss \<Rightarrow>
        let lumaOrder = sort_key (\<lambda>p. (luma (ss ! p), sindex (ss ! p))) [0..<n] in
        case stage2 img gridSize textScore (take (min n 12) lumaOrder) ss of Inl e \<Rightarrow> Inl e
        | Inr ss' \<Rightarrow> Inr (map (\<lambda>s. \<lparr>Index = sindex s, ActiveSteps = activeSteps s, Score = consensus s\<rparr>)
            (rankScored n lumaOrder ss')))"

section \<open>Guessing\<close>

definition json_ints :: "int list \<Rightarrow> string" where
  "json_ints xs = CHR ''['' # Join '','' (map Itoa xs) @ '']''"

definition bytes_of_string :: "string \<Rightarrow> bytes" where
  "bytes_of_string s = map (\<lambda>c. of_nat (of_char c)) s"

definition encodeSliderAnswer :: "int list \<Rightarrow> string" where
  "encodeSliderAnswer steps = b64_encode (bytes_of_string (''{\"value\":'' @ json_ints steps @ ''}''))"

datatype vkRequest = ComponentDone | GetContent "string option" | Check nat string

type_synonym vkReqFunc = "vkRequest list \<Rightarrow> vkRequest \<Rightarrow> string + jobj"

definition getContentStatus :: "jobj \<Rightarrow> string" where
  "getContentStatus resp = (case as_obj (jget resp ''response'') of None \<Rightarrow> []
     | Some respObj \<Rightarrow> str_or_empty (jget respObj ''status''))"

definition requestSliderContentWithFallback ::
  "vkReqFunc \<Rightarrow> vkRequest list \<Rightarrow> string \<Rightarrow> vkRequest list \<times> (sliderError + jobj)" where
  "requestSliderContentWithFallback vkReq hist sliderSettings =
     (let plain = (\<lambda>h. (h @ [GetContent None],
            case vkReq h (GetContent None) of Inl e \<Rightarrow> Inl (RequestFailed e) | Inr resp \<Rightarrow> Inr resp))
      in if sliderSettings = [] then plain hist
         else
           let req = GetContent (Some sliderSettings); hist1 = hist @ [req] in
           case vkReq hist req of Inl e \<Rightarrow> (hist1, Inl (RequestFailed e))
           | Inr resp \<Rightarrow> if getContentStatus resp = ''OK'' then (hist1, Inr resp) else plain hist1)"

definition normalizeSettings :: "(json \<Rightarrow> string option) \<Rightarrow> json \<Rightarrow> string" where
  "normalizeSettings marshal raw =
     (case raw of JNull \<Rightarrow> [] | JStr s \<Rightarrow> s
      | _ \<Rightarrow> (case marshal raw of None \<Rightarrow> [] | Some d \<Rightarrow> d))"

fun sliderItem :: "(json \<Rightarrow> string option) \<Rightarrow> json list \<Rightarrow> string" where
  "sliderItem marshal [] = []"
| "sliderItem marshal (v # vs) =
     (case as_obj v of None \<Rightarrow> sliderItem marshal vs
      | Some m \<Rightarrow> if str_or_empty (jget m ''type'') = sliderCaptchaType
          then normalizeSettings marshal (jget m ''settings'') else sliderItem marshal vs)"

definition extractSliderSettings ::
  "(json \<Rightarrow> string option) \<Rightarrow> (string \<Rightarrow> json list option) \<Rightarrow> jobj option \<Rightarrow> string" where
  "extractSliderSettings marshal unmarshal settingsResp =
     (case settingsResp of None \<Rightarrow> []
      | Some resp \<Rightarrow> (case as_obj (jget resp ''response'') of None \<Rightarrow> []
        | Some respObj \<Rightarrow> (case jget respObj ''captcha_settings'' of
            JArr vs \<Rightarrow> sliderItem marshal vs
          | JObj m \<Rightarrow> (case map_of m sliderCaptchaType of None \<Rightarrow> [] | Some s \<Rightarrow> normalizeSettings marshal s)
          | JStr s \<Rightarrow> (let trimmed = TrimSpace s in
              if trimmed = [] then [] else case unmarshal trimmed of None \<Rightarrow> [] | Some items \<Rightarrow> sliderItem marshal items)
          | _ \<Rightarrow> [])))"

fun tryGuesses ::
  "vkReqFunc \<Rightarrow> nat \<Rightarrow> vkRequest list \<Rightarrow> sliderCandidate list \<Rightarrow> vkRequest list \<times> (sliderError + string)" where
  "tryGuesses vkReq maxTries hist [] = (hist, Inl (AllRejected maxTries))"
| "tryGuesses vkReq maxTries hist (c # cs) =
     (let req = Check (Index c) (encodeSliderAnswer (ActiveSteps c)); hist' = hist @ [req] in
      case vkReq hist req of Inl e \<Rightarrow> (hist', Inl (RequestFailed e))
      | Inr resp \<Rightarrow> (case as_obj (jget resp ''response'') of None \<Rightarrow> (hist', Inl InvalidResponse)
        | Some respObj \<Rightarrow>
          let status = str_or_empty (jget respObj ''status''); token = str_or_empty (jget respObj ''success_token'') in
          if status = ''OK'' then (hist', if token = [] then Inl TokenNotFound else Inr token)
          else if status = ''ERROR_LIMIT'' then (hist', Inl ErrorLimit)
          else tryGuesses vkReq maxTries hist' cs))"

definition solveSliderCaptcha ::
  "(nat list \<Rightarrow> 'f :: {linorder, zero}) \<Rightarrow> (string \<Rightarrow> image option) \<Rightarrow> (json \<Rightarrow> string option)
    \<Rightarrow> (string \<Rightarrow> json list option) \<Rightarrow> vkReqFunc \<Rightarrow> vkRequest list \<Rightarrow> jobj option
    \<Rightarrow> vkRequest list \<times> (sliderError + string)" where
  "solveSliderCaptcha textScore decodeSliderImage marshal unmarshal vkReq hist settingsResp =
     (let hist1 = hist @ [ComponentDone] in
      case requestSliderContentWithFallback vkReq hist1 (extractSliderSettings marshal unmarshal settingsResp) of
        (hist2, Inl e) \<Rightarrow> (hist2, Inl e)
      | (hist2, Inr resp) \<Rightarrow>
        (case parseSliderContent decodeSliderImage resp of Inl e \<Rightarrow> (hist2, Inl e)
         | Inr content \<Rightarrow>
           (case rankSliderCandidates textScore (Picture content) (Size content) (Steps content) of
              Inl e \<Rightarrow> (hist2, Inl e)
            | Inr candidates \<Rightarrow>
              (let maxTries = (if Attempts content > int (length candidates) then int (length candidates) else Attempts content)
               in tryGuesses vkReq (nat maxTries) hist2 (take (nat maxTries) candidates)))))"

end
