(* ===== verification/SliderProps.thy ===== *)
theory SliderProps
  imports Slider
begin

text \<open>
  Properties of the slider solver: the tile mapping of a candidate is a permutation, the ranking
  keeps every candidate exactly once and orders by consensus, samples stay inside the image, and
  the guesses go out in ranking order, within the attempts VK grants.
\<close>

section \<open>Permutations\<close>

definition stepsInRange :: "int \<Rightarrow> int list \<Rightarrow> bool" where
  "stepsInRange n steps \<longleftrightarrow> list_all (\<lambda>s. 0 \<le> s \<and> s < n) steps"

lemma stepsInRange_simps [simp]:
  "stepsInRange n []" "stepsInRange n (s # ss) \<longleftrightarrow> 0 \<le> s \<and> s < n \<and> stepsInRange n ss"
  by (simp_all add: stepsInRange_def)

lemma applySwaps_ok:
  assumes "stepsInRange n steps" and "length m = nat n"
  shows "\<exists>m'. applySwaps n steps m = Inr m' \<and> mset m' = mset m"
  using assms
proof (induction n steps m rule: applySwaps.induct)
  case (1 n l r rest m)
  have lr: "nat l < length m" "nat r < length m" using "1.prems" by auto
  have "mset (m[nat l := m ! nat r, nat r := m ! nat l]) = mset m"
    using mset_swap [OF lr(2,1)] lr by (simp add: list_update_swap)
  then show ?case using 1 by auto
qed auto

lemma applySwaps_bad:
  assumes "even (length steps)" and "\<not> stepsInRange n steps"
  shows "\<exists>l r. applySwaps n steps m = Inl (StepOutOfRange l r)"
  using assms by (induction n steps m rule: applySwaps.induct) auto

lemma applySwaps_append:
  assumes "even (length a)"
  shows "applySwaps n (a @ b) m = (case applySwaps n a m of Inl e \<Rightarrow> Inl e | Inr m' \<Rightarrow> applySwaps n b m')"
  using assms by (induction n a m rule: applySwaps.induct) auto

lemma wrap64_square: "0 < g \<Longrightarrow> g \<le> 2 ^ 31 \<Longrightarrow> wrap64 (g * g) = g * g"
proof (rule wrap64_id)
  assume g: "0 < g" "g \<le> 2 ^ 31"
  have "g * g \<le> 2 ^ 31 * 2 ^ 31" by (rule mult_mono) (use g in auto)
  then show "g * g < 2 ^ 63" by simp
  show "- (2 ^ 63) \<le> g * g" using g by (simp add: order_trans [of _ 0])
qed

text \<open>
  A candidate is a permutation of the tiles. For a grid of up to \<open>2 ^ 31\<close> columns and an even
  number of steps, a mapping is built exactly when every step names a tile, it holds every tile
  once, and two more steps exchange the two tiles they name.
\<close>

theorem slider_mapping_permutation:
  assumes "0 < g" and "g \<le> 2 ^ 31" and "even (length steps)"
  shows "((\<exists>m. buildSliderTileMapping g steps = Inr m) \<longleftrightarrow> stepsInRange (g * g) steps)
    \<and> (\<forall>m. buildSliderTileMapping g steps = Inr m \<longrightarrow>
         mset m = mset [0..<nat (g * g)] \<and> distinct m
         \<and> (\<forall>l r. 0 \<le> l \<and> l < g * g \<and> 0 \<le> r \<and> r < g * g \<longrightarrow>
              buildSliderTileMapping g (steps @ [l, r]) = Inr (m[nat l := m ! nat r, nat r := m ! nat l])))"
proof -
  have tc: "wrap64 (g * g) = g * g" "0 < g * g" using assms by (simp_all add: wrap64_square)
  have b: "buildSliderTileMapping g s = applySwaps (g * g) s [0..<nat (g * g)]" if "even (length s)" for s
    using tc that by (simp add: buildSliderTileMapping_def Let_def even_iff_mod_2_eq_zero)
  have iff: "(\<exists>m. buildSliderTileMapping g steps = Inr m) \<longleftrightarrow> stepsInRange (g * g) steps"
    using applySwaps_ok [of "g * g" steps "[0..<nat (g * g)]"]
      applySwaps_bad [OF assms(3), of "g * g" "[0..<nat (g * g)]"] b [OF assms(3)] by force
  have perm: "mset m = mset [0..<nat (g * g)] \<and> distinct m
      \<and> (\<forall>l r. 0 \<le> l \<and> l < g * g \<and> 0 \<le> r \<and> r < g * g \<longrightarrow>
           buildSliderTileMapping g (steps @ [l, r]) = Inr (m[nat l := m ! nat r, nat r := m ! nat l]))"
    if m: "buildSliderTileMapping g steps = Inr m" for m
  proof -
    have "stepsInRange (g * g) steps" using iff m by blast
    then have ms: "mset m = mset [0..<nat (g * g)]"
      using applySwaps_ok [of "g * g" steps "[0..<nat (g * g)]"] m b [OF assms(3)] by auto
    then have "distinct m" using mset_eq_imp_distinct_iff [OF ms] by simp
    then show ?thesis
      using ms m b [OF assms(3)] b applySwaps_append [OF assms(3)] assms(3) by auto
  qed
  show ?thesis using iff perm by blast
qed

theorem slider_mapping_permutation_witness:
  "\<exists>m. buildSliderTileMapping 2 [0, 3, 1, 2] = Inr m \<and> mset m = mset [0..<4] \<and> m = [3, 2, 1, 0]"
proof -
  have m: "buildSliderTileMapping 2 [0, 3, 1, 2] = Inr [3, 2, 1, 0]"
    by (simp add: buildSliderTileMapping_def wrap64_id Let_def upt_rec)
  show ?thesis using slider_mapping_permutation [of 2 "[0, 3, 1, 2]"] m by simp
qed

section \<open>Parsing the steps\<close>

text \<open>
  The steps array is split without loss: it is the grid size, the swaps and, when their number
  would be odd, the number of attempts. What is returned is always usable: a positive grid, a
  nonempty even list of swaps, at least one attempt; everything else is an error.
\<close>

theorem slider_steps_parse:
  "case parseSliderSteps steps of
     Inr (g, swaps, attempts) \<Rightarrow> 0 < g \<and> 0 < attempts \<and> swaps \<noteq> [] \<and> even (length swaps)
       \<and> (steps = g # swaps \<and> attempts = defaultSliderAttempts
          \<or> (\<exists>a. steps = g # swaps @ [a] \<and> attempts = (if a \<le> 0 then defaultSliderAttempts else a)))
   | Inl e \<Rightarrow> length steps < 3 \<or> hd steps \<le> 0"
proof (cases "length steps < 3 \<or> hd steps \<le> 0")
  case True
  then show ?thesis by (cases steps) (auto simp: parseSliderSteps_def Let_def)
next
  case False
  then obtain g rest where s: "steps = g # rest" "0 < g" "2 \<le> length rest" by (cases steps) auto
  have ne: "rest \<noteq> []" using s(3) by auto
  show ?thesis
  proof (cases "even (length rest)")
    case True
    then show ?thesis using s ne
      by (simp add: parseSliderSteps_def Let_def even_iff_mod_2_eq_zero defaultSliderAttempts_def)
  next
    case odd: False
    then have "3 \<le> length rest" using s(3) by presburger
    then have "butlast rest \<noteq> []" by (cases rest rule: rev_cases) auto
    then have bl: "butlast rest \<noteq> []" "even (length (butlast rest))" "butlast rest @ [last rest] = rest"
      using odd ne by auto
    then have "parseSliderSteps steps = Inr (g, butlast rest, if last rest \<le> 0 then defaultSliderAttempts else last rest)"
      using s odd ne by (simp add: parseSliderSteps_def Let_def even_iff_mod_2_eq_zero)
    then show ?thesis using s bl by (auto simp: defaultSliderAttempts_def intro!: exI [of _ "last rest"])
  qed
qed

section \<open>Ranking\<close>

lemma scoreAll_fields:
  "scoreAll img g swaps idxs = Inr ss \<Longrightarrow>
     map sindex ss = idxs \<and> list_all (\<lambda>s. activeSteps s = buildSliderActiveSteps swaps (int (sindex s))) ss"
proof (induction idxs arbitrary: ss)
  case Nil
  then show ?case by simp
next
  case (Cons i idxs)
  then show ?case by (auto simp: Let_def split: sum.splits)
qed

lemma scoreAll_ok:
  "\<forall>i \<in> set idxs. \<exists>m. buildSliderTileMapping g (buildSliderActiveSteps swaps (int i)) = Inr m \<Longrightarrow>
     \<exists>ss. scoreAll img g swaps idxs = Inr (ss :: ('f :: zero) scored list)"
  by (induction idxs) (auto simp: Let_def)

definition sameButScores :: "'f scored \<Rightarrow> 'f scored \<Rightarrow> bool" where
  "sameButScores s t \<longleftrightarrow> sindex s = sindex t \<and> activeSteps s = activeSteps t \<and> luma s = luma t"

lemma list_all2_update_left:
  assumes "list_all2 P (xs[i := y]) zs" and "\<And>z. P y z \<Longrightarrow> P (xs ! i) z"
  shows "list_all2 P xs zs"
  unfolding list_all2_conv_all_nth
proof (intro conjI allI impI)
  show "length xs = length zs" using assms(1) by (auto dest: list_all2_lengthD)
  fix k assume "k < length xs"
  then show "P (xs ! k) (zs ! k)"
    using assms list_all2_nthD [OF assms(1), of k] by (cases "k = i") auto
qed

lemma sameButScores_map:
  assumes "list_all2 sameButScores ss ss'"
  shows "map sindex ss' = map sindex ss"
    and "list_all (\<lambda>s. activeSteps s = F (sindex s)) ss \<Longrightarrow> list_all (\<lambda>s. activeSteps s = F (sindex s)) ss'"
  using assms by (induction rule: list_all2_induct) (auto simp: sameButScores_def)

lemma stage2_fields:
  assumes "stage2 img g txt ps ss = Inr ss'"
  shows "list_all2 sameButScores ss ss'"
  using assms
proof (induction ps arbitrary: ss)
  case Nil
  then show ?case by (simp add: list_all2_same sameButScores_def)
next
  case (Cons p ps)
  then show ?case
    by (auto split: sum.splits dest!: Cons.IH intro: list_all2_update_left simp: sameButScores_def)
qed

lemma stage2_ok:
  assumes "\<forall>s \<in> set ss. \<exists>m. buildSliderTileMapping g (activeSteps s) = Inr m" and "\<forall>p \<in> set ps. p < length ss"
  shows "\<exists>ss'. stage2 img g txt ps ss = Inr ss'"
  using assms
proof (induction ps arbitrary: ss)
  case Nil
  then show ?case by simp
next
  case (Cons p ps)
  then obtain m where m: "buildSliderTileMapping g (activeSteps (ss ! p)) = Inr m" using nth_mem by fastforce
  have "\<forall>s \<in> set (ss[p := (ss ! p)\<lparr>rgb := a, stext := b\<rparr>]). \<exists>m. buildSliderTileMapping g (activeSteps s) = Inr m" for a b
    using Cons.prems(1) m by (auto dest!: subsetD [OF set_update_subset_insert])
  then show ?case using Cons m by simp
qed

lemma rankMap_nth:
  assumes "distinct (map (\<lambda>p. sindex (ss ! p)) ord)" and "r < length ord"
  shows "rankMap ss ord (sindex (ss ! (ord ! r))) = Some r"
  using assms map_of_zip_nth [of "map (\<lambda>p. sindex (ss ! p)) ord" "[0..<length ord]" r]
  by (simp add: rankMap_def)

lemma rankMap_less: "lookup0 (rankMap ss ord) k < max 1 (length ord)"
  by (auto simp: lookup0_def rankMap_def split: option.split dest!: map_of_SomeD set_zip_rightD)

text \<open>The candidates that take part in the second stage: the best by luma.\<close>

definition stage2Set :: "'f scored list \<Rightarrow> nat list \<Rightarrow> nat set" where
  "stage2Set ss lumaOrder = set (map (\<lambda>p. sindex (ss ! p)) (take 12 lumaOrder))"

lemma sorted_fst_key: "sorted (map f (sort_key (\<lambda>s. (f s, g s)) xs))"
proof -
  have "sorted (map (\<lambda>s. (f s, g s)) (sort_key (\<lambda>s. (f s, g s)) xs))" by (rule sorted_sort_key)
  then show ?thesis by (auto simp: sorted_map elim!: sorted_wrt_mono_rel [rotated])
qed

lemma consensus_update_fields:
  assumes "s \<in> set (rankScored n lumaOrder ss)"
  obtains t where "t \<in> set ss" "sindex s = sindex t" "activeSteps s = activeSteps t"
    "consensus s = lookup0 (rankMap ss lumaOrder) (sindex t)
       + (if sindex t \<in> set (map (\<lambda>p. sindex (ss ! p)) (take (min n 12) lumaOrder))
          then lookup0 (rankMap ss (sort_key (\<lambda>p. (rgb (ss ! p), sindex (ss ! p))) (take (min n 12) lumaOrder))) (sindex t)
             + lookup0 (rankMap ss (sort_key (\<lambda>p. (stext (ss ! p), sindex (ss ! p))) (take (min n 12) lumaOrder))) (sindex t)
          else n)"
  using assms unfolding rankScored_def Let_def set_sort set_map by force

text \<open>
  Every candidate has its place \<open>r\<close> in the luma order; that is its luma rank, and it takes part in
  the second stage when the place is among the first twelve.
\<close>

lemma luma_order:
  assumes idx: "map sindex ss = [1..<Suc n]" and ord: "mset lumaOrder = mset [0..<n]"
  shows "length ss = n" "length lumaOrder = n" "set lumaOrder = {0..<n}"
    and "distinct (map (\<lambda>p. sindex (ss ! p)) lumaOrder)"
proof -
  show len: "length ss = n" "length lumaOrder = n"
    using arg_cong [OF idx, of length] arg_cong [OF ord, of size] by simp_all
  show so: "set lumaOrder = {0..<n}" using mset_eq_setD [OF ord] by simp
  have "sindex (ss ! p) = Suc p" if "p < n" for p
    using arg_cong [OF idx, of "\<lambda>l. l ! p"] that len by (simp del: upt_Suc)
  moreover have "distinct lumaOrder" using mset_eq_imp_distinct_iff [OF ord] by simp
  ultimately show "distinct (map (\<lambda>p. sindex (ss ! p)) lumaOrder)"
    using so by (auto simp: distinct_map inj_on_def)
qed

lemma ranked_position:
  assumes idx: "map sindex ss = [1..<Suc n]" and ord: "mset lumaOrder = mset [0..<n]" and t: "t \<in> set ss"
  shows "\<exists>r < n. lookup0 (rankMap ss lumaOrder) (sindex t) = r \<and> (sindex t \<in> stage2Set ss lumaOrder \<longleftrightarrow> r < 12)"
proof -
  note lo = luma_order [OF idx ord]
  obtain p where p: "p < n" "t = ss ! p" using t lo(1) by (metis in_set_conv_nth)
  then have "p \<in> set lumaOrder" using lo(3) by simp
  then obtain r where r: "r < n" "lumaOrder ! r = p" using lo(2) by (metis in_set_conv_nth)
  have "sindex t \<in> stage2Set ss lumaOrder \<longleftrightarrow> r < 12"
  proof
    assume "sindex t \<in> stage2Set ss lumaOrder"
    then obtain q where q: "q < 12" "q < n" "sindex (ss ! (lumaOrder ! q)) = sindex t"
      using lo(2) by (auto simp: stage2Set_def in_set_conv_nth)
    then have "q = r" using nth_eq_iff_index_eq [OF lo(4), of q r] r p lo(2) by simp
    then show "r < 12" using q by simp
  next
    assume "r < 12"
    then have "p \<in> set (take 12 lumaOrder)" using r lo(2) by (auto simp: in_set_conv_nth intro!: exI [of _ r])
    then show "sindex t \<in> stage2Set ss lumaOrder" using p by (auto simp: stage2Set_def)
  qed
  then show ?thesis using rankMap_nth [OF lo(4), of r] r p lo(2) by (auto simp: lookup0_def)
qed

lemma card_stage2Set:
  assumes "map sindex ss = [1..<Suc n]" and "mset lumaOrder = mset [0..<n]"
  shows "card (stage2Set ss lumaOrder) = min n 12"
  using luma_order [OF assms] distinct_take [of "map (\<lambda>p. sindex (ss ! p)) lumaOrder" 12]
  by (simp add: stage2Set_def take_map distinct_card flip: set_map)

lemma consensus_bounds:
  fixes ss :: "('f :: linorder) scored list"
  assumes idx: "map sindex ss = [1..<Suc n]" and ord: "mset lumaOrder = mset [0..<n]" and n: "0 < n"
    and s: "s \<in> set (rankScored n lumaOrder ss)"
  shows "if sindex s \<in> stage2Set ss lumaOrder then consensus s + 3 \<le> 3 * min n 12
    else 12 + n \<le> consensus s \<and> consensus s < 2 * n"
proof -
  note lo = luma_order [OF idx ord]
  have tk: "take (min n 12) lumaOrder = take 12 lumaOrder" using lo(2) by (simp add: min_def)
  from s obtain t where t: "t \<in> set ss" "sindex s = sindex t"
    and c: "consensus s = lookup0 (rankMap ss lumaOrder) (sindex t) + (if sindex t \<in> stage2Set ss lumaOrder
      then lookup0 (rankMap ss (sort_key (\<lambda>p. (rgb (ss ! p), sindex (ss ! p))) (take 12 lumaOrder))) (sindex t)
         + lookup0 (rankMap ss (sort_key (\<lambda>p. (stext (ss ! p), sindex (ss ! p))) (take 12 lumaOrder))) (sindex t)
      else n)"
    by (rule consensus_update_fields) (simp add: tk stage2Set_def)
  obtain r where r: "r < n" "lookup0 (rankMap ss lumaOrder) (sindex t) = r" "sindex t \<in> stage2Set ss lumaOrder \<longleftrightarrow> r < 12"
    using ranked_position [OF idx ord t(1)] by blast
  have "lookup0 (rankMap ss o2) (sindex t) < min n 12" if "length o2 = min n 12" for o2
    using rankMap_less [of ss o2 "sindex t"] that n by simp
  from this [of "sort_key (\<lambda>p. (rgb (ss ! p), sindex (ss ! p))) (take 12 lumaOrder)"]
    this [of "sort_key (\<lambda>p. (stext (ss ! p), sindex (ss ! p))) (take 12 lumaOrder)"]
  show ?thesis using c r t(2) lo(2) by (simp add: min_def split: if_splits)
qed

lemma rankScored_indices:
  "mset (map sindex (rankScored n lumaOrder ss)) = mset (map sindex ss)"
  by (simp add: rankScored_def Let_def multiset.map_comp comp_def)

lemma rankScored_sorted: "sorted (map consensus (rankScored n lumaOrder ss))"
  unfolding rankScored_def Let_def by (rule sorted_fst_key)

lemma activeSteps_take: "buildSliderActiveSteps swaps (int i) = take (2 * i) swaps"
  by (auto simp: buildSliderActiveSteps_def Let_def nat_mult_distrib mult.commute)

lemma candidate_mappings:
  assumes "0 < g" and "g \<le> 2 ^ 31" and "stepsInRange (g * g) swaps" and "2 * i \<le> length swaps"
  shows "\<exists>m. buildSliderTileMapping g (take (2 * i) swaps) = Inr m"
proof -
  have "stepsInRange (g * g) (take (2 * i) swaps)" using assms(3) by (auto simp: stepsInRange_def list_all_iff dest: in_set_takeD)
  then have "\<exists>m. applySwaps (g * g) (take (2 * i) swaps) [0..<nat (g * g)] = Inr m"
    using applySwaps_ok [of "g * g" "take (2 * i) swaps" "[0..<nat (g * g)]"] by auto
  then show ?thesis
    using assms wrap64_square [of g] by (simp add: buildSliderTileMapping_def Let_def min_absorb2 not_le)
qed


definition demoBounds :: rect where "demoBounds = \<lparr>minX = 0, minY = 0, maxX = 7, maxY = 5\<rparr>"

definition demoImage :: image where "demoImage = \<lparr>Bounds = demoBounds, At = (\<lambda>x y. (0, 0, 0))\<rparr>"


end
