(* ===== verification/SliderGeometry.thy ===== *)
theory SliderGeometry
  imports SliderProps
begin

text \<open>
  The geometry of the slider image: the tiles partition the image, every pixel the seam scores look
  up lies in the image, and the scores stay far below the 64-bit range.
\<close>

section \<open>Tile edges\<close>

definition edge :: "int \<Rightarrow> int \<Rightarrow> nat \<Rightarrow> nat \<Rightarrow> int" where
  "edge lo d g k = lo + (int k * d) div int g"

definition inside :: "rect \<Rightarrow> int \<Rightarrow> int \<Rightarrow> bool" where
  "inside r x y \<longleftrightarrow> minX r \<le> x \<and> x < maxX r \<and> minY r \<le> y \<and> y < maxY r"

lemma edge_ends [simp]: "edge lo d g 0 = lo" "0 < g \<Longrightarrow> edge lo d g g = lo + d"
  by (simp_all add: edge_def)

lemma edge_mono: "0 \<le> d \<Longrightarrow> i \<le> j \<Longrightarrow> edge lo d g i \<le> edge lo d g j"
  by (cases "g = 0") (auto simp: edge_def intro!: zdiv_mono1 mult_right_mono)

lemma edge_strict:
  assumes "0 < g" and "int g \<le> d"
  shows "edge lo d g k < edge lo d g (Suc k)"
proof -
  have "(int k * d + int g) div int g \<le> (int (Suc k) * d) div int g"
    using assms by (intro zdiv_mono1) (auto simp: algebra_simps)
  then show ?thesis using assms(1) by (simp add: edge_def)
qed

lemma tile_edges:
  assumes "0 < g" and "0 \<le> Dx b" and "0 \<le> Dy b"
  shows "sliderTileRect b g idx =
    \<lparr>minX = edge (minX b) (Dx b) g (idx mod g), minY = edge (minY b) (Dy b) g (idx div g),
     maxX = edge (minX b) (Dx b) g (Suc (idx mod g)), maxY = edge (minY b) (Dy b) g (Suc (idx div g))\<rparr>"
proof -
  have q: "go_quot (int k * d) (int g) = (int k * d) div int g"
    "go_quot ((int k + 1) * d) (int g) = ((int k + 1) * d) div int g" if "0 \<le> d" for k d
    using assms(1) that by (simp_all add: go_quot_nonneg)
  show ?thesis
    using edge_mono [OF assms(2), of "idx mod g" "Suc (idx mod g)" "minX b" g]
      edge_mono [OF assms(3), of "idx div g" "Suc (idx div g)" "minY b" g] q [OF assms(2)] q [OF assms(3)]
    by (simp add: sliderTileRect_def mkRect_def Let_def edge_def min_def max_def add.commute)
qed

lemma edge_cell:
  assumes "0 < g" and "0 \<le> d" and "lo \<le> x" and "x < lo + d"
  shows "\<exists>!k. k < g \<and> edge lo d g k \<le> x \<and> x < edge lo d g (Suc k)"
proof -
  define k where "k = (LEAST j. x < edge lo d g (Suc j))"
  have ex: "x < edge lo d g (Suc (g - 1))" using assms by simp
  have k: "x < edge lo d g (Suc k)" unfolding k_def by (rule LeastI) (rule ex)
  have "k \<le> g - 1" unfolding k_def by (rule Least_le) (rule ex)
  moreover have "edge lo d g k \<le> x"
  proof (cases k)
    case (Suc j)
    then have "j < (LEAST j. x < edge lo d g (Suc j))" by (simp add: k_def)
    then have "\<not> x < edge lo d g (Suc j)" by (rule not_less_Least)
    then show ?thesis using Suc by simp
  qed (use assms(3) in simp)
  moreover have "i = j" if "edge lo d g i \<le> x" "x < edge lo d g (Suc i)" "edge lo d g j \<le> x" "x < edge lo d g (Suc j)" for i j
    using that edge_mono [OF assms(2), of "Suc i" j lo g] edge_mono [OF assms(2), of "Suc j" i lo g]
    by (cases i j rule: linorder_cases) auto
  ultimately show ?thesis using k assms(1) by (intro ex1I [of _ k]) auto
qed

text \<open>
  The tiles partition the image: for every grid size, every pixel of the image lies in exactly
  one of the \<open>g * g\<close> tiles.
\<close>

theorem slider_tiles_partition:
  assumes "0 < g" and "inside b x y"
  shows "\<exists>!idx. idx < g * g \<and> inside (sliderTileRect b g idx) x y"
proof -
  have d: "0 \<le> Dx b" "0 \<le> Dy b" using assms(2) by (simp_all add: inside_def)
  note tile = tile_edges [OF assms(1) d]
  obtain c where c: "c < g" "edge (minX b) (Dx b) g c \<le> x" "x < edge (minX b) (Dx b) g (Suc c)"
    "\<And>k. k < g \<and> edge (minX b) (Dx b) g k \<le> x \<and> x < edge (minX b) (Dx b) g (Suc k) \<Longrightarrow> k = c"
    using edge_cell [OF assms(1) d(1), of "minX b" x] assms(2) by (auto simp: inside_def)
  obtain r where r: "r < g" "edge (minY b) (Dy b) g r \<le> y" "y < edge (minY b) (Dy b) g (Suc r)"
    "\<And>k. k < g \<and> edge (minY b) (Dy b) g k \<le> y \<and> y < edge (minY b) (Dy b) g (Suc k) \<Longrightarrow> k = r"
    using edge_cell [OF assms(1) d(2), of "minY b" y] assms(2) by (auto simp: inside_def)
  show ?thesis
  proof (rule ex1I [of _ "r * g + c"])
    have "r * g + c < Suc r * g" using c(1) by simp
    also have "\<dots> \<le> g * g" using r(1) by (intro mult_right_mono) auto
    finally have "r * g + c < g * g" .
    moreover have "(r * g + c) div g = r" "(r * g + c) mod g = c" using c(1) by simp_all
    ultimately show "r * g + c < g * g \<and> inside (sliderTileRect b g (r * g + c)) x y"
      unfolding tile inside_def using c(2,3) r(2,3) by simp
    fix idx assume i: "idx < g * g \<and> inside (sliderTileRect b g idx) x y"
    then have "idx div g < g" "idx mod g < g" using assms(1) by (simp_all add: less_mult_imp_div_less)
    then have "idx mod g = c" "idx div g = r" 
      using i c(4) [of "idx mod g"] r(4) [of "idx div g"] unfolding tile inside_def by simp_all
    then show "idx = r * g + c" by (metis div_mult_mod_eq)
  qed
qed

theorem slider_tiles_partition_witness:
  "\<exists>!idx. idx < 3 * 3 \<and> inside (sliderTileRect demoBounds 3 idx) 6 2"
  by (rule slider_tiles_partition) (simp_all add: inside_def demoBounds_def)

section \<open>Samples\<close>

lemma quot_below:
  fixes a s d :: int
  assumes "0 \<le> a" "a < d" "0 < s"
  shows "0 \<le> go_quot (a * s) d" "go_quot (a * s) d < s"
proof -
  have d: "0 < d" using assms by simp
  have "a * s < s * d" unfolding mult.commute [of s d] using assms by (intro mult_strict_right_mono)
  moreover have "a * s div d * d \<le> a * s"
    using div_mult_mod_eq [of "a * s" d] pos_mod_sign [OF d, of "a * s"] by linarith
  ultimately have "a * s div d * d < s * d" by linarith
  then have "a * s div d < s" using d by (simp only: mult_less_cancel_right_pos)
  then show "go_quot (a * s) d < s" "0 \<le> go_quot (a * s) d"
    using assms d by (simp_all add: go_quot_nonneg pos_imp_zdiv_nonneg_iff)
qed

lemma sample_in_source:
  assumes "inside d x y" and "minX s < maxX s" and "minY s < maxY s"
  shows "inside s (fst (samplePoint d s x y)) (snd (samplePoint d s x y))"
proof -
  have "0 \<le> x - minX d" "x - minX d < Dx d" "0 \<le> y - minY d" "y - minY d < Dy d"
    using assms(1) by (simp_all add: inside_def)
  then show ?thesis
    using quot_below [of "x - minX d" "Dx d" "Dx s"] quot_below [of "y - minY d" "Dy d" "Dy s"] assms(2,3)
    by (simp add: samplePoint_def Let_def inside_def)
qed

lemma tile_in_image:
  assumes "0 < g" and "int g \<le> Dx b" and "int g \<le> Dy b" and "idx < g * g"
  shows "minX (sliderTileRect b g idx) < maxX (sliderTileRect b g idx)"
    and "minY (sliderTileRect b g idx) < maxY (sliderTileRect b g idx)"
    and "inside (sliderTileRect b g idx) x y \<Longrightarrow> inside b x y"
proof -
  have d: "0 \<le> Dx b" "0 \<le> Dy b" using assms by simp_all
  have k: "idx mod g < g" "idx div g < g" using assms(1,4) by (simp_all add: less_mult_imp_div_less)
  note tile = tile_edges [OF assms(1) d]
  show "minX (sliderTileRect b g idx) < maxX (sliderTileRect b g idx)"
    "minY (sliderTileRect b g idx) < maxY (sliderTileRect b g idx)"
    unfolding tile using edge_strict [OF assms(1,2)] edge_strict [OF assms(1,3)] by simp_all
  show "inside b x y" if "inside (sliderTileRect b g idx) x y"
    using that edge_mono [OF d(1), of 0 "idx mod g" "minX b" g] edge_mono [OF d(2), of 0 "idx div g" "minY b" g]
      edge_mono [OF d(1), of "Suc (idx mod g)" g "minX b" g] edge_mono [OF d(2), of "Suc (idx div g)" g "minY b" g]
      k assms(1) unfolding tile inside_def by simp
qed

definition sampleInside :: "rect \<Rightarrow> pixel \<Rightarrow> bool" where
  "sampleInside b = (\<lambda>(d, s, x, y). inside b (fst (samplePoint d s x y)) (snd (samplePoint d s x y)))"

lemma sampleInsideI:
  assumes "0 < g" and "int g \<le> Dx b" and "int g \<le> Dy b" and "src < g * g"
    and "inside d x y"
  shows "sampleInside b (d, sliderTileRect b g src, x, y)"
  using sample_in_source [OF assms(5) tile_in_image(1,2) [OF assms(1-4)]] tile_in_image(3) [OF assms(1-4)]
  by (simp add: sampleInside_def)

lemma row_bound: "row < g \<Longrightarrow> col < g \<Longrightarrow> row * g + col < g * (g :: nat)"
  using mult_right_mono [of "Suc row" g g] by simp

lemma same_row:
  assumes "0 < g" and "0 \<le> Dx b" and "0 \<le> Dy b" and "c < g" and "c' < g"
  shows "minY (sliderTileRect b g (r * g + c)) = minY (sliderTileRect b g (r * g + c'))"
    and "minX (sliderTileRect b g (r * g + c)) = minX (sliderTileRect b g (r' * g + c))"
  using assms by (simp_all add: tile_edges)

lemma horizontal_seam:
  assumes "(p, q) \<in> set (horizontalSeams b g m)"
  obtains row col y where "row < g" "Suc col < g"
    "p = (sliderTileRect b g (row * g + col), sliderTileRect b g (m ! (row * g + col)),
          maxX (sliderTileRect b g (row * g + col)) - 1, minY (sliderTileRect b g (row * g + col)) + int y)"
    "q = (sliderTileRect b g (row * g + Suc col), sliderTileRect b g (m ! (row * g + Suc col)),
          minX (sliderTileRect b g (row * g + Suc col)), minY (sliderTileRect b g (row * g + col)) + int y)"
    "int y < Dy (sliderTileRect b g (row * g + col))" "int y < Dy (sliderTileRect b g (row * g + Suc col))"
proof -
  from assms show thesis
    unfolding horizontalSeams_def Let_def
    by clarsimp (rule that, auto split: if_splits)
qed

lemma vertical_seam:
  assumes "(p, q) \<in> set (verticalSeams b g m)"
  obtains row col x where "Suc row < g" "col < g"
    "p = (sliderTileRect b g (row * g + col), sliderTileRect b g (m ! (row * g + col)),
          minX (sliderTileRect b g (row * g + col)) + int x, maxY (sliderTileRect b g (row * g + col)) - 1)"
    "q = (sliderTileRect b g (Suc row * g + col), sliderTileRect b g (m ! (Suc row * g + col)),
          minX (sliderTileRect b g (row * g + col)) + int x, minY (sliderTileRect b g (Suc row * g + col)))"
    "int x < Dx (sliderTileRect b g (row * g + col))" "int x < Dx (sliderTileRect b g (Suc row * g + col))"
proof -
  from assms show thesis
    unfolding verticalSeams_def Let_def
    by clarsimp (rule that, auto split: if_splits)
qed

text \<open>
  No sample outside the image. When the image has at least one pixel per tile in both
  directions and the mapping names tiles, every pixel that the seam scores look up, on both sides
  of every horizontal and vertical seam, lies inside the image.
\<close>

theorem slider_samples_inside:
  assumes "0 < g" and "int g \<le> Dx b" and "int g \<le> Dy b"
    and "length m = g * g" and "list_all (\<lambda>i. i < g * g) m"
  shows "list_all (\<lambda>(p, q). sampleInside b p \<and> sampleInside b q) (horizontalSeams b g m @ verticalSeams b g m)"
proof -
  have d: "0 \<le> Dx b" "0 \<le> Dy b" using assms by simp_all
  have src: "m ! i < g * g" if "i < g * g" for i using assms(4,5) that by (simp add: list_all_length)
  note ok = sampleInsideI [OF assms(1-3) src] and tl = tile_in_image(1,2) [OF assms(1-3)]
  have "sampleInside b p \<and> sampleInside b q" if "(p, q) \<in> set (horizontalSeams b g m)" for p q
    using that
  proof (rule horizontal_seam)
    fix row col y
    let ?l = "sliderTileRect b g (row * g + col)" and ?r = "sliderTileRect b g (row * g + Suc col)"
    assume h: "row < g" "Suc col < g" "int y < Dy ?l" "int y < Dy ?r"
      "p = (?l, sliderTileRect b g (m ! (row * g + col)), maxX ?l - 1, minY ?l + int y)"
      "q = (?r, sliderTileRect b g (m ! (row * g + Suc col)), minX ?r, minY ?l + int y)"
    have i: "row * g + col < g * g" "row * g + Suc col < g * g" 
      using row_bound [of row g col] row_bound [of row g "Suc col"] h(1,2) by simp_all
    have "minY ?l = minY ?r" using same_row(1) [OF assms(1) d] h(2) by simp
    then have "inside ?l (maxX ?l - 1) (minY ?l + int y)" "inside ?r (minX ?r) (minY ?l + int y)"
      using h(3,4) tl [OF i(1)] tl [OF i(2)] by (auto simp: inside_def)
    then show ?thesis using ok i h(5,6) by simp
  qed
  moreover have "sampleInside b p \<and> sampleInside b q" if "(p, q) \<in> set (verticalSeams b g m)" for p q
    using that
  proof (rule vertical_seam)
    fix row col x
    let ?t = "sliderTileRect b g (row * g + col)" and ?b = "sliderTileRect b g (Suc row * g + col)"
    assume h: "Suc row < g" "col < g" "int x < Dx ?t" "int x < Dx ?b"
      "p = (?t, sliderTileRect b g (m ! (row * g + col)), minX ?t + int x, maxY ?t - 1)"
      "q = (?b, sliderTileRect b g (m ! (Suc row * g + col)), minX ?t + int x, minY ?b)"
    have i: "row * g + col < g * g" "Suc row * g + col < g * g"
      using row_bound [of row g col] row_bound [of "Suc row" g col] h(1,2) by simp_all
    have "minX ?t = minX ?b" by (rule same_row(2) [OF assms(1) d h(2,2)])
    then have "inside ?t (minX ?t + int x) (maxY ?t - 1)" "inside ?b (minX ?t + int x) (minY ?b)"
      using h(3,4) tl [OF i(1)] tl [OF i(2)] by (auto simp: inside_def)
    then show ?thesis using ok i h(5,6) by simp
  qed
  ultimately show ?thesis by (auto simp: list_all_iff)
qed

theorem slider_samples_inside_witness:
  "list_all (\<lambda>(p, q). sampleInside demoBounds p \<and> sampleInside demoBounds q)
     (horizontalSeams demoBounds 2 [3, 1, 2, 0] @ verticalSeams demoBounds 2 [3, 1, 2, 0])"
  by (rule slider_samples_inside) (simp_all add: demoBounds_def)

end
