(* ===== verification/SliderSolve.thy ===== *)
theory SliderSolve
  imports SliderGeometry
begin

text \<open>The conversation with VK: which requests the solver sends, in which order, and when it stops.\<close>

definition checkOf :: "sliderCandidate \<Rightarrow> vkRequest" where
  "checkOf c = Check (Index c) (encodeSliderAnswer (ActiveSteps c))"

text \<open>The answer VK gave to the last of the first \<open>n\<close> guesses accepts it with this token.\<close>

definition acceptedAt :: "vkReqFunc \<Rightarrow> vkRequest list \<Rightarrow> sliderCandidate list \<Rightarrow> nat \<Rightarrow> string \<Rightarrow> bool" where
  "acceptedAt vkReq hist cs n tok \<longleftrightarrow> 0 < n \<and> tok \<noteq> [] \<and>
     (case vkReq (hist @ map checkOf (take (n - 1) cs)) (checkOf (cs ! (n - 1))) of
        Inl _ \<Rightarrow> False
      | Inr resp \<Rightarrow> (case as_obj (jget resp ''response'') of None \<Rightarrow> False
        | Some o1 \<Rightarrow> str_or_empty (jget o1 ''status'') = ''OK'' \<and> str_or_empty (jget o1 ''success_token'') = tok))"

lemma acceptedAt_Cons: "acceptedAt vkReq (hist @ [checkOf c]) cs n tok \<Longrightarrow> acceptedAt vkReq hist (c # cs) (Suc n) tok"
  by (cases n) (simp_all add: acceptedAt_def)

lemma tryGuesses_trace:
  assumes "tryGuesses vkReq k hist cs = (hist', r)"
  shows "\<exists>n \<le> length cs. hist' = hist @ map checkOf (take n cs)
    \<and> (case r of Inr tok \<Rightarrow> acceptedAt vkReq hist cs n tok | Inl (AllRejected j) \<Rightarrow> n = length cs \<and> j = k | Inl _ \<Rightarrow> 0 < n)"
  using assms
proof (induction cs arbitrary: hist)
  case Nil
  then show ?case by auto
next
  case (Cons c cs)
  have stop: ?case if "hist' = hist @ [checkOf c]" "case r of Inr tok \<Rightarrow> acceptedAt vkReq hist (c # cs) 1 tok
      | Inl (AllRejected j) \<Rightarrow> False | Inl _ \<Rightarrow> True"
    using that by (intro exI [of _ 1]) (auto split: sum.splits sliderError.splits)
  show ?case
  proof (cases "vkReq hist (checkOf c)")
    case (Inl e)
    then show ?thesis using Cons.prems stop by (auto simp: checkOf_def [symmetric] Let_def)
  next
    case resp: (Inr resp)
    show ?thesis
    proof (cases "as_obj (jget resp ''response'')")
      case None
      then show ?thesis using Cons.prems stop resp by (auto simp: checkOf_def [symmetric] Let_def)
    next
      case (Some o1)
      define st where "st = str_or_empty (jget o1 ''status'')"
      show ?thesis
      proof (cases "st = ''OK'' \<or> st = ''ERROR_LIMIT''")
        case True
        then show ?thesis using Cons.prems stop resp Some
          by (auto simp: checkOf_def [symmetric] Let_def st_def acceptedAt_def split: if_splits)
      next
        case False
        then have rec: "tryGuesses vkReq k (hist @ [checkOf c]) cs = (hist', r)"
          using Cons.prems resp Some by (auto simp: checkOf_def [symmetric] Let_def st_def)
        have "\<exists>n \<le> length cs. hist' = (hist @ [checkOf c]) @ map checkOf (take n cs)
          \<and> (case r of Inr tok \<Rightarrow> acceptedAt vkReq (hist @ [checkOf c]) cs n tok
             | Inl (AllRejected j) \<Rightarrow> n = length cs \<and> j = k | Inl _ \<Rightarrow> 0 < n)"
          by (rule Cons.IH [OF rec])
        then obtain n where n: "n \<le> length cs" "hist' = (hist @ [checkOf c]) @ map checkOf (take n cs)"
          "case r of Inr tok \<Rightarrow> acceptedAt vkReq (hist @ [checkOf c]) cs n tok
             | Inl (AllRejected j) \<Rightarrow> n = length cs \<and> j = k | Inl _ \<Rightarrow> 0 < n" by blast
        then show ?thesis
          by (intro exI [of _ "Suc n"]) (auto intro: acceptedAt_Cons split: sum.splits sliderError.splits)
      qed
    qed
  qed
qed

lemma content_requests:
  assumes "requestSliderContentWithFallback vkReq hist s = (hist', r)"
  shows "\<exists>gs. hist' = hist @ gs \<and> gs \<noteq> [] \<and> length gs \<le> 2 \<and> list_all (\<lambda>q. q = GetContent None \<or> q = GetContent (Some s)) gs
    \<and> (\<forall>resp. r = Inr resp \<longrightarrow> vkReq (hist @ butlast gs) (last gs) = Inr resp)"
  using assms by (auto simp: requestSliderContentWithFallback_def Let_def split: if_splits sum.splits)

lemma acceptedAt_take: "n \<le> k \<Longrightarrow> acceptedAt vkReq hist (take k cs) n tok = acceptedAt vkReq hist cs n tok"
  by (cases "0 < n") (auto simp: acceptedAt_def min_def split: sum.splits option.splits)

text \<open>
  C12. The conversation. The solver announces itself, asks for the content once or twice, and then
  submits the candidates from the best on, one after the other: never more than VK grants, never
  more than there are, and nothing after an acceptance. It returns a token only if VK accepted the
  last guess it sent with that token, and reports all guesses rejected only after sending them all.
\<close>

theorem slider_conversation:
  fixes textS :: "nat list \<Rightarrow> 'f :: {linorder, zero}"
  assumes "solveSliderCaptcha textS dec mar unm vkReq hist settings = (hist', r)"
  shows "\<exists>gs. gs \<noteq> [] \<and> length gs \<le> 2 \<and> list_all (\<lambda>q. \<exists>s. q = GetContent s) gs \<and>
    (hist' = hist @ ComponentDone # gs \<and> (\<exists>e. r = Inl e)
     \<or> (\<exists>resp content cands n. vkReq (hist @ ComponentDone # butlast gs) (last gs) = Inr resp
          \<and> parseSliderContent dec resp = Inr content
          \<and> rankSliderCandidates textS (Picture content) (Size content) (Steps content) = Inr cands
          \<and> n \<le> length cands \<and> int n \<le> max 0 (Attempts content)
          \<and> hist' = hist @ ComponentDone # gs @ map checkOf (take n cands)
          \<and> (case r of Inr tok \<Rightarrow> acceptedAt vkReq (hist @ ComponentDone # gs) cands n tok
             | Inl (AllRejected j) \<Rightarrow> n = j \<and> int n = max 0 (min (Attempts content) (int (length cands)))
             | Inl _ \<Rightarrow> True)))"
proof -
  let ?h = "hist @ [ComponentDone]"
  obtain h2 r2 where req: "requestSliderContentWithFallback vkReq ?h (extractSliderSettings mar unm settings) = (h2, r2)"
    by force
  obtain gs where gs: "h2 = ?h @ gs" "gs \<noteq> []" "length gs \<le> 2" "list_all (\<lambda>q. \<exists>s. q = GetContent s) gs"
    "\<And>resp. r2 = Inr resp \<Longrightarrow> vkReq (hist @ ComponentDone # butlast gs) (last gs) = Inr resp"
    using content_requests [OF req] by (auto simp: list_all_iff)
  show ?thesis
  proof (cases "\<exists>resp content cands. r2 = Inr resp \<and> parseSliderContent dec resp = Inr content
      \<and> rankSliderCandidates textS (Picture content) (Size content) (Steps content) = Inr cands")
    case False
    then have "h2 = hist' \<and> (\<exists>e. r = Inl e)"
      using assms req by (auto simp: solveSliderCaptcha_def Let_def split: sum.splits)
    then show ?thesis using gs by auto
  next
    case True
    then obtain resp content cands where ok: "r2 = Inr resp" "parseSliderContent dec resp = Inr content"
      "rankSliderCandidates textS (Picture content) (Size content) (Steps content) = Inr cands" by blast
    define mt where "mt = nat (if Attempts content > int (length cands) then int (length cands) else Attempts content)"
    have "tryGuesses vkReq mt h2 (take mt cands) = (hist', r)"
      using assms req ok by (simp add: solveSliderCaptcha_def Let_def mt_def)
    from tryGuesses_trace [OF this] obtain n where n: "n \<le> length (take mt cands)"
      "hist' = h2 @ map checkOf (take n (take mt cands))"
      "case r of Inr tok \<Rightarrow> acceptedAt vkReq h2 (take mt cands) n tok
       | Inl (AllRejected j) \<Rightarrow> n = length (take mt cands) \<and> j = mt | Inl _ \<Rightarrow> 0 < n" by blast
    have le: "n \<le> mt" "n \<le> length cands" "mt \<le> length cands" "int n \<le> max 0 (Attempts content)"
      using n(1) by (auto simp: mt_def split: if_splits)
    have "hist' = hist @ ComponentDone # gs @ map checkOf (take n cands)" using n(2) gs(1) le by (simp add: min_def)
    moreover have "int mt = max 0 (min (Attempts content) (int (length cands)))" by (simp add: mt_def)
    moreover have "length (take mt cands) = mt" using le by simp
    ultimately have "hist' = hist @ ComponentDone # gs @ map checkOf (take n cands)
      \<and> (case r of Inr tok \<Rightarrow> acceptedAt vkReq (hist @ ComponentDone # gs) cands n tok
       | Inl (AllRejected j) \<Rightarrow> n = j \<and> int n = max 0 (min (Attempts content) (int (length cands))) | Inl _ \<Rightarrow> True)"
      using n(3) gs(1) acceptedAt_take [OF le(1)]
      by (cases r) (simp_all split: sliderError.splits del: length_take)
    then show ?thesis using gs(2-4) gs(5) [OF ok(1)] ok(2,3) le
      by (intro exI [of _ gs] conjI disjI2 exI [of _ resp] exI [of _ content] exI [of _ cands] exI [of _ n]) simp_all
  qed
qed

text \<open>A VK that serves a 2 by 2 puzzle and accepts the guess at position 1.\<close>

definition demoVK :: vkReqFunc where
  "demoVK hist q = (case q of
     ComponentDone \<Rightarrow> Inl ''timeout''
   | GetContent s \<Rightarrow> Inr [(''response'', JObj [(''status'', JStr ''OK''), (''extension'', JStr ''JPEG''),
       (''image'', JStr ''x''), (''steps'', JArr [JNum 2, JNum 0, JNum 3, JNum 1, JNum 2])])]
   | Check i a \<Rightarrow> Inr [(''response'', JObj (if i = 1 then [(''status'', JStr ''OK''), (''success_token'', JStr ''t'')]
       else [(''status'', JStr ''ERROR'')]))])"

theorem slider_conversation_witness:
  "\<exists>gs. gs \<noteq> [] \<and> length gs \<le> 2 \<and> (\<exists>rest. fst (solveSliderCaptcha (\<lambda>_. 0 :: nat) (\<lambda>_. Some demoImage)
     (\<lambda>_. None) (\<lambda>_. None) demoVK [] None) = ComponentDone # gs @ rest)"
proof -
  obtain h r where s: "solveSliderCaptcha (\<lambda>_. 0 :: nat) (\<lambda>_. Some demoImage)
     (\<lambda>_. None) (\<lambda>_. None) demoVK [] None = (h, r)" by force
  from slider_conversation [OF s] show ?thesis
    unfolding s fst_conv append_Nil
  proof (elim exE conjE disjE)
    fix gs e assume "gs \<noteq> []" "length gs \<le> 2" "h = ComponentDone # gs"
    then show "\<exists>gs. gs \<noteq> [] \<and> length gs \<le> 2 \<and> (\<exists>rest. h = ComponentDone # gs @ rest)"
      by (intro exI [of _ gs] conjI exI [of _ "[]"]) simp_all
  next
    fix gs cands n assume "gs \<noteq> []" "length gs \<le> 2" "h = ComponentDone # gs @ map checkOf (take n cands)"
    then show "\<exists>gs. gs \<noteq> [] \<and> length gs \<le> 2 \<and> (\<exists>rest. h = ComponentDone # gs @ rest)"
      by (intro exI [of _ gs] conjI exI [of _ "map checkOf (take n cands)"])
  qed
qed

end
