(* ===== verification/NetAddr.thy ===== *)
theory NetAddr
  imports Encoding Bytes
begin

text \<open>
  The fragment of \<open>net\<close> and \<open>net/netip\<close> that the sources use: addresses with their classification
  (on an IPv4-mapped IPv6 address the classifiers look at the IPv4 address inside, except
  \<open>IsUnspecified\<close>), and host:port strings. Parsing and printing of address literals is a
  parameter of the definitions that need it.
\<close>

datatype ipaddr = V4 "32 word" | V6 "128 word" string

fun Is4In6 :: "ipaddr \<Rightarrow> bool" where
  "Is4In6 (V6 w z) \<longleftrightarrow> drop_bit 32 w = 0xFFFF"
| "Is4In6 (V4 w) \<longleftrightarrow> False"

fun Unmap :: "ipaddr \<Rightarrow> ipaddr" where
  "Unmap (V6 w z) = (if Is4In6 (V6 w z) then V4 (ucast w) else V6 w z)"
| "Unmap (V4 w) = V4 w"

fun loopback_bits :: "ipaddr \<Rightarrow> bool" where
  "loopback_bits (V4 w) \<longleftrightarrow> drop_bit 24 w = 127"
| "loopback_bits (V6 w z) \<longleftrightarrow> w = 1"

fun linklocal_bits :: "ipaddr \<Rightarrow> bool" where
  "linklocal_bits (V4 w) \<longleftrightarrow> drop_bit 16 w = 0xA9FE"
| "linklocal_bits (V6 w z) \<longleftrightarrow> drop_bit 112 w AND 0xFFC0 = 0xFE80"

fun linklocal_mcast_bits :: "ipaddr \<Rightarrow> bool" where
  "linklocal_mcast_bits (V4 w) \<longleftrightarrow> drop_bit 8 w = 0xE00000"
| "linklocal_mcast_bits (V6 w z) \<longleftrightarrow> drop_bit 112 w AND 0xFF0F = 0xFF02"

definition IsLoopback :: "ipaddr \<Rightarrow> bool" where "IsLoopback a \<longleftrightarrow> loopback_bits (Unmap a)"
definition IsLinkLocalUnicast :: "ipaddr \<Rightarrow> bool" where "IsLinkLocalUnicast a \<longleftrightarrow> linklocal_bits (Unmap a)"
definition IsLinkLocalMulticast :: "ipaddr \<Rightarrow> bool" where "IsLinkLocalMulticast a \<longleftrightarrow> linklocal_mcast_bits (Unmap a)"
definition IsUnspecified :: "ipaddr \<Rightarrow> bool" where "IsUnspecified a \<longleftrightarrow> a = V4 0 \<or> a = V6 0 []"

lemma Unmap_Unmap [simp]: "Unmap (Unmap a) = Unmap a"
  by (cases a) simp_all

lemma class_Unmap [simp]:
  "IsLoopback (Unmap a) = IsLoopback a" "IsLinkLocalUnicast (Unmap a) = IsLinkLocalUnicast a"
  "IsLinkLocalMulticast (Unmap a) = IsLinkLocalMulticast a"
  by (simp_all add: IsLoopback_def IsLinkLocalUnicast_def IsLinkLocalMulticast_def)

section \<open>host:port\<close>

definition JoinHostPort :: "string \<Rightarrow> string \<Rightarrow> string" where
  "JoinHostPort host port =
     (if CHR '':'' \<in> set host then CHR ''['' # host @ '']:'' @ port else host @ CHR '':'' # port)"

definition LastIndex :: "char \<Rightarrow> string \<Rightarrow> nat option" where
  "LastIndex c s = (if c \<in> set s then Some (length s - 1 - length (takeWhile (\<lambda>d. d \<noteq> c) (rev s))) else None)"

text \<open>\<open>SplitHostPort\<close> with its checks in order; every error is \<open>None\<close>.\<close>

definition SplitHostPort :: "string \<Rightarrow> (string \<times> string) option" where
  "SplitHostPort s =
     (case LastIndex (CHR '':'') s of None \<Rightarrow> None
      | Some i \<Rightarrow>
        let port = drop (Suc i) s in
        if hd s = CHR ''[''
        then (if CHR '']'' \<notin> set s then None
              else let e = length (takeWhile (\<lambda>d. d \<noteq> CHR '']'') s) in
                if Suc e \<noteq> i then None
                else if CHR ''['' \<in> set (drop 1 s) \<or> CHR '']'' \<in> set (drop (Suc e) s) then None
                else Some (drop 1 (take e s), port))
        else let host = take i s in
          if CHR '':'' \<in> set host then None
          else if CHR ''['' \<in> set s \<or> CHR '']'' \<in> set s then None
          else Some (host, port))"

lemma LastIndex_append:
  assumes "c \<notin> set p"
  shows "LastIndex c (h @ c # p) = Some (length h)"
proof -
  have "takeWhile (\<lambda>d. d \<noteq> c) (rev (h @ c # p)) = rev p"
    using assms by (simp add: takeWhile_append takeWhile_eq_all_conv)
  then show ?thesis by (simp add: LastIndex_def)
qed

text \<open>Splitting undoes joining for a host without brackets and a port without brackets and colons.\<close>

lemma Split_Join:
  assumes "CHR ''['' \<notin> set host" "CHR '']'' \<notin> set host" and "set port \<inter> {CHR '':'', CHR ''['', CHR '']''} = {}"
  shows "SplitHostPort (JoinHostPort host port) = Some (host, port)"
proof (cases "CHR '':'' \<in> set host")
  case True
  have j: "JoinHostPort host port = (CHR ''['' # host @ '']'') @ CHR '':'' # port" using True by (simp add: JoinHostPort_def)
  have "LastIndex (CHR '':'') ((CHR ''['' # host @ '']'') @ CHR '':'' # port) = Some (length (CHR ''['' # host @ '']''))"
    using assms(3) by (intro LastIndex_append) auto
  moreover have "takeWhile (\<lambda>d. d \<noteq> CHR '']'') (CHR ''['' # host @ '']:'' @ port) = CHR ''['' # host"
    using assms(2) by (simp add: takeWhile_append takeWhile_eq_all_conv)
  ultimately show ?thesis using assms by (auto simp: SplitHostPort_def j Let_def)
next
  case False
  have "LastIndex (CHR '':'') (host @ CHR '':'' # port) = Some (length host)" using assms(3) by (intro LastIndex_append) auto
  moreover have "hd (host @ CHR '':'' # port) \<noteq> CHR ''[''" using assms(1) by (cases host) auto
  ultimately show ?thesis using False assms by (auto simp: SplitHostPort_def JoinHostPort_def Let_def)
qed

lemma itoa_no_punct: "set (Itoa (int n)) \<inter> {CHR '':'', CHR ''['', CHR '']''} = {}"
proof -
  have "\<forall>c \<in> set (Itoa (int n)). is_digit c" using itoa_nat_digits [of n] by (simp add: Itoa_def list_all_iff)
  then show ?thesis by (auto simp: is_digit_def)
qed

end
