(* ===== verification/Socks.thy ===== *)
theory Socks
  imports NetAddr Systems
begin

text \<open>
  \<open>cmd/vk-turn-socks/dial.go\<close>, \<open>socks.go\<close>, \<open>httpproxy.go\<close> and \<open>logfilter.go\<close>: the local SOCKS5 and
  HTTP front end. Every
  outgoing connection goes through \<open>resolve\<close>, which holds the loop guard. Parameters: the parser and
  printer of address literals, the tunnel's resolver, and the netstack dial calls. What a SOCKS
  client sends is the list of bytes until its end of stream; a handler returns what it writes back
  and what it goes on to do.
\<close>

section \<open>The dialer\<close>

record tunnelDialer =
  selfHosts :: "string set"

definition newTunnelDialer :: "string list \<Rightarrow> tunnelDialer" where
  "newTunnelDialer selfAddrs = \<lparr>selfHosts = {a. a \<in> set selfAddrs \<and> a \<noteq> []}\<rparr>"

datatype dialError =
  OwnListener | ResolveFailed | NoRoutable | UnsupportedNetwork | BadAddress | BadPort | DialFailed

type_synonym addrPort = "ipaddr \<times> 16 word"

record netEnv =
  ParseAddr :: "string \<Rightarrow> ipaddr option"
  LookupHost :: "string \<Rightarrow> string list option"
  dialTCP :: "addrPort \<Rightarrow> bool"
  dialUDP :: "addrPort \<Rightarrow> bool"

definition blocked :: "ipaddr \<Rightarrow> bool" where
  "blocked ip \<longleftrightarrow> IsLoopback ip \<or> IsUnspecified ip \<or> IsLinkLocalUnicast ip \<or> IsLinkLocalMulticast ip"

definition resolve :: "netEnv \<Rightarrow> tunnelDialer \<Rightarrow> string \<Rightarrow> int \<Rightarrow> dialError + addrPort list" where
  "resolve E t host port =
     (if JoinHostPort host (Itoa port) \<in> selfHosts t then Inl OwnListener
      else case (case ParseAddr E host of Some a \<Rightarrow> Some [a]
                 | None \<Rightarrow> map_option (\<lambda>hs. List.map_filter (ParseAddr E) hs) (LookupHost E host)) of
        None \<Rightarrow> Inl ResolveFailed
      | Some ips \<Rightarrow>
        let out = map (\<lambda>ip. (Unmap ip, word_of_int port)) (filter (\<lambda>ip. \<not> blocked ip) ips)
        in if out = [] then Inl NoRoutable else Inr out)"

text \<open>The dial loops: the first target that connects, else the last error.\<close>

fun firstDial :: "(addrPort \<Rightarrow> bool) \<Rightarrow> addrPort list \<Rightarrow> dialError + addrPort" where
  "firstDial dial [] = Inl DialFailed"
| "firstDial dial (ap # aps) = (if dial ap then Inr ap else firstDial dial aps)"

definition DialContext :: "netEnv \<Rightarrow> tunnelDialer \<Rightarrow> string \<Rightarrow> string \<Rightarrow> dialError + addrPort" where
  "DialContext E t network address =
     (if network \<notin> {''tcp'', ''tcp4'', ''tcp6''} then Inl UnsupportedNetwork
      else case SplitHostPort address of None \<Rightarrow> Inl BadAddress
      | Some (host, portStr) \<Rightarrow>
        (case ParseInt64 portStr of None \<Rightarrow> Inl BadPort
         | Some port \<Rightarrow>
           (case resolve E t host port of Inl e \<Rightarrow> Inl e | Inr targets \<Rightarrow> firstDial (dialTCP E) targets)))"

definition DialUDP :: "netEnv \<Rightarrow> tunnelDialer \<Rightarrow> string \<Rightarrow> int \<Rightarrow> dialError + addrPort" where
  "DialUDP E t host port =
     (case resolve E t host port of Inl e \<Rightarrow> Inl e | Inr targets \<Rightarrow> firstDial (dialUDP E) targets)"

definition isLoopbackHost :: "netEnv \<Rightarrow> string \<Rightarrow> bool" where
  "isLoopbackHost E host = (case ParseAddr E host of Some a \<Rightarrow> IsLoopback a | None \<Rightarrow> ToLower host = ''localhost'')"

section \<open>SOCKS5 over TCP\<close>

definition string_of_bytes :: "bytes \<Rightarrow> string" where
  "string_of_bytes bs = map (\<lambda>b. char_of (unat b)) bs"

definition ReadFull :: "nat \<Rightarrow> bytes \<Rightarrow> (bytes \<times> bytes) option" where
  "ReadFull n inp = (if length inp < n then None else Some (take n inp, drop n inp))"

definition port_of :: "byte \<Rightarrow> byte \<Rightarrow> int" where
  "port_of hi lo = int (unat hi) * 256 + int (unat lo)"

text \<open>The address of a request, printed as a host string by \<open>ipString\<close>, with what follows it.\<close>

definition readSocksAddr :: "(bytes \<Rightarrow> string) \<Rightarrow> byte \<Rightarrow> bytes \<Rightarrow> (string \<times> int \<times> bytes) option" where
  "readSocksAddr ipString atyp inp =
     (let withPort = (\<lambda>host rest. case ReadFull 2 rest of None \<Rightarrow> None
            | Some (pb, rest') \<Rightarrow> Some (host, port_of (pb ! 0) (pb ! 1), rest'))
      in if atyp = 0x01 then Option.bind (ReadFull 4 inp) (\<lambda>(b, rest). withPort (ipString b) rest)
         else if atyp = 0x04 then Option.bind (ReadFull 16 inp) (\<lambda>(b, rest). withPort (ipString b) rest)
         else if atyp = 0x03 then
           Option.bind (ReadFull 1 inp) (\<lambda>(l, rest1).
           Option.bind (ReadFull (unat (l ! 0)) rest1) (\<lambda>(b, rest). withPort (string_of_bytes b) rest))
         else None)"

definition socksReply :: "byte \<Rightarrow> bytes" where
  "socksReply code = [0x05, code, 0x00, 0x01, 0, 0, 0, 0, 0, 0]"

text \<open>
  How a handler ends: the connection closed, the two directions piped with the bytes already
  buffered from the client, or a UDP association.
\<close>

datatype socksEnd = Closed | Piped addrPort bytes | Associated

definition handleConnect :: "netEnv \<Rightarrow> tunnelDialer \<Rightarrow> bool \<Rightarrow> string \<Rightarrow> int \<Rightarrow> bytes \<Rightarrow> bytes \<times> socksEnd" where
  "handleConnect E t wrote host port buffered =
     (if isLoopbackHost E host then (socksReply 0x02, Closed)
      else case DialContext E t ''tcp'' (JoinHostPort host (Itoa port)) of
        Inl _ \<Rightarrow> (socksReply 0x05, Closed)
      | Inr ap \<Rightarrow> ([0x05, 0x00, 0x00, 0x01, 0, 0, 0, 0, 0, 0], if wrote then Piped ap buffered else Closed))"

text \<open>
  \<open>listenUDP\<close> is the port of the relay socket, \<open>None\<close> when it cannot be opened; \<open>wrote\<close> whether the
  reply could be written.
\<close>

definition handleUDPAssociate :: "16 word option \<Rightarrow> bool \<Rightarrow> bytes \<times> socksEnd" where
  "handleUDPAssociate listenUDP wrote =
     (case listenUDP of None \<Rightarrow> (socksReply 0x01, Closed)
      | Some p \<Rightarrow> ([0x05, 0x00, 0x00, 0x01, 127, 0, 0, 1] @ PutUint16 p, if wrote then Associated else Closed))"

definition handleSocks5 ::
  "netEnv \<Rightarrow> (bytes \<Rightarrow> string) \<Rightarrow> tunnelDialer \<Rightarrow> 16 word option \<Rightarrow> bool \<Rightarrow> bool \<Rightarrow> bytes \<Rightarrow> bytes \<times> socksEnd" where
  "handleSocks5 E ipString t listenUDP wroteGreeting wroteReply inp =
     (case ReadFull 2 inp of None \<Rightarrow> ([], Closed)
      | Some (g, rest) \<Rightarrow>
        if g ! 0 \<noteq> 0x05 then ([], Closed)
        else case ReadFull (unat (g ! 1)) rest of None \<Rightarrow> ([], Closed)
        | Some (_, rest1) \<Rightarrow>
          if \<not> wroteGreeting then ([], Closed)
          else case ReadFull 4 rest1 of None \<Rightarrow> ([0x05, 0x00], Closed)
          | Some (hdr, rest2) \<Rightarrow>
            if hdr ! 0 \<noteq> 0x05 then ([0x05, 0x00], Closed)
            else case readSocksAddr ipString (hdr ! 3) rest2 of
              None \<Rightarrow> ([0x05, 0x00] @ socksReply 0x08, Closed)
            | Some (host, port, rest3) \<Rightarrow>
              (case (if hdr ! 1 = 0x01 then handleConnect E t wroteReply host port rest3
                     else if hdr ! 1 = 0x03 then handleUDPAssociate listenUDP wroteReply
                     else (socksReply 0x07, Closed)) of
                 (w, e) \<Rightarrow> ([0x05, 0x00] @ w, e)))"

section \<open>SOCKS5 over UDP\<close>

definition parseUDPRequest :: "(bytes \<Rightarrow> string) \<Rightarrow> bytes \<Rightarrow> (string \<times> int \<times> bytes \<times> bytes) option" where
  "parseUDPRequest ipString b =
     (if length b < 4 then None
      else if b ! 2 \<noteq> 0x00 then None
      else
        let atyp = b ! 3; rest = drop 4 b;
            found = (\<lambda>host addrLen. Some (host, port_of (rest ! addrLen) (rest ! Suc addrLen),
                       take (1 + addrLen + 2) (drop 3 b), drop (addrLen + 2) rest))
        in if atyp = 0x01 then (if length rest < 4 + 2 then None else found (ipString (take 4 rest)) 4)
           else if atyp = 0x04 then (if length rest < 16 + 2 then None else found (ipString (take 16 rest)) 16)
           else if atyp = 0x03 then
             (if length rest < 1 then None
              else let l = unat (rest ! 0) in
                if length rest < 1 + l + 2 then None else found (string_of_bytes (take l (drop 1 rest))) (1 + l))
           else None)"

text \<open>The reply datagram \<open>targetReadLoop\<close> builds.\<close>

definition udpReply :: "bytes \<Rightarrow> bytes \<Rightarrow> bytes" where
  "udpReply hdr payload = [0x00, 0x00, 0x00] @ hdr @ payload"

text \<open>
  An association. Tunnel connections have numbers in the order they are dialed; \<open>open_conns\<close> are those
  not yet closed. \<open>dialing\<close> is the request whose dial the relay goroutine waits for; there is one relay
  goroutine, so at most one. \<open>sent\<close> and \<open>replies\<close> record what goes out on either side.
\<close>

record udpTarget =
  conn :: nat
  thdr :: bytes

record udpAssoc =
  clientAddr :: "string option"
  targets :: "string \<rightharpoonup> udpTarget"
  closed :: bool
  open_conns :: "nat set"
  next_conn :: nat
  dialing :: "(string \<times> string \<times> int \<times> bytes \<times> bytes) option"
  sent :: "(nat \<times> bytes) list"
  replies :: "(string \<times> bytes) list"

definition newAssoc :: udpAssoc where
  "newAssoc = \<lparr>clientAddr = None, targets = Map.empty, closed = False, open_conns = {}, next_conn = 0,
     dialing = None, sent = [], replies = []\<rparr>"

definition relayDatagram :: "netEnv \<Rightarrow> (bytes \<Rightarrow> string) \<Rightarrow> string \<Rightarrow> bytes \<Rightarrow> udpAssoc \<Rightarrow> udpAssoc" where
  "relayDatagram E ipString src b a =
     (let a1 = a\<lparr>clientAddr := Some src\<rparr> in
      case parseUDPRequest ipString b of None \<Rightarrow> a1
      | Some (host, port, hdr, payload) \<Rightarrow>
        if isLoopbackHost E host then a1
        else let key = JoinHostPort host (Itoa port) in
          if closed a1 then a1
          else case targets a1 key of
            Some t \<Rightarrow> a1\<lparr>sent := sent a1 @ [(conn t, payload)]\<rparr>
          | None \<Rightarrow> a1\<lparr>dialing := Some (key, host, port, hdr, payload)\<rparr>)"

text \<open>The end of \<open>getOrDial\<close> after the dial, and the write of the payload in the relay loop.\<close>

definition finishDial :: "netEnv \<Rightarrow> tunnelDialer \<Rightarrow> udpAssoc \<Rightarrow> udpAssoc" where
  "finishDial E t a =
     (case dialing a of None \<Rightarrow> a
      | Some (key, host, port, hdr, payload) \<Rightarrow>
        let a1 = a\<lparr>dialing := None\<rparr> in
        case DialUDP E t host port of Inl _ \<Rightarrow> a1
        | Inr _ \<Rightarrow>
          let n = next_conn a1; a2 = a1\<lparr>next_conn := Suc n\<rparr> in
          if closed a2 then a2
          else a2\<lparr>targets := (targets a2)(key \<mapsto> \<lparr>conn = n, thdr = hdr\<rparr>), open_conns := insert n (open_conns a2),
                  sent := sent a2 @ [(n, payload)]\<rparr>)"

text \<open>
  One round of \<open>targetReadLoop\<close>; \<open>None\<close> in place of data is a read error. The loop ends, and removes
  its target, on an error and when the association is closed or knows no client.
\<close>

definition removeTarget :: "string \<Rightarrow> udpTarget \<Rightarrow> udpAssoc \<Rightarrow> udpAssoc" where
  "removeTarget key t a =
     (let a1 = (case targets a key of Some cur \<Rightarrow> if conn cur = conn t then a\<lparr>targets := (targets a)(key := None)\<rparr> else a
                | None \<Rightarrow> a)
      in a1\<lparr>open_conns := open_conns a1 - {conn t}\<rparr>)"

definition targetRead :: "string \<Rightarrow> udpTarget \<Rightarrow> bytes option \<Rightarrow> bool \<Rightarrow> udpAssoc \<Rightarrow> udpAssoc" where
  "targetRead key t data wrote a =
     (case data of None \<Rightarrow> removeTarget key t a
      | Some d \<Rightarrow>
        (case clientAddr a of None \<Rightarrow> removeTarget key t a
         | Some client \<Rightarrow>
           if closed a then removeTarget key t a
           else if \<not> wrote then removeTarget key t a
           else a\<lparr>replies := replies a @ [(client, udpReply (thdr t) d)]\<rparr>))"

definition closeAssoc :: "udpAssoc \<Rightarrow> udpAssoc" where
  "closeAssoc a =
     (if closed a then a
      else a\<lparr>closed := True, targets := Map.empty, open_conns := open_conns a - conn ` ran (targets a)\<rparr>)"

section \<open>The HTTP front end and the log filter\<close>

definition hopByHop :: "string list" where
  "hopByHop = [''Connection'', ''Proxy-Connection'', ''Keep-Alive'', ''Proxy-Authenticate'',
     ''Proxy-Authorization'', ''Te'', ''Trailer'', ''Transfer-Encoding'', ''Upgrade'']"

text \<open>A header in canonical form: name and values; the hop-by-hop names are canonical as written.\<close>

definition removeHopByHop :: "(string \<times> string list) list \<Rightarrow> (string \<times> string list) list" where
  "removeHopByHop h = foldl (\<lambda>hd k. filter (\<lambda>(k', _). k' \<noteq> k) hd) h hopByHop"

text \<open>
  A request of the HTTP front end: \<open>hqEarly\<close> are the bytes the client sent after the request line and header of a \<open>CONNECT\<close> and
  that the server's reader has buffered. How a request ends: with an error, with the reply of the upstream server, or with the two
  directions piped, early bytes first.
\<close>

record httpRequest =
  hqMethod :: string
  hqHost :: string
  hqHeader :: "(string \<times> string list) list"
  hqEarly :: bytes

datatype httpEnd = HttpError nat | HttpReply nat "(string \<times> string list) list" bytes | Tunnelled addrPort bytes | Dropped

datatype hijack = NoHijacker | HijackFails | Hijacked

text \<open>\<open>CONNECT\<close>: the second part of the result is the upstream connection that stays open.\<close>

definition httpHandleConnect :: "netEnv \<Rightarrow> tunnelDialer \<Rightarrow> hijack \<Rightarrow> httpRequest \<Rightarrow> httpEnd \<times> addrPort option" where
  "httpHandleConnect E t hj r =
     (case DialContext E t ''tcp'' (hqHost r) of
        Inl e \<Rightarrow> (HttpError 502, None)
      | Inr ap \<Rightarrow> (case hj of NoHijacker \<Rightarrow> (HttpError 500, None) | HijackFails \<Rightarrow> (Dropped, None)
                   | Hijacked \<Rightarrow> (Tunnelled ap [], Some ap)))"

text \<open>
  Everything else goes through the transport, a parameter that gets the dialer and the cleaned request and returns status, header
  and body.
\<close>

definition serveHTTPRequest ::
  "netEnv \<Rightarrow> tunnelDialer \<Rightarrow> ((string \<Rightarrow> string \<Rightarrow> dialError + addrPort) \<Rightarrow> httpRequest
      \<Rightarrow> string + nat \<times> (string \<times> string list) list \<times> bytes) \<Rightarrow> hijack \<Rightarrow> httpRequest \<Rightarrow> httpEnd \<times> addrPort option" where
  "serveHTTPRequest E t roundTrip hj r =
     (if hqMethod r = ''CONNECT'' then httpHandleConnect E t hj r
      else case roundTrip (DialContext E t) (r\<lparr>hqHeader := removeHopByHop (hqHeader r)\<rparr>) of
        Inl e \<Rightarrow> (HttpError 502, None)
      | Inr (code, h, body) \<Rightarrow> (HttpReply code (removeHopByHop h) body, None))"

lemma removeHopByHop_clean: "set (removeHopByHop h) = {x \<in> set h. fst x \<notin> set hopByHop}"
proof -
  have "set (foldl (\<lambda>hd k. filter (\<lambda>(k', _). k' \<noteq> k) hd) h ks) = {x \<in> set h. fst x \<notin> set ks}" for ks
    by (induction ks arbitrary: h) (auto simp: split_def)
  then show ?thesis by (simp add: removeHopByHop_def)
qed

text \<open>The reply has no hop-by-hop header, and only a \<open>CONNECT\<close> leaves a connection open, the one the dialer made.\<close>

lemma serveHTTPRequest_end:
  assumes "serveHTTPRequest E t roundTrip hj r = (out, up)"
  shows "out = HttpReply code h body \<Longrightarrow> fst ` set h \<inter> set hopByHop = {}"
    and "up = Some ap \<Longrightarrow> hqMethod r = ''CONNECT'' \<and> DialContext E t ''tcp'' (hqHost r) = Inr ap \<and> out = Tunnelled ap []"
  using assms by (auto simp: serveHTTPRequest_def httpHandleConnect_def removeHopByHop_clean split: if_splits sum.splits hijack.splits)

definition noisyMarkers :: "string list" where
  "noisyMarkers = [''proxy: memstats'', ''proxy: HEARTBEAT'', ''proxy: pathstats'', ''proxy: conn-stats'',
     ''proxy: ALLOC-SPIKE'', ''proxy: heartbeat window'', ''pion/turnc:'', '' cum)'', ''idle (combined'']"

definition filterWrite :: "string \<Rightarrow> string option" where
  "filterWrite p = (if list_ex (Contains p) noisyMarkers then None else Some p)"

end
