(* ===== verification/SocksProps.thy ===== *)
theory SocksProps
  imports Socks
begin

text \<open>
  Properties of the SOCKS5 front end: the loop guard of the dialer, the CONNECT request, the framing of
  UDP datagrams, and the life of tunnel connections in a UDP association.
\<close>

section \<open>The loop guard\<close>

lemma firstDial_in: "firstDial d aps = Inr ap \<Longrightarrow> ap \<in> set aps \<and> d ap"
  by (induction aps) (auto split: if_splits)

lemma resolve_out:
  assumes "resolve E t host port = Inr aps" and "(a, p) \<in> set aps"
  shows "\<exists>ip. a = Unmap ip \<and> \<not> blocked ip \<and> p = word_of_int port
    \<and> (ParseAddr E host = Some ip \<or> (\<exists>hs h. LookupHost E host = Some hs \<and> h \<in> set hs \<and> ParseAddr E h = Some ip))"
    and "JoinHostPort host (Itoa port) \<notin> selfHosts t"
proof -
  show "JoinHostPort host (Itoa port) \<notin> selfHosts t" using assms(1) by (auto simp: resolve_def split: if_splits)
  show "\<exists>ip. a = Unmap ip \<and> \<not> blocked ip \<and> p = word_of_int port
    \<and> (ParseAddr E host = Some ip \<or> (\<exists>hs h. LookupHost E host = Some hs \<and> h \<in> set hs \<and> ParseAddr E h = Some ip))"
  proof (cases "ParseAddr E host")
    case None
    then obtain hs where hs: "LookupHost E host = Some hs"
      using assms(1) by (cases "LookupHost E host") (auto simp: resolve_def split: if_splits)
    then have "aps = map (\<lambda>ip. (Unmap ip, word_of_int port)) (filter (\<lambda>ip. \<not> blocked ip) (List.map_filter (ParseAddr E) hs))"
      using assms(1) None by (simp add: resolve_def Let_def split: if_splits)
    then obtain ip where "a = Unmap ip" "p = word_of_int port" "\<not> blocked ip" "ip \<in> set (List.map_filter (ParseAddr E) hs)"
      using assms(2) by auto
    then show ?thesis using hs by (auto simp: map_filter_def)
  next
    case (Some ip)
    then have "aps = [(Unmap ip, word_of_int port)]" "\<not> blocked ip"
      using assms(1) by (auto simp: resolve_def Let_def split: if_splits)
    then show ?thesis using assms(2) Some by auto
  qed
qed


definition demoNet :: netEnv where
  "demoNet = \<lparr>ParseAddr = (\<lambda>s. if s = ''1.2.3.4'' then Some (V4 0x01020304)
       else if s = ''::ffff:0.0.0.0'' then Some (V6 0xFFFF00000000 []) else None),
     LookupHost = (\<lambda>_. None), dialTCP = (\<lambda>_. True), dialUDP = (\<lambda>_. True)\<rparr>"

definition demoDialer :: tunnelDialer where "demoDialer = newTunnelDialer [''127.0.0.1:1080'', '''']"

lemma demo_bits: "drop_bit 32 (0xFFFF00000000 :: 128 word) = 0xFFFF" "ucast (0xFFFF00000000 :: 128 word) = (0 :: 32 word)"
  "drop_bit 24 (0x01020304 :: 32 word) = 1" "drop_bit 16 (0x01020304 :: 32 word) = 0x0102" "drop_bit 8 (0x01020304 :: 32 word) = 0x010203"
  by code_simp+


text \<open>
  Two places where the guard is narrower than its comment: the mapped form of 0.0.0.0 passes, and a port
  beyond 65535 is cut to 16 bits after the comparison with our own listeners.
\<close>

theorem mapped_unspecified_passes:
  "DialUDP demoNet demoDialer ''::ffff:0.0.0.0'' 53 = Inr (V4 0, 53) \<and> IsUnspecified (V4 0)"
proof -
  have "JoinHostPort ''::ffff:0.0.0.0'' (Itoa 53) \<notin> selfHosts demoDialer"
    by (simp add: demoDialer_def newTunnelDialer_def JoinHostPort_def)
  then show ?thesis
    by (simp add: DialUDP_def resolve_def demoNet_def blocked_def IsLoopback_def IsUnspecified_def
        IsLinkLocalUnicast_def IsLinkLocalMulticast_def demo_bits)
qed

theorem dial_port_truncated:
  assumes "resolve E t host port = Inr aps" and "(a, p) \<in> set aps"
  shows "uint p = port mod 65536"
  using resolve_out(1) [OF assms] by (auto simp: unsigned_of_int take_bit_eq_mod)

section \<open>CONNECT\<close>

lemma ReadFull_append [simp]: "length xs = n \<Longrightarrow> ReadFull n (xs @ ys) = Some (xs, ys)"
  by (simp add: ReadFull_def)

lemma ReadFull_numerals:
  "ReadFull 1 (a # r) = Some ([a], r)" "ReadFull (Suc 0) (a # r) = Some ([a], r)"
  "ReadFull 2 (a # b # r) = Some ([a, b], r)" "ReadFull 4 (a # b # c # d # r) = Some ([a, b, c, d], r)"
  by (simp_all add: ReadFull_def)

lemma port_of_Put: "port_of (PutUint16 p ! 0) (PutUint16 p ! 1) = uint p"
proof -
  have "unat (ucast (drop_bit 8 p) :: byte) = unat p div 256"
    using unsigned_less [of p, where ?'a = nat]
    by (simp add: unsigned_ucast_eq unsigned_drop_bit_eq take_bit_eq_mod drop_bit_eq_div less_mult_imp_div_less unat_div)
  moreover have "unat (ucast p :: byte) = unat p mod 256" by (simp add: unsigned_ucast_eq take_bit_eq_mod)
  ultimately have "port_of (PutUint16 p ! 0) (PutUint16 p ! 1) = int (unat p div 256 * 256 + unat p mod 256)"
    by (simp only: port_of_def PutUint16_def nth_Cons_0 nth_Cons_Suc One_nat_def of_nat_add of_nat_mult of_nat_numeral)
  then show ?thesis by (simp only: div_mult_mod_eq uint_nat)
qed

lemma readSocksAddr_domain:
  assumes "length name < 256"
  shows "readSocksAddr ips 0x03 (of_nat (length name) # name @ PutUint16 port @ rest)
    = Some (string_of_bytes name, uint port, rest)"
proof -
  have "unat (of_nat (length name) :: byte) = length name" using assms by (simp add: unat_of_nat take_bit_nat_eq_self)
  then show ?thesis using port_of_Put [of port] by (simp add: readSocksAddr_def Let_def ReadFull_numerals)
qed

text \<open>
  C14. A CONNECT request. A client that greets, names a host and a port and sends more bytes right away gets:
  a refusal if the host is loopback; otherwise the connection to the first of the host's allowed
  addresses that answers, on that port, with every byte it sent early passed on; and a failure reply if
  there is none. The host and the port survive the detour over a host:port string.
\<close>

theorem socks_connect_spec:
  assumes "length methods = unat n" and "length name < 256"
    and "CHR ''['' \<notin> set (string_of_bytes name)" and "CHR '']'' \<notin> set (string_of_bytes name)"
  shows "handleSocks5 E ips t l True wr
      ([0x05, n] @ methods @ [0x05, 0x01, rsv, 0x03, of_nat (length name)] @ name @ PutUint16 port @ early)
    = (if isLoopbackHost E (string_of_bytes name) then ([0x05, 0x00] @ socksReply 0x02, Closed)
       else case resolve E t (string_of_bytes name) (uint port) of Inl _ \<Rightarrow> ([0x05, 0x00] @ socksReply 0x05, Closed)
         | Inr aps \<Rightarrow> (case firstDial (dialTCP E) aps of Inl _ \<Rightarrow> ([0x05, 0x00] @ socksReply 0x05, Closed)
             | Inr ap \<Rightarrow> ([0x05, 0x00] @ socksReply 0x00, if wr then Piped ap early else Closed)))"
proof -
  let ?h = "string_of_bytes name"
  have port: "uint port = int (unat port)" "- (2 ^ 63) \<le> uint port" "uint port < 2 ^ 63"
    using unsigned_less [of port, where ?'a = int] by (simp_all add: order_trans [OF _ unsigned_greater_eq])
  have "SplitHostPort (JoinHostPort ?h (Itoa (uint port))) = Some (?h, Itoa (uint port))"
    unfolding port(1) by (rule Split_Join [OF assms(3,4) itoa_no_punct])
  then have dial: "DialContext E t ''tcp'' (JoinHostPort ?h (Itoa (uint port)))
      = (case resolve E t ?h (uint port) of Inl e \<Rightarrow> Inl e | Inr aps \<Rightarrow> firstDial (dialTCP E) aps)"
    using ParseInt64_Itoa [OF port(2,3)] by (simp add: DialContext_def)
  have "handleSocks5 E ips t l True wr
      ([0x05, n] @ methods @ [0x05, 0x01, rsv, 0x03, of_nat (length name)] @ name @ PutUint16 port @ early)
    = (case handleConnect E t wr ?h (uint port) early of (w, e) \<Rightarrow> ([0x05, 0x00] @ w, e))"
    using assms(1) readSocksAddr_domain [OF assms(2), of ips port early]
    by (simp add: handleSocks5_def ReadFull_numerals)
  then show ?thesis by (simp add: handleConnect_def dial socksReply_def split: sum.split)
qed

theorem socks_connect_spec_witness:
  "handleSocks5 demoNet (\<lambda>_. []) demoDialer None True True
     ([0x05, 1] @ [0] @ [0x05, 0x01, 0, 0x03, of_nat (length [49, 46, 50, 46, 51, 46, 52 :: byte])]
        @ [49, 46, 50, 46, 51, 46, 52] @ PutUint16 443 @ [7])
   = ([0x05, 0x00] @ socksReply 0x00, Piped (V4 0x01020304, 443) [7])"
proof -
  have name: "string_of_bytes [49, 46, 50, 46, 51, 46, 52] = ''1.2.3.4''" by code_simp
  have "JoinHostPort ''1.2.3.4'' (Itoa 443) \<notin> selfHosts demoDialer"
    by (simp add: demoDialer_def newTunnelDialer_def JoinHostPort_def)
  then have r: "resolve demoNet demoDialer ''1.2.3.4'' 443 = Inr [(V4 0x01020304, 443)]" "\<not> isLoopbackHost demoNet ''1.2.3.4''"
    by (simp_all add: resolve_def demoNet_def blocked_def IsLoopback_def IsUnspecified_def isLoopbackHost_def
        IsLinkLocalUnicast_def IsLinkLocalMulticast_def demo_bits)
  have "firstDial (dialTCP demoNet) [(V4 0x01020304, 443)] = Inr (V4 0x01020304, 443)" by (simp add: demoNet_def)
  then show ?thesis
    by (subst socks_connect_spec) (simp_all add: name r)
qed

section \<open>UDP datagrams\<close>

lemma parse_parts:
  assumes "parseUDPRequest ips b = Some (host, port, hdr, payload)"
  obtains b0 b1 atyp rest k where "b = b0 # b1 # 0 # atyp # rest" "k + 2 \<le> length rest"
    "hdr = atyp # take (k + 2) rest" "payload = drop (k + 2) rest" "port = port_of (rest ! k) (rest ! Suc k)"
    "atyp = 1 \<and> k = 4 \<and> host = ips (take 4 rest) \<or> atyp = 4 \<and> k = 16 \<and> host = ips (take 16 rest)
     \<or> atyp = 3 \<and> rest \<noteq> [] \<and> k = Suc (unat (rest ! 0)) \<and> host = string_of_bytes (take (unat (rest ! 0)) (drop 1 rest))"
proof -
  have "4 \<le> length b" using assms by (simp add: parseUDPRequest_def split: if_splits)
  then obtain b0 b1 b2 atyp rest where b: "b = b0 # b1 # b2 # atyp # rest" by (auto simp: Suc_le_length_iff numeral_eq_Suc)
  have p: "parseUDPRequest ips b = Some (host, port, hdr, payload)" "b2 = 0"
    using assms by (simp_all add: b parseUDPRequest_def split: if_splits)
  consider "atyp = 1" | "atyp = 4" | "atyp = 3" using assms by (simp add: b parseUDPRequest_def Let_def split: if_splits)
  then show thesis
  proof cases
    case 1
    then show thesis using p by (intro that [of b0 b1 atyp rest 4]) (auto simp: b parseUDPRequest_def Let_def split: if_splits)
  next
    case 2
    then show thesis using p by (intro that [of b0 b1 atyp rest 16]) (auto simp: b parseUDPRequest_def Let_def split: if_splits)
  next
    case 3
    then show thesis using p
      by (intro that [of b0 b1 atyp rest "Suc (unat (rest ! 0))"]) (auto simp: b parseUDPRequest_def Let_def split: if_splits)
  qed
qed

text \<open>
  UDP framing. A datagram that is accepted splits into its address header and its payload without
  loss, with a port in range; and the reply built from the cached header carries the data back under
  exactly the host and port the client asked for.
\<close>

theorem udp_framing_roundtrip:
  assumes "parseUDPRequest ips b = Some (host, port, hdr, payload)"
  shows "drop 3 b = hdr @ payload \<and> 0 \<le> port \<and> port < 65536
    \<and> parseUDPRequest ips (udpReply hdr data) = Some (host, port, hdr, data)"
  using assms
proof (rule parse_parts)
  fix b0 b1 atyp rest k
  assume h: "b = b0 # b1 # 0 # atyp # rest" "k + 2 \<le> length rest" "hdr = atyp # take (k + 2) rest"
    "payload = drop (k + 2) rest" "port = port_of (rest ! k) (rest ! Suc k)"
    "atyp = 1 \<and> k = 4 \<and> host = ips (take 4 rest) \<or> atyp = 4 \<and> k = 16 \<and> host = ips (take 16 rest)
     \<or> atyp = 3 \<and> rest \<noteq> [] \<and> k = Suc (unat (rest ! 0)) \<and> host = string_of_bytes (take (unat (rest ! 0)) (drop 1 rest))"
  have "int (unat (rest ! k)) \<le> 255" "int (unat (rest ! Suc k)) \<le> 255"
    using unat_byte [of "rest ! k"] unat_byte [of "rest ! Suc k"] by linarith+
  then have "0 \<le> port \<and> port < 65536" unfolding h(5) port_of_def by linarith
  moreover define r where "r = take (k + 2) rest @ data"
  have r: "r ! i = rest ! i" if "i < k + 2" for i using h(2) that by (simp add: r_def nth_append)
  have tk: "take (k + 2) r = take (k + 2) rest" "drop (k + 2) r = data" "k + 2 \<le> length r" "r \<noteq> []"
    using h(2) by (auto simp: r_def)
  have tk': "take i r = take i rest" if "i \<le> k + 2" for i using h(2) that by (simp add: r_def min_def)
  have dom: "take i (drop 1 r) = take i (drop 1 rest)" if "Suc i \<le> k + 2" for i
    using tk' [of "Suc i"] that by (simp add: drop_take [symmetric] take_drop)
  have "parseUDPRequest ips (0 # 0 # 0 # atyp # r) = Some (host, port, hdr, data)"
    using h(6)
  proof (elim disjE conjE)
    assume c: "atyp = 1" "k = 4" "host = ips (take 4 rest)"
    show ?thesis using c tk tk' [of 4] r [of 4] r [of 5] h(3,5) by (simp add: parseUDPRequest_def Let_def)
  next
    assume c: "atyp = 4" "k = 16" "host = ips (take 16 rest)"
    show ?thesis using c tk tk' [of 16] r [of 16] r [of 17] h(3,5) by (simp add: parseUDPRequest_def Let_def)
  next
    assume c: "atyp = 3" "rest \<noteq> []" "k = Suc (unat (rest ! 0))"
      "host = string_of_bytes (take (unat (rest ! 0)) (drop 1 rest))"
    show ?thesis
      using c tk dom [of "unat (rest ! 0)"] r [of 0] r [of k] r [of "Suc k"] h(3,5)
      by (simp add: parseUDPRequest_def Let_def)
  qed
  ultimately show ?thesis using h by (simp add: udpReply_def r_def)
qed

theorem udp_framing_roundtrip_witness:
  "parseUDPRequest (\<lambda>_. ''h'') [0, 0, 0, 3, 1, 104, 0, 53, 9] = Some (''h'', 53, [3, 1, 104, 0, 53], [9])
   \<and> parseUDPRequest (\<lambda>_. ''h'') (udpReply [3, 1, 104, 0, 53] [7, 8]) = Some (''h'', 53, [3, 1, 104, 0, 53], [7, 8])"
proof -
  have p: "parseUDPRequest (\<lambda>_. ''h'') [0, 0, 0, 3, 1, 104, 0, 53, 9] = Some (''h'', 53, [3, 1, 104, 0, 53], [9])"
    by code_simp
  show ?thesis using udp_framing_roundtrip [OF p, of "[7, 8]"] p by simp
qed

section \<open>The life of tunnel connections\<close>

inductive assocStep :: "netEnv \<Rightarrow> (bytes \<Rightarrow> string) \<Rightarrow> tunnelDialer \<Rightarrow> udpAssoc \<Rightarrow> udpAssoc \<Rightarrow> bool"
  for E ips t where
  datagram: "dialing a = None \<Longrightarrow> assocStep E ips t a (relayDatagram E ips src b a)"
| dialed: "dialing a \<noteq> None \<Longrightarrow> assocStep E ips t a (finishDial E t a)"
| reader: "targets a key = Some u \<or> conn u \<notin> open_conns a \<Longrightarrow> assocStep E ips t a (targetRead key u data wrote a)"
| control_closed: "assocStep E ips t a (closeAssoc a)"

definition assoc_inv :: "udpAssoc \<Rightarrow> bool" where
  "assoc_inv a \<longleftrightarrow> open_conns a = conn ` ran (targets a)
     \<and> (\<forall>k k' u u'. targets a k = Some u \<longrightarrow> targets a k' = Some u' \<longrightarrow> conn u = conn u' \<longrightarrow> k = k')
     \<and> (\<forall>k u. targets a k = Some u \<longrightarrow> conn u < next_conn a)
     \<and> (closed a \<longrightarrow> targets a = Map.empty)
     \<and> (case dialing a of None \<Rightarrow> True | Some (key, _) \<Rightarrow> targets a key = None)"

lemma assoc_invD:
  assumes "assoc_inv a"
  shows "open_conns a = conn ` ran (targets a)" "targets a k = Some u \<Longrightarrow> conn u < next_conn a"
    and "targets a k = Some u \<Longrightarrow> targets a k' = Some u' \<Longrightarrow> conn u = conn u' \<Longrightarrow> k = k'"
  using assms unfolding assoc_inv_def by blast+

text \<open>Inserting a fresh connection under an unused key, and removing one.\<close>

lemma assoc_inv_insert:
  assumes "assoc_inv a" "targets a key = None" "\<not> closed a" "conn u = next_conn a"
  shows "assoc_inv (a\<lparr>dialing := None, next_conn := Suc (next_conn a), targets := (targets a)(key \<mapsto> u),
    open_conns := insert (next_conn a) (open_conns a), sent := xs\<rparr>)"
  unfolding assoc_inv_def
proof (intro conjI allI impI)
  show "open_conns (a\<lparr>dialing := None, next_conn := Suc (next_conn a), targets := (targets a)(key \<mapsto> u),
      open_conns := insert (next_conn a) (open_conns a), sent := xs\<rparr>)
    = conn ` ran (targets (a\<lparr>dialing := None, next_conn := Suc (next_conn a), targets := (targets a)(key \<mapsto> u),
      open_conns := insert (next_conn a) (open_conns a), sent := xs\<rparr>))"
    using assms by (simp add: assoc_inv_def ran_map_upd)
  have "conn v \<noteq> next_conn a" if "targets a k = Some v" for k v using assoc_invD(2) [OF assms(1) that] by simp
  moreover fix k k' v v' assume "targets (a\<lparr>dialing := None, next_conn := Suc (next_conn a), targets := (targets a)(key \<mapsto> u),
      open_conns := insert (next_conn a) (open_conns a), sent := xs\<rparr>) k = Some v"
    "targets (a\<lparr>dialing := None, next_conn := Suc (next_conn a), targets := (targets a)(key \<mapsto> u),
      open_conns := insert (next_conn a) (open_conns a), sent := xs\<rparr>) k' = Some v'" "conn v = conn v'"
  ultimately show "k = k'" using assms(4) assoc_invD(3) [OF assms(1), of k v k' v'] by (auto split: if_splits)
qed (use assms in \<open>auto simp: assoc_inv_def less_Suc_eq split: if_splits\<close>)

lemma assoc_inv_remove:
  assumes "assoc_inv a" "targets a key = Some u \<or> conn u \<notin> open_conns a"
  shows "assoc_inv (removeTarget key u a)"
proof (cases "targets a key = Some u")
  case True
  then have r: "removeTarget key u a = a\<lparr>targets := (targets a)(key := None), open_conns := open_conns a - {conn u}\<rparr>"
    by (simp add: removeTarget_def)
  have "conn ` ran ((targets a)(key := None)) = conn ` ran (targets a) - {conn u}"
  proof -
    have inj: "k = key" if "targets a k = Some v" "conn v = conn u" for k v
      using assoc_invD(3) [OF assms(1) that(1) True that(2)] .
    show ?thesis
    proof (intro equalityI subsetI)
      fix x assume "x \<in> conn ` ran ((targets a)(key := None))"
      then obtain k v where "k \<noteq> key" "targets a k = Some v" "x = conn v" by (auto simp: ran_def split: if_splits)
      then show "x \<in> conn ` ran (targets a) - {conn u}" using inj by (auto simp: ran_def)
    next
      fix x assume "x \<in> conn ` ran (targets a) - {conn u}"
      then obtain k v where "targets a k = Some v" "x = conn v" "x \<noteq> conn u" by (auto simp: ran_def)
      moreover from this have "k \<noteq> key" using True by auto
      ultimately show "x \<in> conn ` ran ((targets a)(key := None))" by (auto simp: ran_def intro!: image_eqI exI [of _ k])
    qed
  qed
  then show ?thesis using assms(1) by (auto simp: r assoc_inv_def split: option.splits if_splits)
next
  case False
  then have n: "conn u \<notin> open_conns a" using assms(2) by simp
  then have "conn cur \<noteq> conn u" if "targets a key = Some cur" for cur
    using assoc_invD(1) [OF assms(1)] n that by (metis image_eqI ranI)
  then have "removeTarget key u a = a" using n by (auto simp: removeTarget_def split: option.splits)
  then show ?thesis using assms(1) by simp
qed

lemma assocStep_inv:
  assumes "assocStep E ips t a a'" and "assoc_inv a"
  shows "assoc_inv a'"
  using assms
proof cases
  case (datagram src b)
  then show ?thesis using assms(2)
    by (auto simp: relayDatagram_def Let_def assoc_inv_def split: option.splits if_splits)
next
  case dialed
  then obtain key host port hdr payload where d: "dialing a = Some (key, host, port, hdr, payload)"
    by (cases "dialing a") auto
  then have free: "targets a key = None" using assms(2) by (simp add: assoc_inv_def)
  show ?thesis
  proof (cases "\<exists>ap. DialUDP E t host port = Inr ap \<and> \<not> closed a")
    case True
    then show ?thesis
      using assoc_inv_insert [OF assms(2) free, of "\<lparr>conn = next_conn a, thdr = hdr\<rparr>" "sent a @ [(next_conn a, payload)]"] dialed d
      by (auto simp: finishDial_def Let_def)
  next
    case False
    then show ?thesis using assms(2) dialed d
      by (auto simp: finishDial_def Let_def assoc_inv_def less_Suc_eq split: sum.splits)
  qed
next
  case (reader key u data wrote)
  have "assoc_inv (a\<lparr>replies := xs\<rparr>)" for xs
    using assms(2) by (auto simp: assoc_inv_def split: option.splits)
  then show ?thesis using assoc_inv_remove [OF assms(2) reader(2)] reader(1)
    by (auto simp: targetRead_def split: option.splits)
next
  case control_closed
  then show ?thesis using assms(2) by (auto simp: closeAssoc_def assoc_inv_def split: option.splits)
qed

interpretation assoc_sys: invariant_system "\<lambda>a. a = newAssoc" "assocStep E ips t" assoc_inv for E ips t
proof
  show "assoc_inv s" if "s = newAssoc" for s using that by (simp add: assoc_inv_def newAssoc_def)
  show "assoc_inv a'" if "assoc_inv a" "assocStep E ips t a a'" for a a' using assocStep_inv that by blast
qed

text \<open>
  C15. No tunnel connection leaks. However datagrams, dials, replies, read errors and the end of the
  control connection interleave, the open tunnel connections of an association are exactly those
  registered under some destination, each under one; after the control connection has ended none is
  open and none is opened any more, a dial that completes too late included.
\<close>

theorem udp_assoc_no_leak:
  assumes "reach (\<lambda>a. a = newAssoc) (assocStep E ips t) a"
  shows "open_conns a = conn ` ran (targets a)
    \<and> (\<forall>k k' u u'. targets a k = Some u \<longrightarrow> targets a k' = Some u' \<longrightarrow> conn u = conn u' \<longrightarrow> k = k')
    \<and> (closed a \<longrightarrow> open_conns a = {}) \<and> open_conns (closeAssoc a) = {}"
proof -
  have "assoc_inv a" by (rule assoc_sys.inv_reach [OF assms])
  moreover have "assoc_inv (closeAssoc a)"
    by (rule assoc_sys.inv_reach [OF reach.reach_step [OF assms assocStep.control_closed]])
  moreover have "closed (closeAssoc a)" by (simp add: closeAssoc_def)
  ultimately show ?thesis by (simp add: assoc_inv_def)
qed

theorem udp_assoc_no_leak_witness:
  "open_conns (closeAssoc (finishDial demoNet demoDialer
     (relayDatagram demoNet (\<lambda>_. ''1.2.3.4'') ''c'' [0, 0, 0, 1, 1, 2, 3, 4, 0, 53, 9] newAssoc))) = {}"
proof -
  let ?a = "relayDatagram demoNet (\<lambda>_. ''1.2.3.4'') ''c'' [0, 0, 0, 1, 1, 2, 3, 4, 0, 53, 9] newAssoc"
  have p: "parseUDPRequest (\<lambda>_. ''1.2.3.4'') [0, 0, 0, 1, 1, 2, 3, 4, 0, 53, 9]
      = Some (''1.2.3.4'', 53, [1, 1, 2, 3, 4, 0, 53], [9])" by code_simp
  have d: "dialing ?a \<noteq> None"
    by (simp add: relayDatagram_def p isLoopbackHost_def demoNet_def IsLoopback_def demo_bits Let_def newAssoc_def)
  have "reach (\<lambda>a. a = newAssoc) (assocStep demoNet (\<lambda>_. ''1.2.3.4'') demoDialer) ?a"
    by (rule reach.reach_step [OF reach.reach_init [of "\<lambda>a. a = newAssoc", OF refl]]) (rule assocStep.datagram, simp add: newAssoc_def)
  then have "reach (\<lambda>a. a = newAssoc) (assocStep demoNet (\<lambda>_. ''1.2.3.4'') demoDialer) (finishDial demoNet demoDialer ?a)"
    by (rule reach.reach_step) (rule assocStep.dialed [OF d])
  from udp_assoc_no_leak [OF this] show ?thesis by blast
qed

end
