(* ===== verification/CliConfig.thy ===== *)
theory CliConfig
  imports Encoding NetAddr
begin

text \<open>
  \<open>pkg/proxy/getconf.go\<close> (WireGuard provisioning of the WRAP-A mode) and the configuration side of
  \<open>cmd/vk-turn-socks\<close>: \<open>importcfg.go\<close> and the pure functions of \<open>main.go\<close>. Files and sockets are
  arguments: the bytes read, the response received.
\<close>

section \<open>GETCONF\<close>

definition nl :: char where "nl = CHR 0x0A"

definition wrapAGetconfPort :: string where "wrapAGetconfPort = ''51820''"

record WrapAProvision =
  PrivateKeyHex :: string
  PeerPublicKeyHex :: string
  wpAddress :: string
  DNS :: string
  MTU :: int
  KeepaliveSec :: int

definition UAPIConfig :: "WrapAProvision \<Rightarrow> string" where
  "UAPIConfig wp =
     (let keepalive = (if KeepaliveSec wp \<le> 0 then 25 else KeepaliveSec wp) in
      ''private_key='' @ PrivateKeyHex wp @ [nl] @ ''public_key='' @ PeerPublicKeyHex wp @ [nl]
      @ ''allowed_ip=0.0.0.0/0'' @ [nl] @ ''endpoint=127.0.0.1:'' @ wrapAGetconfPort @ [nl]
      @ ''persistent_keepalive_interval='' @ Itoa keepalive @ [nl])"

datatype confError =
  EmptyDeviceID | NoPassword | WriteFailed | ReadFailed | NoConf | Denied string | IniMissing
  | KeyNotBase64 | KeyLength nat | EmptyKey

definition keyB64toHex :: "string \<Rightarrow> confError + string" where
  "keyB64toHex b64 =
     (case b64_decode b64 of None \<Rightarrow> Inl KeyNotBase64
      | Some raw \<Rightarrow> if length raw \<noteq> 32 then Inl (KeyLength (length raw)) else Inr (hex_encode raw))"

text \<open>
  \<open>fmt.Sscanf(v, "%d", &x)\<close> on a trimmed string: an optional sign and as many digits as follow; what
  comes after them is not looked at. \<open>None\<close> when there is no digit or the value leaves the range.
\<close>

definition Sscanf_d :: "string \<Rightarrow> int option" where
  "Sscanf_d v =
     (let signed = (case v of c # _ \<Rightarrow> c = CHR ''-'' \<or> c = CHR ''+'' | [] \<Rightarrow> False);
          ds = takeWhile is_digit (if signed then tl v else v)
      in ParseInt64 ((if signed then [hd v] else []) @ ds))"

record iniState =
  prov :: WrapAProvision
  privB64 :: string
  pubB64 :: string

definition positiveOr :: "int \<Rightarrow> int option \<Rightarrow> int" where
  "positiveOr d r = (case r of None \<Rightarrow> d | Some n \<Rightarrow> if n \<le> 0 then d else n)"

definition iniLine :: "iniState \<Rightarrow> string \<Rightarrow> iniState" where
  "iniLine st l =
     (case Cut (CHR ''='') (TrimSpace l) of None \<Rightarrow> st
      | Some (k0, v0) \<Rightarrow>
        let k = TrimSpace k0; v = TrimSpace v0; wp = prov st in
        if k = ''PrivateKey'' then st\<lparr>privB64 := v\<rparr>
        else if k = ''PublicKey'' then st\<lparr>pubB64 := v\<rparr>
        else if k = ''Address'' then st\<lparr>prov := wp\<lparr>wpAddress := v\<rparr>\<rparr>
        else if k = ''DNS'' then st\<lparr>prov := wp\<lparr>DNS := TrimSpace (hd (Split (CHR '','') v))\<rparr>\<rparr>
        else if k = ''MTU'' then st\<lparr>prov := wp\<lparr>MTU := positiveOr 1280 (Sscanf_d v)\<rparr>\<rparr>
        else if k = ''PersistentKeepalive'' then st\<lparr>prov := wp\<lparr>KeepaliveSec := positiveOr 25 (Sscanf_d v)\<rparr>\<rparr>
        else st)"

definition parseWGINIToProvision :: "string \<Rightarrow> confError + WrapAProvision" where
  "parseWGINIToProvision ini =
     (let st0 = \<lparr>prov = \<lparr>PrivateKeyHex = [], PeerPublicKeyHex = [], wpAddress = [], DNS = ''1.1.1.1'', MTU = 1280,
                  KeepaliveSec = 25\<rparr>, privB64 = [], pubB64 = []\<rparr>;
          st = foldl iniLine st0 (Split nl ini)
      in if privB64 st = [] \<or> pubB64 st = [] \<or> wpAddress (prov st) = [] then Inl IniMissing
         else case keyB64toHex (privB64 st) of Inl e \<Rightarrow> Inl e
         | Inr priv \<Rightarrow> (case keyB64toHex (pubB64 st) of Inl e \<Rightarrow> Inl e
           | Inr pub \<Rightarrow> Inr ((prov st)\<lparr>PrivateKeyHex := priv, PeerPublicKeyHex := pub\<rparr>)))"

text \<open>The exchange: the request sent (if one was), and the outcome for a response of the server.\<close>

definition doGetconf ::
  "bool \<Rightarrow> string option \<Rightarrow> string \<Rightarrow> string \<Rightarrow> string option \<times> (confError + WrapAProvision)" where
  "doGetconf wrote response deviceID password =
     (if deviceID = [] then (None, Inl EmptyDeviceID)
      else if password = [] then (None, Inl NoPassword)
      else
        let req = ''GETCONF:'' @ wrapAGetconfPort @ ''|'' @ deviceID @ ''|'' @ password in
        if \<not> wrote then (Some req, Inl WriteFailed)
        else case response of None \<Rightarrow> (Some req, Inl ReadFailed)
        | Some raw \<Rightarrow>
          let resp = TrimSpace (take 4096 raw) in
          (Some req,
           if resp = ''NOCONF'' then Inl NoConf
           else if HasPrefix resp ''DENIED:'' then Inl (Denied (TrimPrefix resp ''DENIED:''))
           else parseWGINIToProvision resp))"

section \<open>WireGuard keys and the UAPI text\<close>

definition ReplaceAll :: "char \<Rightarrow> char \<Rightarrow> string \<Rightarrow> string" where
  "ReplaceAll a b s = map (\<lambda>c. if c = a then b else c) s"

definition padB64 :: "string \<Rightarrow> string" where
  "padB64 s = (let m = length s mod 4 in if m \<noteq> 0 then s @ replicate (4 - m) (CHR ''='') else s)"

definition decodeFlexibleBase64 :: "string \<Rightarrow> bytes option" where
  "decodeFlexibleBase64 s =
     b64_decode (padB64 (ReplaceAll (CHR ''_'') (CHR ''/'') (ReplaceAll (CHR ''-'') (CHR ''+'') (TrimSpace s))))"

definition wgKeyHex :: "string \<Rightarrow> confError + string" where
  "wgKeyHex s =
     (let t = TrimSpace s in
      if t = [] then Inl EmptyKey
      else case b64_decode (padB64 (ReplaceAll (CHR ''_'') (CHR ''/'') (ReplaceAll (CHR ''-'') (CHR ''+'') t))) of
        None \<Rightarrow> Inl KeyNotBase64
      | Some raw \<Rightarrow> if length raw \<noteq> 32 then Inl (KeyLength (length raw)) else Inr (hex_encode raw))"

record WGConfig =
  PrivateKey :: string
  PeerPublicKey :: string
  PresharedKey :: string
  wgAddress :: string
  wgDNS :: string
  wgMTU :: int
  PersistentKeepalive :: int

definition buildUAPI :: "WGConfig \<Rightarrow> string \<Rightarrow> confError + string" where
  "buildUAPI wg peerAddr =
     (case wgKeyHex (PrivateKey wg) of Inl e \<Rightarrow> Inl e
      | Inr priv \<Rightarrow> (case wgKeyHex (PeerPublicKey wg) of Inl e \<Rightarrow> Inl e
      | Inr pub \<Rightarrow>
        let ka = (if PersistentKeepalive wg \<le> 0 then 25 else PersistentKeepalive wg);
            base = ''private_key='' @ priv @ [nl] @ ''replace_peers=true'' @ [nl] @ ''public_key='' @ pub @ [nl]
              @ ''endpoint='' @ peerAddr @ [nl] @ ''persistent_keepalive_interval='' @ Itoa ka @ [nl]
              @ ''allowed_ip=0.0.0.0/0'' @ [nl] @ ''allowed_ip=::/0'' @ [nl];
            psk = TrimSpace (PresharedKey wg)
        in if psk = [] then Inr base
           else case wgKeyHex psk of Inl e \<Rightarrow> Inl e
           | Inr pk \<Rightarrow> Inr (base @ ''preshared_key='' @ pk @ [nl])))"

definition parseCIDRAddr :: "(string \<Rightarrow> ipaddr option) \<Rightarrow> string \<Rightarrow> ipaddr option" where
  "parseCIDRAddr ParseAddr s =
     (let t = TrimSpace s in
      if t = [] then None
      else ParseAddr (case Cut (CHR ''/'') t of None \<Rightarrow> t | Some (h, _) \<Rightarrow> h))"

definition parseDNS :: "(string \<Rightarrow> ipaddr option) \<Rightarrow> string \<Rightarrow> ipaddr list" where
  "parseDNS ParseAddr s =
     List.map_filter (\<lambda>part. let p = TrimSpace part in if p = [] then None else ParseAddr p) (Split (CHR '','') s)"

section \<open>Configuration\<close>

record CLIConfig =
  VKLink :: string
  PeerAddr :: string
  Mode :: string
  UseUDP :: bool
  WrapKeyHex :: string
  WrapAPassword :: string
  DeviceID :: string
  NumConns :: int
  TurnServer :: string
  TurnPort :: string
  CredPoolCooldownSeconds :: int
  WireGuard :: WGConfig
  SocksListen :: string
  HTTPListen :: string
  ControlListen :: string
  ControlToken :: string
  BindInterface :: string
  CookieHeader :: string

definition hasKey :: "jobj \<Rightarrow> string \<Rightarrow> bool" where "hasKey m k \<longleftrightarrow> map_of m k \<noteq> None"

definition getStr :: "jobj \<Rightarrow> string \<Rightarrow> string" where
  "getStr m k = (case as_str (jget m k) of Some v \<Rightarrow> TrimSpace v | None \<Rightarrow> [])"

definition getBool :: "jobj \<Rightarrow> string \<Rightarrow> bool" where
  "getBool m k = (case jget m k of JBool b \<Rightarrow> b | _ \<Rightarrow> False)"

definition getInt :: "jobj \<Rightarrow> string \<Rightarrow> int" where
  "getInt m k = (case jget m k of JNum q \<Rightarrow> int_of_float q | _ \<Rightarrow> 0)"

fun firstNonEmpty :: "string list \<Rightarrow> string" where
  "firstNonEmpty [] = []"
| "firstNonEmpty (v # vs) = (if v \<noteq> [] then v else firstNonEmpty vs)"

definition looksBase64 :: "string \<Rightarrow> bool" where
  "looksBase64 s \<longleftrightarrow> length s \<ge> 16 \<and> list_all (\<lambda>c. let n = (of_char c :: nat) in
     (65 \<le> n \<and> n \<le> 90) \<or> (97 \<le> n \<and> n \<le> 122) \<or> is_digit c \<or> c \<in> {CHR ''+'', CHR ''/'', CHR ''-'', CHR ''_'', CHR ''=''}) s"

datatype importError = NoDataParameter | DecodeLink | ReadFile | ParseJSON | MarshalFailed | WriteFile

text \<open>The text after the first \<open>data=\<close>.\<close>

fun afterData :: "string \<Rightarrow> string option" where
  "afterData [] = None"
| "afterData (c # cs) = (if HasPrefix (c # cs) ''data='' then Some (drop 5 (c # cs)) else afterData cs)"

definition loadSettings ::
  "(string \<Rightarrow> bytes option) \<Rightarrow> (bytes \<Rightarrow> jobj option) \<Rightarrow> string \<Rightarrow> importError + jobj" where
  "loadSettings readFile unmarshal src =
     (let trimmed = TrimSpace src;
          link = HasPrefix (ToLower trimmed) ''vkturnproxy://'';
          raw = (if link \<or> (CHR ''/'' \<notin> set trimmed \<and> char_of (92 :: nat) \<notin> set trimmed \<and> looksBase64 trimmed)
             then (case (if link then map_option (\<lambda>d. case Cut (CHR ''&'') d of None \<Rightarrow> d | Some (h, _) \<Rightarrow> h) (afterData trimmed)
                         else Some trimmed) of
                     None \<Rightarrow> Inl NoDataParameter
                   | Some b64 \<Rightarrow> (case decodeFlexibleBase64 b64 of None \<Rightarrow> Inl DecodeLink | Some d \<Rightarrow> Inr d))
             else (case readFile trimmed of None \<Rightarrow> Inl ReadFile | Some d \<Rightarrow> Inr d))
      in case raw of Inl e \<Rightarrow> Inl e
      | Inr d \<Rightarrow> (case unmarshal d of None \<Rightarrow> Inl ParseJSON
        | Some tp \<Rightarrow> (case as_obj (jget tp ''settings'') of Some s \<Rightarrow> Inr s | None \<Rightarrow> Inr tp)))"

definition importMode :: "jobj \<Rightarrow> string" where
  "importMode s =
     (if getBool s ''useWrapA'' then ''srtp-wrap-a''
      else if getBool s ''useSrtp'' then ''srtp''
      else if getBool s ''useWrap'' then ''srtp-wrap''
      else if hasKey s ''useSrtp'' \<or> hasKey s ''useWrap'' \<or> hasKey s ''useWrapA'' then ''legacy''
      else ''srtp'')"

definition importedConfig :: "jobj \<Rightarrow> CLIConfig" where
  "importedConfig s =
     (let ov = getStr s ''turnServerOverride'';
          cut = (case LastIndex (CHR '':'') ov of Some i \<Rightarrow> if i > 0 then Some (take i ov, drop (Suc i) ov) else None
                 | None \<Rightarrow> None);
          n = getInt s ''numConnections''
      in \<lparr>VKLink = firstNonEmpty [getStr s ''vkLink'', getStr s ''vk_link''],
          PeerAddr = firstNonEmpty [getStr s ''peerAddress'', getStr s ''peer_addr''],
          Mode = importMode s, UseUDP = getBool s ''useUDP'', WrapKeyHex = getStr s ''wrapKeyHex'',
          WrapAPassword = getStr s ''wrapAPassword'', DeviceID = [], NumConns = (if n \<le> 0 then 30 else n),
          TurnServer = (case cut of None \<Rightarrow> [] | Some (h, _) \<Rightarrow> h), TurnPort = (case cut of None \<Rightarrow> [] | Some (_, p) \<Rightarrow> p),
          CredPoolCooldownSeconds = 0,
          WireGuard = \<lparr>PrivateKey = getStr s ''privateKey'', PeerPublicKey = getStr s ''peerPublicKey'',
            PresharedKey = getStr s ''presharedKey'',
            wgAddress = firstNonEmpty [getStr s ''tunnelAddress'', ''192.168.102.3/24''],
            wgDNS = firstNonEmpty [getStr s ''dnsServers'', ''1.1.1.1''], wgMTU = 1280, PersistentKeepalive = 25\<rparr>,
          SocksListen = ''127.0.0.1:1080'', HTTPListen = ''127.0.0.1:1087'',
          ControlListen = [], ControlToken = [], BindInterface = [], CookieHeader = []\<rparr>)"

text \<open>
  \<open>importConfig\<close>: the JSON of the configuration and a newline go to the file (\<open>writeFile\<close> says whether
  that worked), and the summary warns about keys that are missing. A dash of the message is three bytes
  of UTF-8.
\<close>

definition dash :: string where "dash = map char_of [226, 128, 148 :: nat]"

definition importSummary :: "CLIConfig \<Rightarrow> string \<Rightarrow> string" where
  "importSummary cfg outPath =
     (let warn = (\<lambda>f. ''WARNING: wireguard.'' @ f @ '' is empty '' @ dash @ '' fill it in (see docs/config.md).'' @ [nl])
      in ''wrote '' @ outPath @ '' (mode='' @ Mode cfg @ '', server='' @ PeerAddr cfg @ '')'' @ [nl]
         @ (if Mode cfg \<noteq> ''srtp-wrap-a'' then
              (if PrivateKey (WireGuard cfg) = [] then warn ''private_key'' else [])
              @ (if PeerPublicKey (WireGuard cfg) = [] then warn ''peer_public_key'' else [])
            else [])
         @ ''Run: ./vk-turn-socks -config '' @ outPath)"

definition importConfig ::
  "(string \<Rightarrow> bytes option) \<Rightarrow> (bytes \<Rightarrow> jobj option) \<Rightarrow> (CLIConfig \<Rightarrow> bytes option) \<Rightarrow> (string \<Rightarrow> bytes \<Rightarrow> bool)
    \<Rightarrow> string \<Rightarrow> string \<Rightarrow> importError + (bytes \<times> string)" where
  "importConfig readFile unmarshal marshal writeFile src outPath =
     (case loadSettings readFile unmarshal src of Inl e \<Rightarrow> Inl e
      | Inr s \<Rightarrow>
        let cfg = importedConfig s in
        case marshal cfg of None \<Rightarrow> Inl MarshalFailed
        | Some out \<Rightarrow>
          if \<not> writeFile outPath (out @ [10]) then Inl WriteFile
          else Inr (out @ [10], importSummary cfg outPath))"

datatype configError = ConfigNotRead | ConfigNotParsed | NoVKLink | NoPeerAddr

definition loadConfig ::
  "(string \<Rightarrow> bytes option) \<Rightarrow> (bytes \<Rightarrow> CLIConfig option) \<Rightarrow> string \<Rightarrow> configError + CLIConfig" where
  "loadConfig readFile unmarshal path =
     (case readFile path of None \<Rightarrow> Inl ConfigNotRead
      | Some d \<Rightarrow> (case unmarshal d of None \<Rightarrow> Inl ConfigNotParsed
        | Some c \<Rightarrow> if VKLink c = [] then Inl NoVKLink else if PeerAddr c = [] then Inl NoPeerAddr else Inr c))"

text \<open>
  Where the configuration lies: an explicit path, the application-support path under the home directory,
  or the current directory when there is no home directory.
\<close>

definition appSupportConfigPath :: "string option \<Rightarrow> (string list \<Rightarrow> string) \<Rightarrow> string" where
  "appSupportConfigPath home joinPath =
     (case home of None \<Rightarrow> []
      | Some h \<Rightarrow> if h = [] then []
          else joinPath [h, ''Library'', ''Application Support'', ''VKTurnProxy'', ''config.json''])"

definition resolveConfigPath :: "string option \<Rightarrow> (string list \<Rightarrow> string) \<Rightarrow> string \<Rightarrow> string" where
  "resolveConfigPath home joinPath explicit =
     (if explicit \<noteq> [] then explicit
      else let p = appSupportConfigPath home joinPath in if p \<noteq> [] then p else ''config.json'')"

text \<open>The overrides and defaults \<open>main\<close> puts on the loaded configuration.\<close>

definition applyFlags :: "string \<Rightarrow> string \<Rightarrow> string \<Rightarrow> string \<Rightarrow> CLIConfig \<Rightarrow> CLIConfig" where
  "applyFlags socks http control token cfg =
     (let c1 = (if socks \<noteq> [] then cfg\<lparr>SocksListen := socks\<rparr> else cfg);
          c2 = (if http \<noteq> [] then c1\<lparr>HTTPListen := http\<rparr> else c1);
          c3 = (if control \<noteq> [] then c2\<lparr>ControlListen := control\<rparr> else c2);
          c4 = (if token \<noteq> [] then c3\<lparr>ControlToken := token\<rparr> else c3);
          c5 = (if SocksListen c4 = [] then c4\<lparr>SocksListen := ''127.0.0.1:1080''\<rparr> else c4)
      in if NumConns c5 \<le> 0 then c5\<lparr>NumConns := 30\<rparr> else c5)"

datatype runError = UnknownMode string | BadWrapKey | NoWrapAPassword

record transport =
  useSrtp :: bool
  useWrap :: bool
  useWrapA :: bool
  wrapKey :: bytes

text \<open>The start of \<open>run\<close>: the mode, the key and the password checked before anything is started.\<close>

definition transportOf :: "CLIConfig \<Rightarrow> runError + transport" where
  "transportOf cfg =
     (let m = ToLower (Mode cfg) in
      if m \<notin> {'''', ''srtp'', ''legacy'', ''srtp-wrap'', ''wrap'', ''srtp-wrap-a'', ''wrap-a'', ''wrapa''} then Inl (UnknownMode (Mode cfg))
      else
        let srtp = (m = '''' \<or> m = ''srtp''); wrap = (m = ''srtp-wrap'' \<or> m = ''wrap'');
            wrapa = (m = ''srtp-wrap-a'' \<or> m = ''wrap-a'' \<or> m = ''wrapa'')
        in if wrap then (case hex_decode (TrimSpace (WrapKeyHex cfg)) of
                 None \<Rightarrow> Inl BadWrapKey
               | Some k \<Rightarrow> if length k \<noteq> 32 then Inl BadWrapKey
                   else Inr \<lparr>useSrtp = False, useWrap = True, useWrapA = False, wrapKey = k\<rparr>)
           else if wrapa \<and> WrapAPassword cfg = [] then Inl NoWrapAPassword
           else Inr \<lparr>useSrtp = srtp, useWrap = False, useWrapA = wrapa, wrapKey = []\<rparr>)"

end
