(* ===== verification/CliConfigProps.thy ===== *)
theory CliConfigProps
  imports CliConfig
begin

text \<open>
  Properties of the configuration side: keys and connection links survive every base64 spelling the
  tools accept, an imported link gives a configuration the program starts with, and the GETCONF parser
  computes what a declarative reading of the INI text says.
\<close>

section \<open>Base64 spellings\<close>

lemma in_alphabet: "n < 64 \<Longrightarrow> sextet_char n \<in> set alphabet"
  unfolding sextet_char_def by (rule nth_mem) (simp add: alphabet_def)

lemma b64_shape:
  "\<exists>body k. b64_encode bs = body @ replicate k (CHR ''='') \<and> k < 4 \<and> (length body + k) mod 4 = 0
     \<and> set body \<subseteq> set alphabet"
proof (induction bs rule: b64_encode.induct)
  case 1
  show ?case by (intro exI [of _ "[]"] exI [of _ 0]) simp
next
  case (2 a)
  let ?n = "unat a"
  show ?case
    using unat_byte [of a]
    by (intro exI [of _ "[sextet_char (?n div 4), sextet_char (?n mod 4 * 16)]"] exI [of _ 2])
      (auto simp: Let_def numeral_2_eq_2 intro!: in_alphabet)
next
  case (3 a b)
  define n where "n = unat a * 256 + unat b"
  define q where "q = [sextet_char (n div 1024), sextet_char (n div 16 mod 64), sextet_char (n mod 16 * 4)]"
  have "n < 65536" using unat_byte [of a] unat_byte [of b] by (simp add: n_def)
  then have "set q \<subseteq> set alphabet" by (auto simp: q_def intro!: in_alphabet)
  moreover have "b64_encode [a, b] = q @ replicate 1 (CHR ''='')" by (simp add: q_def n_def Let_def)
  ultimately show ?case by (intro exI [of _ q] exI [of _ 1]) (simp add: q_def)
next
  case (4 a b c bs)
  from 4 [OF refl] obtain body k where bk: "b64_encode bs = body @ replicate k (CHR ''='')" "k < 4" "(length body + k) mod 4 = 0"
    "set body \<subseteq> set alphabet" by (elim exE conjE) (rule that)
  define n where "n = unat a * 65536 + unat b * 256 + unat c"
  define q where "q = [sextet_char (n div 262144), sextet_char (n div 4096 mod 64), sextet_char (n div 64 mod 64),
      sextet_char (n mod 64)]"
  have "n < 16777216" using unat_byte [of a] unat_byte [of b] unat_byte [of c] by (simp add: n_def)
  then have "set (q @ body) \<subseteq> set alphabet" using bk(4) by (auto simp: q_def intro!: in_alphabet)
  moreover have "(length (q @ body) + k) mod 4 = 0" using bk(3) unfolding q_def by simp
  moreover have "b64_encode (a # b # c # bs) = (q @ body) @ replicate k (CHR ''='')"
    using bk(1) by (simp add: q_def n_def Let_def)
  ultimately show ?case using bk(2) by (intro exI [of _ "q @ body"] exI [of _ k] conjI)
qed

definition urlSafe :: "string \<Rightarrow> string" where
  "urlSafe s = ReplaceAll (CHR ''/'') (CHR ''_'') (ReplaceAll (CHR ''+'') (CHR ''-'') s)"

definition unpadded :: "string \<Rightarrow> string" where "unpadded s = filter (\<lambda>c. c \<noteq> CHR ''='') s"

text \<open>The four spellings of a byte string: either alphabet, with or without the padding.\<close>

definition spellings :: "bytes \<Rightarrow> string list" where
  "spellings bs = (let s = b64_encode bs in [s, unpadded s, urlSafe s, urlSafe (unpadded s)])"

definition b64char :: "char \<Rightarrow> bool" where
  "b64char c \<longleftrightarrow> c \<in> set alphabet \<or> c = CHR ''=''"

lemma alphabet_plain:
  "list_all (\<lambda>c. c \<noteq> CHR ''='' \<and> c \<noteq> CHR ''-'' \<and> c \<noteq> CHR ''_'' \<and> c \<noteq> CHR ''&'' \<and> \<not> is_space c) alphabet"
  by code_simp

lemma alphabetD:
  assumes "c \<in> set alphabet"
  shows "c \<noteq> CHR ''=''" "c \<noteq> CHR ''-''" "c \<noteq> CHR ''_''" "c \<noteq> CHR ''&''" "\<not> is_space c"
  using alphabet_plain assms by (auto simp: list_all_iff)

lemma b64charD:
  assumes "b64char c"
  shows "c \<noteq> CHR ''-''" "c \<noteq> CHR ''_''" "c \<noteq> CHR ''&''" "\<not> is_space c"
  using assms alphabetD [of c] by (auto simp: b64char_def is_space_def)

lemma b64_chars: "set (b64_encode bs) \<subseteq> Collect b64char"
  using b64_shape [of bs] by (auto simp: b64char_def)

lemma unsafe_urlSafe:
  assumes "set s \<subseteq> Collect b64char"
  shows "ReplaceAll (CHR ''_'') (CHR ''/'') (ReplaceAll (CHR ''-'') (CHR ''+'') (urlSafe s)) = s"
    and "ReplaceAll (CHR ''_'') (CHR ''/'') (ReplaceAll (CHR ''-'') (CHR ''+'') s) = s"
  using assms b64charD(1,2) unfolding ReplaceAll_def urlSafe_def map_map
  by (auto intro!: map_idI)

lemma pad_spelling: "padB64 (b64_encode bs) = b64_encode bs" "padB64 (unpadded (b64_encode bs)) = b64_encode bs"
proof -
  obtain body k where b: "b64_encode bs = body @ replicate k (CHR ''='')" "k < 4" "(length body + k) mod 4 = 0"
    "set body \<subseteq> set alphabet" using b64_shape [of bs] by (elim exE conjE) (rule that)
  have u: "unpadded (b64_encode bs) = body"
    using b(4) alphabetD(1) by (auto simp: unpadded_def b(1) filter_id_conv)
  show "padB64 (b64_encode bs) = b64_encode bs" using b by (simp add: padB64_def Let_def)
  show "padB64 (unpadded (b64_encode bs)) = b64_encode bs"
  proof (cases "k = 0")
    case True
    then show ?thesis using b u by (simp add: padB64_def Let_def)
  next
    case False
    then have "length body mod 4 = 4 - k" using b(2,3) by presburger
    then show ?thesis using b u False by (simp add: padB64_def Let_def)
  qed
qed

lemma TrimSpace_padded:
  assumes "\<forall>c \<in> set s. \<not> is_space c" "list_all is_space l" "list_all is_space r"
  shows "TrimSpace (l @ s @ r) = s"
proof -
  have dw: "dropWhile is_space t = t" if "\<forall>c \<in> set t. \<not> is_space c" for t
    using that by (cases t) simp_all
  have "dropWhile is_space (l @ s @ r) = dropWhile is_space (s @ r)"
    using assms(2) by (simp add: dropWhile_append2 list_all_iff)
  moreover have "rev (dropWhile is_space (rev (dropWhile is_space (s @ r)))) = s"
  proof (cases s)
    case Nil
    then show ?thesis using assms(3) by (auto simp: list_all_iff dropWhile_eq_Nil_conv dest: set_dropWhileD)
  next
    case (Cons c cs)
    then have "dropWhile is_space (s @ r) = s @ r" using assms(1) by simp
    moreover have "dropWhile is_space (rev r @ rev s) = rev s"
      using assms(1,3) dw [of "rev s"] by (subst dropWhile_append2) (simp_all add: list_all_iff)
    ultimately show ?thesis by simp
  qed
  ultimately show ?thesis by (simp add: TrimSpace_def TrimLeft_def)
qed

lemma spelling_chars:
  assumes "t \<in> set (spellings bs)" "c \<in> set t"
  shows "\<not> is_space c \<and> c \<noteq> CHR ''&''"
proof -
  have "b64char d \<Longrightarrow> \<not> is_space d \<and> d \<noteq> CHR ''&''" for d using b64charD by blast
  moreover have "b64char c \<or> c = CHR ''-'' \<or> c = CHR ''_''"
    using assms b64_chars [of bs]
    by (auto simp: spellings_def Let_def urlSafe_def ReplaceAll_def unpadded_def split: if_splits)
  ultimately show ?thesis by (auto simp: is_space_def)
qed

text \<open>The clean-up before decoding turns every spelling into the standard one.\<close>

lemma spelling_normal:
  assumes "t \<in> set (spellings bs)"
  shows "padB64 (ReplaceAll (CHR ''_'') (CHR ''/'') (ReplaceAll (CHR ''-'') (CHR ''+'') t)) = b64_encode bs"
proof -
  have p: "set (unpadded (b64_encode bs)) \<subseteq> Collect b64char" using b64_chars [of bs] by (auto simp: unpadded_def)
  show ?thesis
    using assms by (auto simp: spellings_def Let_def unsafe_urlSafe [OF b64_chars] unsafe_urlSafe [OF p] pad_spelling)
qed

lemma decodeFlexible_spelling:
  assumes "t \<in> set (spellings bs)" "list_all is_space l" "list_all is_space r"
  shows "decodeFlexibleBase64 (l @ t @ r) = Some bs"
proof -
  have "TrimSpace (l @ t @ r) = t" using TrimSpace_padded assms spelling_chars by blast
  then show ?thesis using spelling_normal [OF assms(1)] by (simp add: decodeFlexibleBase64_def)
qed

text \<open>
  A 32-byte WireGuard key given in any of the four base64 spellings, with any white space around
  it, is rendered as the hex of the key, from which the key can be read back; on the standard spelling
  the two key readers of the program agree; and a key of any other length is refused with its length.
\<close>

theorem wg_key_spellings:
  assumes "t \<in> set (spellings key)" "list_all is_space l" "list_all is_space r" "key \<noteq> []"
  shows "wgKeyHex (l @ t @ r) = (if length key = 32 then Inr (hex_encode key) else Inl (KeyLength (length key)))
    \<and> keyB64toHex (b64_encode key) = wgKeyHex (l @ t @ r) \<and> hex_decode (hex_encode key) = Some key"
proof -
  have t: "TrimSpace (l @ t @ r) = t" using TrimSpace_padded assms(1-3) spelling_chars by blast
  have "b64_encode key \<noteq> []" using assms(4) b64_roundtrip [of key] by (auto simp: b64_decode_def)
  then have "t \<noteq> []" using spelling_normal [OF assms(1)] by (auto simp: padB64_def ReplaceAll_def)
  then have w: "wgKeyHex (l @ t @ r) = (if length key = 32 then Inr (hex_encode key) else Inl (KeyLength (length key)))"
    using t spelling_normal [OF assms(1)] by (simp add: wgKeyHex_def)
  show ?thesis unfolding w by (simp add: keyB64toHex_def)
qed

theorem wg_key_spellings_witness:
  "wgKeyHex ('' '' @ urlSafe (unpadded (b64_encode (replicate 32 255))) @ [nl]) = Inr (hex_encode (replicate 32 255))"
  using wg_key_spellings [of "urlSafe (unpadded (b64_encode (replicate 32 255)))" "replicate 32 255" "'' ''" "[nl]"]
  by (simp add: spellings_def Let_def is_space_def nl_def)

section \<open>Connection links\<close>

lemma TrimSpace_idem [simp]: "TrimSpace (TrimSpace s) = TrimSpace s"
proof -
  define v where "v = dropWhile is_space s"
  define w where "w = rev (dropWhile is_space (rev v))"
  have vw: "v = w @ rev (takeWhile is_space (rev v))"
    unfolding w_def by (metis rev_append rev_rev_ident takeWhile_dropWhile_id)
  have "dropWhile is_space w = w"
  proof (cases w)
    case (Cons c cs)
    then obtain z where "v = c # z" using vw by (metis append_Cons)
    then have "hd v = c" "v \<noteq> []" by simp_all
    then have "\<not> is_space c" using hd_dropWhile [of is_space s] by (simp add: v_def)
    then show ?thesis using Cons by simp
  qed simp
  moreover have "dropWhile is_space (rev w) = rev w" by (simp add: w_def)
  moreover have "TrimSpace s = w" by (simp add: TrimSpace_def TrimLeft_def v_def w_def)
  ultimately show ?thesis by (simp add: TrimSpace_def TrimLeft_def)
qed

lemma Cut_spelling:
  assumes "t \<in> set (spellings d)" "extra = [] \<or> (\<exists>q. extra = CHR ''&'' # q)"
  shows "(case Cut (CHR ''&'') (t @ extra) of None \<Rightarrow> t @ extra | Some (h, _) \<Rightarrow> h) = t"
proof -
  have "CHR ''&'' \<notin> set t" using spelling_chars [OF assms(1)] by blast
  then have "takeWhile (\<lambda>c. c \<noteq> CHR ''&'') (t @ CHR ''&'' # q) = t" for q
    by (subst takeWhile_append2) auto
  then show ?thesis using assms(2) \<open>CHR ''&'' \<notin> set t\<close> by (auto simp: Cut_def)
qed

definition linkPrefix :: string where "linkPrefix = ''vkturnproxy://import?data=''"

lemma linkPrefix:
  "HasPrefix (ToLower (linkPrefix @ x)) ''vkturnproxy://''" "afterData (linkPrefix @ x) = Some x"
  "\<forall>c \<in> set linkPrefix. \<not> is_space c"
  by (simp_all add: linkPrefix_def HasPrefix_def ToLower_def lower_char_def Let_def is_space_def)

definition settingsOf :: "jobj \<Rightarrow> jobj" where
  "settingsOf tp = (case as_obj (jget tp ''settings'') of Some s \<Rightarrow> s | None \<Rightarrow> tp)"

lemma link_settings:
  assumes "t \<in> set (spellings d)" "extra = [] \<or> (\<exists>q. extra = CHR ''&'' # q)" "\<forall>c \<in> set extra. \<not> is_space c"
    and "list_all is_space l" "list_all is_space r" "unmarshal d = Some tp"
  shows "loadSettings readFile unmarshal (l @ (linkPrefix @ t @ extra) @ r) = Inr (settingsOf tp)"
proof -
  have "\<forall>c \<in> set (linkPrefix @ t @ extra). \<not> is_space c"
    using spelling_chars [OF assms(1)] assms(3) linkPrefix(3) by auto
  then have tr: "TrimSpace (l @ (linkPrefix @ t @ extra) @ r) = linkPrefix @ t @ extra"
    using TrimSpace_padded assms(4,5) by blast
  have dec: "decodeFlexibleBase64 t = Some d"
    using decodeFlexible_spelling [OF assms(1), of "[]" "[]"] by simp
  show ?thesis
    unfolding loadSettings_def tr Let_def settingsOf_def
    using assms(6) by (simp add: linkPrefix Cut_spelling [OF assms(1,2)] dec split: option.split)
qed

text \<open>The transport the flags of the settings ask for.\<close>

definition wantedTransport :: "jobj \<Rightarrow> runError + transport" where
  "wantedTransport s =
     (if getBool s ''useWrapA'' then
        (if getStr s ''wrapAPassword'' = [] then Inl NoWrapAPassword
         else Inr \<lparr>useSrtp = False, useWrap = False, useWrapA = True, wrapKey = []\<rparr>)
      else if getBool s ''useSrtp'' then Inr \<lparr>useSrtp = True, useWrap = False, useWrapA = False, wrapKey = []\<rparr>
      else if getBool s ''useWrap'' then
        (case hex_decode (getStr s ''wrapKeyHex'') of
           Some k \<Rightarrow> if length k = 32 then Inr \<lparr>useSrtp = False, useWrap = True, useWrapA = False, wrapKey = k\<rparr> else Inl BadWrapKey
         | None \<Rightarrow> Inl BadWrapKey)
      else Inr \<lparr>useSrtp = \<not> (hasKey s ''useSrtp'' \<or> hasKey s ''useWrap'' \<or> hasKey s ''useWrapA''), useWrap = False,
             useWrapA = False, wrapKey = []\<rparr>)"

lemma TrimSpace_getStr [simp]: "TrimSpace (getStr s k) = getStr s k"
  by (cases "as_str (jget s k)") (simp_all add: getStr_def, simp add: TrimSpace_def TrimLeft_def)

lemma lower_modes:
  "ToLower ''srtp-wrap-a'' = ''srtp-wrap-a''" "ToLower ''srtp'' = ''srtp''" "ToLower ''srtp-wrap'' = ''srtp-wrap''"
  "ToLower ''legacy'' = ''legacy''"
  by (simp_all add: ToLower_def lower_char_def)

lemma applyFlags_keeps [simp]:
  "Mode (applyFlags a b c t cfg) = Mode cfg" "WrapKeyHex (applyFlags a b c t cfg) = WrapKeyHex cfg"
  "WrapAPassword (applyFlags a b c t cfg) = WrapAPassword cfg"
  by (simp_all add: applyFlags_def Let_def)

lemma imported_fields [simp]:
  "Mode (importedConfig s) = importMode s" "WrapKeyHex (importedConfig s) = getStr s ''wrapKeyHex''"
  "WrapAPassword (importedConfig s) = getStr s ''wrapAPassword''"
  by (simp_all add: importedConfig_def Let_def)

lemma transport_wanted: "transportOf (applyFlags a b c t (importedConfig s)) = wantedTransport s"
  unfolding transportOf_def wantedTransport_def
  by (simp add: importMode_def lower_modes Let_def split: option.split)



section \<open>GETCONF\<close>

text \<open>
  The reading of the INI text the parser is meant to compute: the key/value lines, and for each key the
  value of the last line that gives it.
\<close>

definition iniPair :: "string \<Rightarrow> (string \<times> string) option" where
  "iniPair l = map_option (map_prod TrimSpace TrimSpace) (Cut (CHR ''='') (TrimSpace l))"

definition iniValues :: "string list \<Rightarrow> string \<Rightarrow> string option" where
  "iniValues ls = map_of (rev (List.map_filter iniPair ls))"

definition valueOr :: "string \<Rightarrow> string option \<Rightarrow> string" where
  "valueOr d r = (case r of None \<Rightarrow> d | Some v \<Rightarrow> v)"

definition numberOr :: "int \<Rightarrow> string option \<Rightarrow> int" where
  "numberOr d r = (case r of None \<Rightarrow> d | Some v \<Rightarrow> positiveOr d (Sscanf_d v))"

definition dnsOr :: "string \<Rightarrow> string option \<Rightarrow> string" where
  "dnsOr d r = (case r of None \<Rightarrow> d | Some v \<Rightarrow> TrimSpace (hd (Split (CHR '','') v)))"

definition iniStateOf :: "(string \<Rightarrow> string option) \<Rightarrow> iniState" where
  "iniStateOf val =
     \<lparr>prov = \<lparr>PrivateKeyHex = [], PeerPublicKeyHex = [], wpAddress = valueOr [] (val ''Address''),
        DNS = dnsOr ''1.1.1.1'' (val ''DNS''), MTU = numberOr 1280 (val ''MTU''),
        KeepaliveSec = numberOr 25 (val ''PersistentKeepalive'')\<rparr>,
      privB64 = valueOr [] (val ''PrivateKey''), pubB64 = valueOr [] (val ''PublicKey'')\<rparr>"

definition provisionSpec :: "string \<Rightarrow> confError + WrapAProvision" where
  "provisionSpec ini =
     (let val = iniValues (Split nl ini) in
      case (val ''PrivateKey'', val ''PublicKey'', val ''Address'') of
        (Some priv, Some pub, Some addr) \<Rightarrow>
          if priv = [] \<or> pub = [] \<or> addr = [] then Inl IniMissing
          else (case keyB64toHex priv of Inl e \<Rightarrow> Inl e
            | Inr p \<Rightarrow> (case keyB64toHex pub of Inl e \<Rightarrow> Inl e
              | Inr q \<Rightarrow> Inr \<lparr>PrivateKeyHex = p, PeerPublicKeyHex = q, wpAddress = addr, DNS = dnsOr ''1.1.1.1'' (val ''DNS''),
                  MTU = numberOr 1280 (val ''MTU''), KeepaliveSec = numberOr 25 (val ''PersistentKeepalive'')\<rparr>))
      | _ \<Rightarrow> Inl IniMissing)"

lemma iniValues_Nil [simp]: "iniValues [] = Map.empty"
  by (simp add: iniValues_def List.map_filter_simps)

lemma iniValues_snoc:
  "iniValues (ls @ [l]) = (case iniPair l of None \<Rightarrow> iniValues ls | Some (k, v) \<Rightarrow> (iniValues ls)(k \<mapsto> v))"
  by (cases "iniPair l") (auto simp: iniValues_def List.map_filter_def)

lemma iniLine_step:
  "iniLine (iniStateOf val) l = iniStateOf (case iniPair l of None \<Rightarrow> val | Some (k, v) \<Rightarrow> val(k \<mapsto> v))"
  by (cases "Cut (CHR ''='') (TrimSpace l)")
    (auto simp: iniLine_def iniPair_def iniStateOf_def Let_def valueOr_def numberOr_def dnsOr_def)

lemma ini_fold: "foldl iniLine (iniStateOf Map.empty) ls = iniStateOf (iniValues ls)"
  by (induction ls rule: rev_induct) (simp_all add: iniValues_snoc iniLine_step)

lemma parse_is_spec: "parseWGINIToProvision ini = provisionSpec ini"
proof -
  have "\<lparr>prov = \<lparr>PrivateKeyHex = [], PeerPublicKeyHex = [], wpAddress = [], DNS = ''1.1.1.1'', MTU = 1280,
      KeepaliveSec = 25\<rparr>, privB64 = [], pubB64 = []\<rparr> = iniStateOf Map.empty"
    by (simp add: iniStateOf_def valueOr_def numberOr_def dnsOr_def)
  note f = ini_fold [folded this]
  show ?thesis
    unfolding parseWGINIToProvision_def provisionSpec_def Let_def f
    by (simp add: iniStateOf_def valueOr_def split: option.split sum.split)
qed


lemma keyB64toHex_length: "keyB64toHex s = Inr h \<Longrightarrow> length h = 64 \<and> (\<exists>k. length k = 32 \<and> b64_decode s = Some k \<and> hex_decode h = Some k)"
  by (auto simp: keyB64toHex_def split: option.splits if_splits)

lemma numberOr_pos: "0 < d \<Longrightarrow> 0 < numberOr d r"
  by (auto simp: numberOr_def positiveOr_def split: option.split)

lemma provision_valid:
  assumes "provisionSpec ini = Inr wp"
  shows "length (PrivateKeyHex wp) = 64 \<and> length (PeerPublicKeyHex wp) = 64 \<and> wpAddress wp \<noteq> [] \<and> 0 < MTU wp \<and> 0 < KeepaliveSec wp"
  using assms keyB64toHex_length
  by (auto simp: provisionSpec_def Let_def numberOr_pos split: option.splits sum.splits if_splits)

text \<open>
  What the GETCONF exchange gives: nothing is sent without a device id and a password, a denial and a
  missing configuration are errors of their own, and a provision that is accepted has two keys of 32
  bytes, an address and a positive MTU and keepalive, so that the UAPI text rendered from it keeps the
  server's keepalive.
\<close>

theorem getconf_exchange_valid:
  assumes "doGetconf wrote response deviceID password = (sent, res)"
  shows "(deviceID = [] \<or> password = [] \<longrightarrow> sent = None)
    \<and> (sent \<noteq> None \<longrightarrow> sent = Some (''GETCONF:51820|'' @ deviceID @ ''|'' @ password))
    \<and> (\<forall>wp. res = Inr wp \<longrightarrow>
        (\<exists>raw. response = Some raw \<and> wrote \<and> sent \<noteq> None \<and> \<not> HasPrefix (TrimSpace (take 4096 raw)) ''DENIED:''
          \<and> TrimSpace (take 4096 raw) \<noteq> ''NOCONF'')
        \<and> length (PrivateKeyHex wp) = 64 \<and> length (PeerPublicKeyHex wp) = 64 \<and> wpAddress wp \<noteq> []
        \<and> 0 < MTU wp \<and> 0 < KeepaliveSec wp
        \<and> UAPIConfig wp = ''private_key='' @ PrivateKeyHex wp @ [nl] @ ''public_key='' @ PeerPublicKeyHex wp @ [nl]
            @ ''allowed_ip=0.0.0.0/0'' @ [nl] @ ''endpoint=127.0.0.1:51820'' @ [nl]
            @ ''persistent_keepalive_interval='' @ Itoa (KeepaliveSec wp) @ [nl])"
proof -
  have "doGetconf wrote response deviceID password =
      ((if deviceID = [] \<or> password = [] then None else Some (''GETCONF:51820|'' @ deviceID @ ''|'' @ password)),
       if deviceID = [] then Inl EmptyDeviceID else if password = [] then Inl NoPassword
       else if \<not> wrote then Inl WriteFailed
       else case response of None \<Rightarrow> Inl ReadFailed
       | Some raw \<Rightarrow> let resp = TrimSpace (take 4096 raw) in
           if resp = ''NOCONF'' then Inl NoConf
           else if HasPrefix resp ''DENIED:'' then Inl (Denied (TrimPrefix resp ''DENIED:''))
           else provisionSpec resp)"
    by (simp add: doGetconf_def Let_def parse_is_spec wrapAGetconfPort_def split: option.split)
  then have res: "res = (if deviceID = [] then Inl EmptyDeviceID else if password = [] then Inl NoPassword
       else if \<not> wrote then Inl WriteFailed
       else case response of None \<Rightarrow> Inl ReadFailed
       | Some raw \<Rightarrow> let resp = TrimSpace (take 4096 raw) in
           if resp = ''NOCONF'' then Inl NoConf
           else if HasPrefix resp ''DENIED:'' then Inl (Denied (TrimPrefix resp ''DENIED:''))
           else provisionSpec resp)"
    and sent: "sent = (if deviceID = [] \<or> password = [] then None else Some (''GETCONF:51820|'' @ deviceID @ ''|'' @ password))"
    using assms by simp_all
  show ?thesis
  proof (intro conjI allI impI)
    fix wp assume r: "res = Inr wp"
    then obtain raw where raw: "response = Some raw" "wrote" "sent \<noteq> None"
      "\<not> HasPrefix (TrimSpace (take 4096 raw)) ''DENIED:''" "TrimSpace (take 4096 raw) \<noteq> ''NOCONF''"
      "provisionSpec (TrimSpace (take 4096 raw)) = Inr wp"
      unfolding res sent by (auto simp: Let_def split: if_splits option.splits)
    note v = provision_valid [OF raw(6)]
    show "\<exists>raw. response = Some raw \<and> wrote \<and> sent \<noteq> None \<and> \<not> HasPrefix (TrimSpace (take 4096 raw)) ''DENIED:''
        \<and> TrimSpace (take 4096 raw) \<noteq> ''NOCONF''" using raw(1-5) by blast
    show "length (PrivateKeyHex wp) = 64" "length (PeerPublicKeyHex wp) = 64" "wpAddress wp \<noteq> []" "0 < MTU wp"
      "0 < KeepaliveSec wp" using v by simp_all
    show "UAPIConfig wp = ''private_key='' @ PrivateKeyHex wp @ [nl] @ ''public_key='' @ PeerPublicKeyHex wp @ [nl]
            @ ''allowed_ip=0.0.0.0/0'' @ [nl] @ ''endpoint=127.0.0.1:51820'' @ [nl]
            @ ''persistent_keepalive_interval='' @ Itoa (KeepaliveSec wp) @ [nl]"
      using v by (simp add: UAPIConfig_def Let_def wrapAGetconfPort_def)
  qed (auto simp: sent split: if_splits)
qed

definition zeroKey :: string where "zeroKey = ''AAAAAAAAAAAAAAAAAAAAAAAAAAAAAAAAAAAAAAAAAAA=''"

definition sampleIni :: string where
  "sampleIni = Join [nl] [''[Interface]'', ''PrivateKey = '' @ zeroKey, ''Address = 10.66.66.2/32'',
     ''MTU = 0'', ''[Peer]'', ''PublicKey = '' @ zeroKey, ''PersistentKeepalive = 15'']"

lemma zeroKey_hex: "\<exists>h. keyB64toHex zeroKey = Inr h"
proof -
  have "char_sextet (CHR ''A'') = Some 0" by code_simp
  then show ?thesis by (simp add: keyB64toHex_def b64_decode_def zeroKey_def)
qed

lemma sample_trimmed: "TrimSpace (take 4096 sampleIni) = sampleIni"
proof -
  have "length sampleIni \<le> 4096" by (simp add: sampleIni_def zeroKey_def)
  moreover have "TrimSpace sampleIni = sampleIni" by code_simp
  ultimately show ?thesis by simp
qed

lemma sample_values:
  "List.map_filter iniPair (Split nl sampleIni) =
     [(''PrivateKey'', zeroKey), (''Address'', ''10.66.66.2/32''), (''MTU'', ''0''), (''PublicKey'', zeroKey),
      (''PersistentKeepalive'', ''15'')]"
  "\<not> HasPrefix sampleIni ''DENIED:''" "sampleIni \<noteq> ''NOCONF''"
  by code_simp+

lemma sample_numbers: "numberOr 1280 (Some ''0'') = 1280" "numberOr 25 (Some ''15'') = 15"
  by (simp_all add: numberOr_def positiveOr_def Sscanf_d_def ParseInt64_def Let_def is_digit_def digits_val_def digit_val_def)

theorem getconf_exchange_valid_witness:
  "case doGetconf True (Some sampleIni) ''dev'' ''pw'' of (sent, res) \<Rightarrow>
     sent = Some ''GETCONF:51820|dev|pw''
     \<and> (case res of Inl _ \<Rightarrow> False | Inr wp \<Rightarrow> length (PrivateKeyHex wp) = 64 \<and> MTU wp = 1280 \<and> KeepaliveSec wp = 15)"
proof -
  obtain wp where p: "provisionSpec (TrimSpace (take 4096 sampleIni)) = Inr wp" "MTU wp = 1280" "KeepaliveSec wp = 15"
    using zeroKey_hex sample_numbers
    by (auto simp: sample_trimmed provisionSpec_def Let_def iniValues_def sample_values(1) zeroKey_def)
  have d: "doGetconf True (Some sampleIni) ''dev'' ''pw'' = (Some ''GETCONF:51820|dev|pw'', Inr wp)"
    using sample_values(2,3) p(1) by (simp add: sample_trimmed doGetconf_def Let_def wrapAGetconfPort_def parse_is_spec)
  show ?thesis using getconf_exchange_valid [OF d] p unfolding d by simp
qed

end
