(* ===== verification/Deadline.thy ===== *)
theory Deadline
  imports Prelude Systems
begin

text \<open>
  The read deadlines of \<open>pkg/proxy/srtpwrap/srtp.go\<close>. A blocked read waits on a channel that is closed when
  the deadline passes. The file has two implementations: \<open>packetConnAdapter\<close> makes a channel and a timer for
  every call of \<open>setDl\<close>, \<open>wrappedConn\<close> reuses one timer and replaces its channel only after it was closed.
  Channels are numbers; closing a closed channel is recorded as a panic. A timer that is due has its
  callback started at some later point, and a started callback runs when it gets the lock: these are
  steps of their own, so a callback may run after the deadline it was armed for was replaced.
\<close>

section \<open>Channels\<close>

record chans =
  closedChs :: "nat set"
  nextCh :: nat
  panicked :: bool

definition closeChan :: "nat \<Rightarrow> 'a chans_scheme \<Rightarrow> 'a chans_scheme" where
  "closeChan c s = (if c \<in> closedChs s then s\<lparr>panicked := True\<rparr> else s\<lparr>closedChs := insert c (closedChs s)\<rparr>)"

definition expiredAt :: "gotime \<Rightarrow> gotime \<Rightarrow> bool" where
  "expiredAt now t \<longleftrightarrow> \<not> IsZero t \<and> \<not> now < t"

section \<open>packetConnAdapter\<close>

record adapterDl = chans +
  dlExpA :: gotime
  dlChA :: "nat option"
  timersA :: "(gotime \<times> nat) list"
  runA :: "nat list"

definition initA :: adapterDl where
  "initA = \<lparr>closedChs = {}, nextCh = 0, panicked = False, dlExpA = 0, dlChA = None, timersA = [], runA = []\<rparr>"

definition deadlineChA :: "adapterDl \<Rightarrow> adapterDl \<times> nat" where
  "deadlineChA s =
     (case dlChA s of
        None \<Rightarrow> (s\<lparr>dlChA := Some (nextCh s), nextCh := Suc (nextCh s)\<rparr>, nextCh s)
      | Some c \<Rightarrow> (s, c))"

definition setDlA :: "gotime \<Rightarrow> gotime \<Rightarrow> adapterDl \<Rightarrow> adapterDl" where
  "setDlA now t s =
     (let s1 = (case dlChA s of None \<Rightarrow> s | Some c \<Rightarrow> if c \<in> closedChs s then s else closeChan c s);
          ch = nextCh s1;
          s2 = s1\<lparr>nextCh := Suc ch, dlChA := Some ch, dlExpA := t\<rparr>
      in if IsZero t then s2
         else let dur = time_Sub t now in
              if dur \<le> 0 then closeChan ch s2
              else s2\<lparr>timersA := (now + dur, ch) # timersA s2\<rparr>)"

text \<open>The callback of the timer that was armed for the channel \<open>ch\<close>.\<close>

definition fireA :: "nat \<Rightarrow> adapterDl \<Rightarrow> adapterDl" where
  "fireA ch s = (if dlChA s \<noteq> Some ch then s else if ch \<in> closedChs s then s else closeChan ch s)"

inductive timerStepA :: "gotime \<Rightarrow> adapterDl \<Rightarrow> adapterDl \<Rightarrow> bool" for now where
  dueA: "(d, ch) \<in> set (timersA s) \<Longrightarrow> d \<le> now
    \<Longrightarrow> timerStepA now s (s\<lparr>timersA := remove1 (d, ch) (timersA s), runA := ch # runA s\<rparr>)"
| runA: "ch \<in> set (runA s) \<Longrightarrow> timerStepA now s (fireA ch (s\<lparr>runA := remove1 ch (runA s)\<rparr>))"

section \<open>wrappedConn\<close>

text \<open>\<open>dlTimer\<close>: no timer yet, a timer that is stopped or has fired, or one due at a time.\<close>

record wrappedDl = chans +
  dlExpW :: gotime
  dlChW :: "nat option"
  dlClosed :: bool
  dlTimer :: "gotime option option"
  runW :: nat

definition initW :: wrappedDl where
  "initW = \<lparr>closedChs = {}, nextCh = 0, panicked = False, dlExpW = 0, dlChW = None, dlClosed = False,
     dlTimer = None, runW = 0\<rparr>"

definition deadlineChW :: "wrappedDl \<Rightarrow> wrappedDl \<times> nat" where
  "deadlineChW s =
     (case dlChW s of
        None \<Rightarrow> (s\<lparr>dlChW := Some (nextCh s), nextCh := Suc (nextCh s), dlClosed := False\<rparr>, nextCh s)
      | Some c \<Rightarrow> (s, c))"

definition stopDlTimer :: "wrappedDl \<Rightarrow> wrappedDl" where
  "stopDlTimer s = (case dlTimer s of None \<Rightarrow> s | Some _ \<Rightarrow> s\<lparr>dlTimer := Some None\<rparr>)"

definition closeDlCh :: "wrappedDl \<Rightarrow> wrappedDl" where
  "closeDlCh s = (case dlChW s of None \<Rightarrow> s | Some c \<Rightarrow> (closeChan c s)\<lparr>dlClosed := True\<rparr>)"

definition setDlW :: "gotime \<Rightarrow> gotime \<Rightarrow> wrappedDl \<Rightarrow> wrappedDl" where
  "setDlW now t s =
     (let s0 = s\<lparr>dlExpW := t\<rparr>;
          s1 = (if dlChW s0 = None \<or> dlClosed s0
                then s0\<lparr>dlChW := Some (nextCh s0), nextCh := Suc (nextCh s0), dlClosed := False\<rparr> else s0)
      in if IsZero t then stopDlTimer s1
         else let dur = time_Sub t now in
              if dur \<le> 0 then stopDlTimer (closeDlCh s1)
              else s1\<lparr>dlTimer := Some (Some (now + dur))\<rparr>)"

definition fireDeadline :: "gotime \<Rightarrow> wrappedDl \<Rightarrow> wrappedDl" where
  "fireDeadline now s =
     (if IsZero (dlExpW s) \<or> now < dlExpW s then s
      else if dlChW s \<noteq> None \<and> \<not> dlClosed s then closeDlCh s else s)"

inductive timerStepW :: "gotime \<Rightarrow> wrappedDl \<Rightarrow> wrappedDl \<Rightarrow> bool" for now where
  dueW: "dlTimer s = Some (Some d) \<Longrightarrow> d \<le> now \<Longrightarrow> timerStepW now s (s\<lparr>dlTimer := Some None, runW := Suc (runW s)\<rparr>)"
| runW: "runW s = Suc n \<Longrightarrow> timerStepW now s (fireDeadline now (s\<lparr>runW := n\<rparr>))"

section \<open>The contract of a deadline\<close>

text \<open>
  A connection with its clock and the channels its blocked reads wait on. Deadlines less than 292 years
  ahead are set at any time, reads start to wait and stop waiting, and timers run.
\<close>

record 'a dlSys =
  impl :: 'a
  dlClock :: gotime
  waiting :: "nat set"

inductive dlStep ::
  "(gotime \<Rightarrow> gotime \<Rightarrow> 'a \<Rightarrow> 'a) \<Rightarrow> ('a \<Rightarrow> 'a \<times> nat) \<Rightarrow> (gotime \<Rightarrow> 'a \<Rightarrow> 'a \<Rightarrow> bool) \<Rightarrow> 'a dlSys \<Rightarrow> 'a dlSys \<Rightarrow> bool"
  for setDl deadlineCh timerStep where
  tick: "dlClock s \<le> n \<Longrightarrow> dlStep setDl deadlineCh timerStep s (s\<lparr>dlClock := n\<rparr>)"
| arm: "t - dlClock s < 2 ^ 63 \<Longrightarrow> dlStep setDl deadlineCh timerStep s (s\<lparr>impl := setDl (dlClock s) t (impl s)\<rparr>)"
| wait: "deadlineCh (impl s) = (a, c) \<Longrightarrow>
    dlStep setDl deadlineCh timerStep s (s\<lparr>impl := a, waiting := insert c (waiting s)\<rparr>)"
| leave: "dlStep setDl deadlineCh timerStep s (s\<lparr>waiting := waiting s - {c}\<rparr>)"
| timer: "timerStep (dlClock s) (impl s) a \<Longrightarrow> dlStep setDl deadlineCh timerStep s (s\<lparr>impl := a\<rparr>)"

locale deadline_impl =
  fixes start :: 'a and setDl :: "gotime \<Rightarrow> gotime \<Rightarrow> 'a \<Rightarrow> 'a" and deadlineCh :: "'a \<Rightarrow> 'a \<times> nat"
    and timerStep :: "gotime \<Rightarrow> 'a \<Rightarrow> 'a \<Rightarrow> bool"
    and expiry :: "'a \<Rightarrow> gotime" and current :: "'a \<Rightarrow> nat option" and closedSet :: "'a \<Rightarrow> nat set"
    and panic :: "'a \<Rightarrow> bool" and inv :: "gotime \<Rightarrow> 'a \<Rightarrow> bool" and work :: "'a \<Rightarrow> nat"
  assumes inv_start: "inv now start"
    and inv_later: "inv now a \<Longrightarrow> now \<le> now' \<Longrightarrow> inv now' a"
    and inv_setDl: "inv now a \<Longrightarrow> t - now < 2 ^ 63 \<Longrightarrow> inv now (setDl now t a)"
    and inv_deadlineCh: "inv now a \<Longrightarrow> deadlineCh a = (b, c) \<Longrightarrow> inv now b"
    and inv_timer: "inv now a \<Longrightarrow> timerStep now a b \<Longrightarrow> inv now b"
    and inv_no_panic: "inv now a \<Longrightarrow> \<not> panic a"
    and closed_expired: "inv now a \<Longrightarrow> current a = Some c \<Longrightarrow> c \<in> closedSet a \<Longrightarrow> expiredAt now (expiry a)"
    and expired_armed: "inv now a \<Longrightarrow> expiredAt now (expiry a) \<Longrightarrow> current a = Some c \<Longrightarrow> c \<notin> closedSet a
      \<Longrightarrow> \<exists>b. timerStep now a b"
    and setDl_expiry: "expiry (setDl now t a) = t"
    and setDl_chan: "inv now a \<Longrightarrow> current a = Some c \<Longrightarrow>
      current (setDl now t a) = Some c \<or> c \<in> closedSet (setDl now t a)"
    and setDl_closed: "closedSet a \<subseteq> closedSet (setDl now t a)"
    and deadlineCh_chan: "deadlineCh a = (b, c) \<Longrightarrow> current b = Some c \<and> closedSet b = closedSet a
      \<and> (current a = None \<or> current a = Some c)"
    and timer_keeps: "timerStep now a b \<Longrightarrow> expiry b = expiry a \<and> current b = current a \<and> closedSet a \<subseteq> closedSet b"
    and timer_work: "timerStep now a b \<Longrightarrow> work b < work a"
begin

definition sysInv :: "'a dlSys \<Rightarrow> bool" where
  "sysInv s \<longleftrightarrow> inv (dlClock s) (impl s)
     \<and> (\<forall>c \<in> waiting s. current (impl s) = Some c \<or> c \<in> closedSet (impl s))"

lemma sysInv_start: "sysInv \<lparr>impl = start, dlClock = n, waiting = {}\<rparr>"
  by (simp add: sysInv_def inv_start)

lemma sysInv_step:
  assumes "sysInv s" "dlStep setDl deadlineCh timerStep s t"
  shows "sysInv t"
  using assms(2)
proof cases
  case (tick n)
  then show ?thesis using assms(1) inv_later by (auto simp: sysInv_def)
next
  case (arm u)
  then show ?thesis using assms(1) inv_setDl setDl_chan setDl_closed by (fastforce simp: sysInv_def)
next
  case (wait a c)
  then show ?thesis using assms(1) inv_deadlineCh deadlineCh_chan [OF wait(2)] by (auto simp: sysInv_def)
next
  case (leave c)
  then show ?thesis using assms(1) by (auto simp: sysInv_def)
next
  case (timer a)
  then show ?thesis using assms(1) inv_timer timer_keeps [OF timer(2)] by (auto simp: sysInv_def)
qed

end

sublocale deadline_impl \<subseteq> dl: invariant_system "\<lambda>s. \<exists>n. s = \<lparr>impl = start, dlClock = n, waiting = {}\<rparr>"
  "dlStep setDl deadlineCh timerStep" sysInv
  by unfold_locales (auto intro: sysInv_start sysInv_step)

context deadline_impl
begin

abbreviation settled :: "gotime \<Rightarrow> 'a \<Rightarrow> bool" where
  "settled now a \<equiv> \<nexists>b. timerStep now a b"

lemma settles: "\<exists>b. (timerStep now)\<^sup>*\<^sup>* a b \<and> settled now b"
proof (induction "work a" arbitrary: a rule: less_induct)
  case less
  show ?case
  proof (cases "settled now a")
    case False
    then obtain a' where "timerStep now a a'" by blast
    then show ?thesis using less timer_work by (meson converse_rtranclp_into_rtranclp)
  qed blast
qed

lemma timers_keep:
  assumes "(timerStep now)\<^sup>*\<^sup>* a b" "inv now a"
  shows "inv now b \<and> expiry b = expiry a \<and> current b = current a \<and> closedSet a \<subseteq> closedSet b"
  using assms by (induction rule: rtranclp_induct) (use inv_timer timer_keeps in \<open>blast, metis subset_trans\<close>)

text \<open>The contract: what a read sees of the deadline once the timers that are due have run.\<close>

lemma contract:
  assumes "reach (\<lambda>s. \<exists>n. s = \<lparr>impl = start, dlClock = n, waiting = {}\<rparr>) (dlStep setDl deadlineCh timerStep) s"
    and "(timerStep (dlClock s))\<^sup>*\<^sup>* (impl s) b" and "settled (dlClock s) b"
  shows "\<not> panic b \<and> expiry b = expiry (impl s)
    \<and> (\<forall>c \<in> waiting s. c \<in> closedSet b \<or> current b = Some c)
    \<and> (\<forall>c. current b = Some c \<longrightarrow> (c \<in> closedSet b \<longleftrightarrow> expiredAt (dlClock s) (expiry b)))"
proof -
  have s: "sysInv s" using assms(1) by (rule dl.inv_reach)
  then have "inv (dlClock s) (impl s)" by (simp add: sysInv_def)
  note k = timers_keep [OF assms(2) this]
  have "c \<in> closedSet b \<longleftrightarrow> expiredAt (dlClock s) (expiry b)" if "current b = Some c" for c
    using k that assms(3) closed_expired expired_armed by blast
  then show ?thesis using k s inv_no_panic by (auto simp: sysInv_def)
qed

end

end
