(* ===== verification/DeadlineProps.thy ===== *)
theory DeadlineProps
  imports Deadline
begin

text \<open>Both deadline implementations fulfil the contract.\<close>

section \<open>wrappedConn\<close>

definition invW :: "gotime \<Rightarrow> wrappedDl \<Rightarrow> bool" where
  "invW now s \<longleftrightarrow> \<not> panicked s \<and> (\<forall>c \<in> closedChs s. c < nextCh s)
     \<and> (case dlChW s of None \<Rightarrow> \<not> dlClosed s \<and> dlExpW s = 0
        | Some c \<Rightarrow> c < nextCh s \<and> (dlClosed s \<longleftrightarrow> c \<in> closedChs s))
     \<and> (dlClosed s \<longrightarrow> expiredAt now (dlExpW s))
     \<and> (\<not> IsZero (dlExpW s) \<and> \<not> dlClosed s \<longrightarrow> dlTimer s = Some (Some (dlExpW s)) \<or> 0 < runW s \<and> dlExpW s \<le> now)"

definition workW :: "wrappedDl \<Rightarrow> nat" where
  "workW s = runW s + (case dlTimer s of Some (Some _) \<Rightarrow> 2 | _ \<Rightarrow> 0)"

lemma closeDlCh_simps [simp]:
  "dlExpW (closeDlCh s) = dlExpW s" "dlChW (closeDlCh s) = dlChW s" "dlTimer (closeDlCh s) = dlTimer s"
  "runW (closeDlCh s) = runW s" "nextCh (closeDlCh s) = nextCh s"
  by (simp_all add: closeDlCh_def closeChan_def split: option.split)

lemma stopDlTimer_simps [simp]:
  "dlExpW (stopDlTimer s) = dlExpW s" "dlChW (stopDlTimer s) = dlChW s" "dlClosed (stopDlTimer s) = dlClosed s"
  "closedChs (stopDlTimer s) = closedChs s" "nextCh (stopDlTimer s) = nextCh s" "panicked (stopDlTimer s) = panicked s"
  "runW (stopDlTimer s) = runW s"
  by (simp_all add: stopDlTimer_def split: option.split)

lemma closeDlCh_open:
  assumes "dlChW s = Some c" "c \<notin> closedChs s"
  shows "closedChs (closeDlCh s) = insert c (closedChs s)" "dlClosed (closeDlCh s)" "panicked (closeDlCh s) = panicked s"
  using assms by (simp_all add: closeDlCh_def closeChan_def)

lemma fireDeadline_inv:
  assumes "invW now s"
  shows "invW now (fireDeadline now (s\<lparr>runW := n\<rparr>)) \<or> runW s \<noteq> Suc n"
  using assms unfolding invW_def fireDeadline_def
  by (auto simp: closeDlCh_def closeChan_def expiredAt_def split: option.splits)

lemma setDlW_inv:
  assumes "invW now s" "t - now < 2 ^ 63"
  shows "invW now (setDlW now t s)"
proof -
  define s1 where "s1 = (let s0 = s\<lparr>dlExpW := t\<rparr> in if dlChW s0 = None \<or> dlClosed s0
      then s0\<lparr>dlChW := Some (nextCh s0), nextCh := Suc (nextCh s0), dlClosed := False\<rparr> else s0)"
  have fresh: "nextCh s \<notin> closedChs s" "\<forall>d \<in> closedChs s. d < Suc (nextCh s)"
    using assms(1) by (auto simp: invW_def)
  obtain c where c: "dlChW s1 = Some c" "c \<notin> closedChs s1" "c < nextCh s1" "\<not> dlClosed s1" "\<not> panicked s1"
    "\<forall>d \<in> closedChs s1. d < nextCh s1" "dlExpW s1 = t"
  proof (cases "dlChW s")
    case None
    then show ?thesis using that assms(1) fresh by (simp add: s1_def invW_def)
  next
    case (Some c)
    then have c: "c < nextCh s" "dlClosed s \<longleftrightarrow> c \<in> closedChs s" "\<not> panicked s" "\<forall>d \<in> closedChs s. d < nextCh s"
      using assms(1) by (simp_all add: invW_def)
    show ?thesis
    proof (cases "dlClosed s")
      case True
      then have "s1 = s\<lparr>dlExpW := t, dlChW := Some (nextCh s), nextCh := Suc (nextCh s), dlClosed := False\<rparr>"
        by (simp add: s1_def)
      then show ?thesis using that [of "nextCh s"] c fresh by simp
    next
      case False
      then have "s1 = s\<lparr>dlExpW := t\<rparr>" using Some by (simp add: s1_def)
      then show ?thesis using that [of c] c False Some by simp
    qed
  qed
  have dur: "time_Sub t now \<le> 0 \<longleftrightarrow> t \<le> now" "t > now \<Longrightarrow> now + time_Sub t now = t"
    using assms(2) by (simp_all add: time_Sub_def)
  have e: "setDlW now t s = (if IsZero t then stopDlTimer s1 else if t \<le> now then stopDlTimer (closeDlCh s1)
      else s1\<lparr>dlTimer := Some (Some t)\<rparr>)"
    using dur by (simp add: setDlW_def s1_def Let_def)
  show ?thesis
    unfolding e using c closeDlCh_open [OF c(1,2)] by (auto simp: invW_def expiredAt_def)
qed

interpretation wdl: deadline_impl initW setDlW deadlineChW timerStepW dlExpW dlChW closedChs panicked invW workW
proof
  fix now now' t :: gotime and a b :: wrappedDl and c
  show "invW now initW" by (simp add: invW_def initW_def)
  show "invW now' a" if "invW now a" "now \<le> now'"
    using that by (auto simp: invW_def expiredAt_def split: option.splits)
  show "invW now (setDlW now t a)" if "invW now a" "t - now < 2 ^ 63" using setDlW_inv that by blast
  show "invW now b" if "invW now a" "deadlineChW a = (b, c)"
  proof (cases "dlChW a")
    case None
    then have b: "b = a\<lparr>dlChW := Some (nextCh a), nextCh := Suc (nextCh a), dlClosed := False\<rparr>"
      using that(2) by (auto simp: deadlineChW_def)
    have z: "dlExpW a = 0" using that(1) None by (simp add: invW_def)
    have "\<forall>c \<in> closedChs a. c < nextCh a" "\<not> panicked a" using that(1) by (simp_all add: invW_def)
    then show ?thesis using z by (auto simp: b invW_def)
  qed (use that in \<open>simp add: deadlineChW_def\<close>)
  show "invW now b" if "invW now a" "timerStepW now a b"
    using that(2)
  proof cases
    case (dueW d)
    then show ?thesis using that(1) by (auto simp: invW_def split: option.splits)
  next
    case (runW n)
    then show ?thesis using fireDeadline_inv [OF that(1), of n] by simp
  qed
  show "\<not> panicked a" if "invW now a" using that by (simp add: invW_def)
  show "expiredAt now (dlExpW a)" if "invW now a" "dlChW a = Some c" "c \<in> closedChs a"
    using that by (simp add: invW_def)
  show "\<exists>b. timerStepW now a b" if "invW now a" "expiredAt now (dlExpW a)" "dlChW a = Some c" "c \<notin> closedChs a"
  proof -
    have "dlTimer a = Some (Some (dlExpW a)) \<or> 0 < runW a" "dlExpW a \<le> now"
      using that by (auto simp: invW_def expiredAt_def)
    then show ?thesis by (metis dueW gr0_implies_Suc timerStepW.runW)
  qed
  show "dlExpW (setDlW now t a) = t" by (simp add: setDlW_def Let_def)
  show "dlChW (setDlW now t a) = Some c \<or> c \<in> closedChs (setDlW now t a)" if "invW now a" "dlChW a = Some c"
    using that by (auto simp: invW_def setDlW_def Let_def closeDlCh_def closeChan_def)
  show "closedChs a \<subseteq> closedChs (setDlW now t a)"
    by (auto simp: setDlW_def Let_def closeDlCh_def closeChan_def split: option.splits)
  show "dlChW b = Some c \<and> closedChs b = closedChs a \<and> (dlChW a = None \<or> dlChW a = Some c)" if "deadlineChW a = (b, c)"
    using that by (auto simp: deadlineChW_def split: option.splits)
  show "dlExpW b = dlExpW a \<and> dlChW b = dlChW a \<and> closedChs a \<subseteq> closedChs b" if "timerStepW now a b"
    using that by cases (auto simp: fireDeadline_def closeDlCh_def closeChan_def)
  show "workW b < workW a" if "timerStepW now a b"
    using that by cases (auto simp: workW_def fireDeadline_def)
qed

section \<open>packetConnAdapter\<close>

definition okA :: "adapterDl \<Rightarrow> bool" where
  "okA s \<longleftrightarrow> \<not> panicked s \<and> (\<forall>c \<in> closedChs s. c < nextCh s)
     \<and> (\<forall>(d, c) \<in> set (timersA s). c < nextCh s) \<and> (\<forall>c \<in> set (runA s). c < nextCh s)"

definition curA :: "gotime \<Rightarrow> adapterDl \<Rightarrow> nat \<Rightarrow> bool" where
  "curA now s c \<longleftrightarrow> c < nextCh s \<and> (c \<in> closedChs s \<or> c \<in> set (runA s) \<longrightarrow> expiredAt now (dlExpA s))
     \<and> (\<forall>d. (d, c) \<in> set (timersA s) \<longrightarrow> d = dlExpA s \<and> \<not> IsZero d)
     \<and> (\<not> IsZero (dlExpA s) \<and> c \<notin> closedChs s \<longrightarrow> (dlExpA s, c) \<in> set (timersA s) \<or> c \<in> set (runA s))"

definition invA :: "gotime \<Rightarrow> adapterDl \<Rightarrow> bool" where
  "invA now s \<longleftrightarrow> okA s \<and> (case dlChA s of None \<Rightarrow> dlExpA s = 0 | Some c \<Rightarrow> curA now s c)"

definition workA :: "adapterDl \<Rightarrow> nat" where
  "workA s = 2 * length (timersA s) + length (runA s)"

lemma setDlA_inv:
  assumes "invA now s" "t - now < 2 ^ 63"
  shows "invA now (setDlA now t s)"
proof -
  define s1 where "s1 = (case dlChA s of None \<Rightarrow> s | Some c \<Rightarrow> if c \<in> closedChs s then s else closeChan c s)"
  have ok: "okA s" using assms(1) by (simp add: invA_def)
  have s1: "nextCh s1 = nextCh s" "timersA s1 = timersA s" "runA s1 = runA s"
    by (simp_all add: s1_def closeChan_def split: option.split)
  have ok1: "okA s1"
  proof (cases "dlChA s")
    case (Some c)
    then have "c < nextCh s" using assms(1) by (simp add: invA_def curA_def)
    then show ?thesis using Some ok by (simp add: s1_def okA_def closeChan_def)
  qed (simp add: s1_def ok)
  have fresh: "nextCh s \<notin> closedChs s1" "nextCh s \<notin> set (runA s)" "\<And>d. (d, nextCh s) \<notin> set (timersA s)"
    using ok1 s1 by (auto simp: okA_def)
  define s2 where "s2 = s1\<lparr>nextCh := Suc (nextCh s), dlChA := Some (nextCh s), dlExpA := t\<rparr>"
  have ok2: "okA s2" using ok1 s1 by (auto simp: okA_def s2_def less_Suc_eq)
  have dur: "time_Sub t now \<le> 0 \<longleftrightarrow> t \<le> now" "t > now \<Longrightarrow> now + time_Sub t now = t"
    using assms(2) by (simp_all add: time_Sub_def)
  have e: "setDlA now t s = (if IsZero t then s2 else if t \<le> now then closeChan (nextCh s) s2
      else s2\<lparr>timersA := (t, nextCh s) # timersA s2\<rparr>)"
    using dur s1(1) by (simp add: setDlA_def s1_def [symmetric] s2_def Let_def)
  consider "t = 0" | "t \<noteq> 0" "t \<le> now" | "t \<noteq> 0" "now < t" by linarith
  then show ?thesis
  proof cases
    case 1
    then show ?thesis unfolding e using ok2 fresh s1 by (simp add: invA_def curA_def s2_def)
  next
    case 2
    have "okA (closeChan (nextCh s) s2)" using ok2 fresh(1) by (auto simp: okA_def closeChan_def s2_def)
    then show ?thesis unfolding e using 2 fresh s1 by (simp add: invA_def curA_def s2_def closeChan_def expiredAt_def)
  next
    case 3
    have "okA (s2\<lparr>timersA := (t, nextCh s) # timersA s2\<rparr>)" using ok2 by (simp add: okA_def s2_def)
    then show ?thesis unfolding e using 3 fresh s1 by (simp add: invA_def curA_def s2_def)
  qed
qed

lemma remove1_other: "x \<noteq> y \<Longrightarrow> x \<in> set (remove1 y xs) \<longleftrightarrow> x \<in> set xs"
  by (induction xs) auto

lemma timerStepA_inv:
  assumes "invA now a" "timerStepA now a b"
  shows "invA now b"
  using assms(2)
proof cases
  case (dueA d ch)
  have ok: "okA b"
    using assms(1) dueA set_remove1_subset [of "(d, ch)" "timersA a"] unfolding invA_def okA_def by auto
  show ?thesis
  proof (cases "dlChA a")
    case None
    then show ?thesis using assms(1) dueA ok by (simp add: invA_def)
  next
    case (Some c)
    then have cur: "curA now a c" using assms(1) by (simp add: invA_def)
    have "curA now b c"
    proof (cases "c = ch")
      case True
      then have "d = dlExpA a" "d \<noteq> 0" using cur dueA(2) by (auto simp: curA_def)
      moreover have "(e, c) \<in> set (timersA b) \<Longrightarrow> (e, c) \<in> set (timersA a)" for e
        using subsetD [OF set_remove1_subset [of "(d, ch)" "timersA a"], of "(e, c)"] by (simp add: dueA(1))
      moreover have "expiredAt now (dlExpA b)" "c \<in> set (runA b)" "nextCh b = nextCh a" "dlExpA b = dlExpA a"
        using calculation(1,2) dueA(3) True by (simp_all add: dueA(1) expiredAt_def)
      ultimately show ?thesis using cur unfolding curA_def by metis
    next
      case False
      then have "(e, c) \<in> set (remove1 (d, ch) (timersA a)) \<longleftrightarrow> (e, c) \<in> set (timersA a)" for e
        by (simp add: remove1_other)
      then show ?thesis using cur dueA False by (simp add: curA_def)
    qed
    then show ?thesis using Some dueA ok by (simp add: invA_def)
  qed
next
  case (runA ch)
  define a' where "a' = a\<lparr>runA := remove1 ch (runA a)\<rparr>"
  have b: "b = fireA ch a'" using runA by (simp add: a'_def)
  have oka: "okA a'"
    using assms(1) set_remove1_subset [of ch "runA a"] unfolding invA_def okA_def a'_def by auto
  then have ok: "okA b"
    using assms(1) runA(2) unfolding b fireA_def closeChan_def invA_def okA_def by (auto simp: a'_def)
  show ?thesis
  proof (cases "dlChA a")
    case None
    then show ?thesis using assms(1) ok by (simp add: invA_def b fireA_def a'_def)
  next
    case (Some c)
    then have cur: "curA now a c" using assms(1) by (simp add: invA_def)
    have "curA now b c"
    proof (cases "c = ch")
      case True
      then have "expiredAt now (dlExpA a)" using cur runA(2) by (simp add: curA_def)
      then show ?thesis using cur Some True by (simp add: b fireA_def a'_def curA_def closeChan_def)
    next
      case False
      then have "c \<in> set (remove1 ch (runA a)) \<longleftrightarrow> c \<in> set (runA a)" by (simp add: remove1_other)
      then show ?thesis using cur Some False by (simp add: b fireA_def a'_def curA_def)
    qed
    moreover have "dlChA b = Some c" using Some by (simp add: b fireA_def closeChan_def a'_def)
    ultimately show ?thesis using ok by (simp add: invA_def)
  qed
qed

interpretation adl: deadline_impl initA setDlA deadlineChA timerStepA dlExpA dlChA closedChs panicked invA workA
proof
  fix now now' t :: gotime and a b :: adapterDl and c
  show "invA now initA" by (simp add: invA_def initA_def okA_def)
  show "invA now' a" if "invA now a" "now \<le> now'"
  proof (cases "dlChA a")
    case (Some c)
    have "expiredAt now (dlExpA a) \<Longrightarrow> expiredAt now' (dlExpA a)" using that(2) by (simp add: expiredAt_def)
    then have "curA now a c \<Longrightarrow> curA now' a c" unfolding curA_def by meson
    then show ?thesis using that(1) Some by (simp add: invA_def)
  qed (use that in \<open>simp add: invA_def\<close>)
  show "invA now (setDlA now t a)" if "invA now a" "t - now < 2 ^ 63" using setDlA_inv that by blast
  show "invA now b" if "invA now a" "deadlineChA a = (b, c)"
  proof (cases "dlChA a")
    case None
    then have b: "b = a\<lparr>dlChA := Some (nextCh a), nextCh := Suc (nextCh a)\<rparr>" using that(2) by (auto simp: deadlineChA_def)
    have ok: "okA a" "dlExpA a = 0" using that(1) None by (simp_all add: invA_def)
    then have "okA b" "curA now b (nextCh a)" by (auto simp: b okA_def curA_def less_Suc_eq)
    then show ?thesis by (simp add: invA_def b)
  qed (use that in \<open>simp add: deadlineChA_def\<close>)
  show "invA now b" if "invA now a" "timerStepA now a b" using timerStepA_inv that by blast
  show "\<not> panicked a" if "invA now a" using that by (simp add: invA_def okA_def)
  show "expiredAt now (dlExpA a)" if "invA now a" "dlChA a = Some c" "c \<in> closedChs a"
    using that by (simp add: invA_def curA_def)
  show "\<exists>b. timerStepA now a b" if "invA now a" "expiredAt now (dlExpA a)" "dlChA a = Some c" "c \<notin> closedChs a"
  proof -
    have "(dlExpA a, c) \<in> set (timersA a) \<or> c \<in> set (runA a)" "dlExpA a \<le> now"
      using that by (auto simp: invA_def curA_def expiredAt_def)
    then show ?thesis by (metis dueA timerStepA.runA)
  qed
  show "dlExpA (setDlA now t a) = t" by (simp add: setDlA_def Let_def closeChan_def)
  show "dlChA (setDlA now t a) = Some c \<or> c \<in> closedChs (setDlA now t a)" if "invA now a" "dlChA a = Some c"
    using that by (auto simp: setDlA_def Let_def closeChan_def)
  show "closedChs a \<subseteq> closedChs (setDlA now t a)"
    by (auto simp: setDlA_def Let_def closeChan_def split: option.splits)
  show "dlChA b = Some c \<and> closedChs b = closedChs a \<and> (dlChA a = None \<or> dlChA a = Some c)" if "deadlineChA a = (b, c)"
    using that by (auto simp: deadlineChA_def split: option.splits)
  show "dlExpA b = dlExpA a \<and> dlChA b = dlChA a \<and> closedChs a \<subseteq> closedChs b" if "timerStepA now a b"
    using that by cases (auto simp: fireA_def closeChan_def)
  show "workA b < workA a" if "timerStepA now a b"
    using that
  proof cases
    case (dueA d ch)
    then show ?thesis using length_pos_if_in_set [OF dueA(2)] by (simp add: workA_def length_remove1 del: length_greater_0_conv)
  next
    case (runA ch)
    then show ?thesis using length_pos_if_in_set [OF runA(2)]
      by (simp add: workA_def fireA_def closeChan_def length_remove1)
  qed
qed

section \<open>The properties\<close>

abbreviation wrappedReachable :: "wrappedDl dlSys \<Rightarrow> bool" where
  "wrappedReachable \<equiv> reach (\<lambda>s. \<exists>n. s = \<lparr>impl = initW, dlClock = n, waiting = {}\<rparr>) (dlStep setDlW deadlineChW timerStepW)"

abbreviation adapterReachable :: "adapterDl dlSys \<Rightarrow> bool" where
  "adapterReachable \<equiv> reach (\<lambda>s. \<exists>n. s = \<lparr>impl = initA, dlClock = n, waiting = {}\<rparr>) (dlStep setDlA deadlineChA timerStepA)"

text \<open>
  C16. The single reusable timer of \<open>wrappedConn\<close> implements the deadline. In every reachable state of any
  interleaving of re-arming, reads and late timer callbacks, the timer work that is due comes to an end;
  when it has, no channel was closed twice, the deadline is the one last set, the channel a read finds is
  closed exactly when that deadline has passed, and every blocked read waits on that channel or on a
  closed one, so that no read is left behind on a channel nobody will close.
\<close>

theorem wrapped_deadline_refines:
  assumes "wrappedReachable s"
  shows "(\<exists>b. (timerStepW (dlClock s))\<^sup>*\<^sup>* (impl s) b \<and> (\<nexists>b'. timerStepW (dlClock s) b b'))
    \<and> (\<forall>b. (timerStepW (dlClock s))\<^sup>*\<^sup>* (impl s) b \<and> (\<nexists>b'. timerStepW (dlClock s) b b') \<longrightarrow>
         \<not> panicked b \<and> dlExpW b = dlExpW (impl s)
         \<and> (\<forall>c \<in> waiting s. c \<in> closedChs b \<or> dlChW b = Some c)
         \<and> (\<forall>c. dlChW b = Some c \<longrightarrow> (c \<in> closedChs b \<longleftrightarrow> expiredAt (dlClock s) (dlExpW b))))"
  using wdl.settles wdl.contract [OF assms] by blast

text \<open>
  C17. The same contract holds for \<open>packetConnAdapter\<close>, which makes a channel and a timer per call: a timer
  that was armed for a replaced channel does nothing when it runs.
\<close>

theorem adapter_deadline_refines:
  assumes "adapterReachable s"
  shows "(\<exists>b. (timerStepA (dlClock s))\<^sup>*\<^sup>* (impl s) b \<and> (\<nexists>b'. timerStepA (dlClock s) b b'))
    \<and> (\<forall>b. (timerStepA (dlClock s))\<^sup>*\<^sup>* (impl s) b \<and> (\<nexists>b'. timerStepA (dlClock s) b b') \<longrightarrow>
         \<not> panicked b \<and> dlExpA b = dlExpA (impl s)
         \<and> (\<forall>c \<in> waiting s. c \<in> closedChs b \<or> dlChA b = Some c)
         \<and> (\<forall>c. dlChA b = Some c \<longrightarrow> (c \<in> closedChs b \<longleftrightarrow> expiredAt (dlClock s) (dlExpA b))))"
  using adl.settles adl.contract [OF assms] by blast

text \<open>A read starts to wait at time 5, the deadline 7 is set, and at time 10 the timer has run.\<close>

definition demoW :: "wrappedDl dlSys" where
  "demoW = \<lparr>impl = setDlW 5 7 (fst (deadlineChW initW)), dlClock = 10, waiting = {0}\<rparr>"

definition demoA :: "adapterDl dlSys" where
  "demoA = \<lparr>impl = setDlA 5 7 (fst (deadlineChA initA)), dlClock = 10, waiting = {0}\<rparr>"

lemma demoW_reachable: "wrappedReachable demoW"
proof -
  let ?s0 = "\<lparr>impl = initW, dlClock = 5, waiting = {}\<rparr>"
  have "wrappedReachable ?s0" by (rule reach.reach_init) blast
  then have "wrappedReachable (?s0\<lparr>impl := fst (deadlineChW initW), waiting := insert 0 {}\<rparr>)"
    by (rule reach.reach_step) (use dlStep.wait [of deadlineChW ?s0 "fst (deadlineChW initW)" 0] in
        \<open>simp add: deadlineChW_def initW_def\<close>)
  then have "wrappedReachable \<lparr>impl = setDlW 5 7 (fst (deadlineChW initW)), dlClock = 5, waiting = {0}\<rparr>"
    by (rule reach.reach_step) (use dlStep.arm [of 7 "\<lparr>impl = fst (deadlineChW initW), dlClock = 5, waiting = {0}\<rparr>"] in simp)
  then show ?thesis
    unfolding demoW_def
    by (rule reach.reach_step)
      (use dlStep.tick [of "\<lparr>impl = setDlW 5 7 (fst (deadlineChW initW)), dlClock = 5, waiting = {0}\<rparr>" 10] in simp)
qed

lemma demoA_reachable: "adapterReachable demoA"
proof -
  let ?s0 = "\<lparr>impl = initA, dlClock = 5, waiting = {}\<rparr>"
  have "adapterReachable ?s0" by (rule reach.reach_init) blast
  then have "adapterReachable (?s0\<lparr>impl := fst (deadlineChA initA), waiting := insert 0 {}\<rparr>)"
    by (rule reach.reach_step) (use dlStep.wait [of deadlineChA ?s0 "fst (deadlineChA initA)" 0] in
        \<open>simp add: deadlineChA_def initA_def\<close>)
  then have "adapterReachable \<lparr>impl = setDlA 5 7 (fst (deadlineChA initA)), dlClock = 5, waiting = {0}\<rparr>"
    by (rule reach.reach_step) (use dlStep.arm [of 7 "\<lparr>impl = fst (deadlineChA initA), dlClock = 5, waiting = {0}\<rparr>"] in simp)
  then show ?thesis
    unfolding demoA_def
    by (rule reach.reach_step)
      (use dlStep.tick [of "\<lparr>impl = setDlA 5 7 (fst (deadlineChA initA)), dlClock = 5, waiting = {0}\<rparr>" 10] in simp)
qed

theorem wrapped_deadline_refines_witness:
  "\<exists>b. (timerStepW 10)\<^sup>*\<^sup>* (impl demoW) b \<and> (\<nexists>b'. timerStepW 10 b b') \<and> \<not> panicked b \<and> 0 \<in> closedChs b"
proof -
  obtain b where b: "(timerStepW 10)\<^sup>*\<^sup>* (impl demoW) b" "\<nexists>b'. timerStepW 10 b b'"
    using wrapped_deadline_refines [OF demoW_reachable] by (auto simp: demoW_def)
  then have "\<not> panicked b" "dlExpW b = 7" "0 \<in> closedChs b \<or> dlChW b = Some 0"
    "\<And>c. dlChW b = Some c \<Longrightarrow> c \<in> closedChs b \<longleftrightarrow> expiredAt 10 (dlExpW b)"
    using wrapped_deadline_refines [OF demoW_reachable] by (auto simp: demoW_def wdl.setDl_expiry)
  then show ?thesis using b by (auto simp: expiredAt_def)
qed

theorem adapter_deadline_refines_witness:
  "\<exists>b. (timerStepA 10)\<^sup>*\<^sup>* (impl demoA) b \<and> (\<nexists>b'. timerStepA 10 b b') \<and> \<not> panicked b \<and> 0 \<in> closedChs b"
proof -
  obtain b where b: "(timerStepA 10)\<^sup>*\<^sup>* (impl demoA) b" "\<nexists>b'. timerStepA 10 b b'"
    using adapter_deadline_refines [OF demoA_reachable] by (auto simp: demoA_def)
  then have "\<not> panicked b" "dlExpA b = 7" "0 \<in> closedChs b \<or> dlChA b = Some 0"
    "\<And>c. dlChA b = Some c \<Longrightarrow> c \<in> closedChs b \<longleftrightarrow> expiredAt 10 (dlExpA b)"
    using adapter_deadline_refines [OF demoA_reachable] by (auto simp: demoA_def adl.setDl_expiry)
  then show ?thesis using b by (auto simp: expiredAt_def)
qed

end
