(* ===== verification/Srtp.thy ===== *)
theory Srtp
  imports Bytes Systems
begin

text \<open>
  The SRTP transport of \<open>pkg/proxy/srtpwrap/srtp.go\<close>: the demultiplexer by first byte on the client and on
  the server, the sessions of the server, and the connection that frames every write as one RTP packet.
  pion/dtls, pion/rtp and pion/srtp are parameters.
\<close>

section \<open>Packets\<close>

definition IsDTLS :: "byte \<Rightarrow> bool" where "IsDTLS b \<longleftrightarrow> 20 \<le> b \<and> b \<le> 63"

definition IsRTP :: "byte \<Rightarrow> bool" where "IsRTP b \<longleftrightarrow> 128 \<le> b \<and> b \<le> 191"

text \<open>
  A buffer of the packet pool is known by its capacity; \<open>Get\<close> gives a pooled buffer or a new one of 2048
  bytes. The result is the length and the capacity of the slice.
\<close>

definition pktPoolGet :: "nat option \<Rightarrow> nat \<Rightarrow> nat \<times> nat" where
  "pktPoolGet pooled n =
     (let c = (case pooled of None \<Rightarrow> 2048 | Some c \<Rightarrow> c) in (n, if c < n then n else c))"

definition pktPoolPut :: "(nat \<times> nat) option \<Rightarrow> nat list \<Rightarrow> nat list" where
  "pktPoolPut b pl = (case b of None \<Rightarrow> pl | Some (_, c) \<Rightarrow> c # pl)"

definition dtlsCap :: nat where "dtlsCap = 64"
definition rtpCap :: nat where "rtpCap = 4096"
definition readBuf :: nat where "readBuf = 2048"

section \<open>The client's demultiplexer\<close>

text \<open>
  What \<open>runDemuxFromPacketConn\<close> is doing: reading, sending a packet on the channel of its class (which
  blocks while the channel is full), measuring the depth of the channel after an RTP packet, or over.
\<close>

datatype demuxAt = Reading | Sending bytes | Measuring | Over

record demux =
  at :: demuxAt
  dtlsCh :: "bytes list"
  rtpCh :: "bytes list"
  gauge :: int

datatype readError = CtxDone | ConnClosed | TimedOut | OtherError

text \<open>One return of \<open>ReadFrom\<close>: an error, or a datagram cut to the buffer.\<close>

definition demuxRead :: "readError + bytes \<Rightarrow> demux \<Rightarrow> demux" where
  "demuxRead r s =
     (case r of
        Inl CtxDone \<Rightarrow> s\<lparr>at := Over\<rparr>
      | Inl ConnClosed \<Rightarrow> s\<lparr>at := Over\<rparr>
      | Inl _ \<Rightarrow> s
      | Inr datagram \<Rightarrow>
          let pkt = take readBuf datagram in
          (case pkt of [] \<Rightarrow> s
           | b # _ \<Rightarrow> if IsDTLS b \<or> IsRTP b then s\<lparr>at := Sending pkt\<rparr> else s))"

text \<open>The send completes when its channel has room; it is given up when the context is cancelled.\<close>

definition demuxSend :: "demux \<Rightarrow> demux option" where
  "demuxSend s =
     (case at s of
        Sending pkt \<Rightarrow>
          if IsDTLS (hd pkt)
          then (if length (dtlsCh s) < dtlsCap then Some (s\<lparr>at := Reading, dtlsCh := dtlsCh s @ [pkt]\<rparr>) else None)
          else (if length (rtpCh s) < rtpCap then Some (s\<lparr>at := Measuring, rtpCh := rtpCh s @ [pkt]\<rparr>) else None)
      | _ \<Rightarrow> None)"

definition demuxCancel :: "demux \<Rightarrow> demux" where
  "demuxCancel s = (case at s of Sending _ \<Rightarrow> s\<lparr>at := Over\<rparr> | _ \<Rightarrow> s)"

definition casMax :: "int \<Rightarrow> int \<Rightarrow> int" where "casMax d old = (if d \<le> old then old else d)"

definition demuxMeasure :: "demux \<Rightarrow> demux" where
  "demuxMeasure s = (let d = int (length (rtpCh s)) in s\<lparr>at := Reading, gauge := (if d > 0 then casMax d (gauge s) else gauge s)\<rparr>)"

section \<open>The server's sessions\<close>

datatype phase = Handshaking | Publishing | Live | Ended

record session =
  src :: string
  dtlsQ :: "bytes list"
  rtpQ :: "bytes list"
  ph :: phase

record server =
  sessions :: "string \<Rightarrow> nat option"
  sess :: "nat \<Rightarrow> session"
  nextSess :: nat
  out :: "nat list"
  delivering :: "(nat \<times> bytes) option"
  srvClosed :: bool

definition outCap :: nat where "outCap = 16"

definition newServer :: server where
  "newServer = \<lparr>sessions = Map.empty, sess = (\<lambda>_. \<lparr>src = [], dtlsQ = [], rtpQ = [], ph = Ended\<rparr>), nextSess = 0, out = [],
     delivering = None, srvClosed = False\<rparr>"

text \<open>
  A datagram in the loop of \<open>demux\<close>: the session of its source address is looked up or made under the
  lock; the packet is handed to it afterwards, when the lock is free again.
\<close>

definition demuxLookup :: "string \<Rightarrow> bytes \<Rightarrow> server \<Rightarrow> server" where
  "demuxLookup key datagram s =
     (let pkt = take readBuf datagram in
      if pkt = [] then s
      else case sessions s key of
        Some i \<Rightarrow> s\<lparr>delivering := Some (i, pkt)\<rparr>
      | None \<Rightarrow>
          let i = nextSess s in
          s\<lparr>sessions := (sessions s)(key \<mapsto> i), nextSess := Suc i, delivering := Some (i, pkt),
            sess := (sess s)(i := \<lparr>src = key, dtlsQ = [], rtpQ = [], ph = Handshaking\<rparr>)\<rparr>)"

definition enqueue :: "bytes \<Rightarrow> session \<Rightarrow> session" where
  "enqueue pkt x =
     (case pkt of [] \<Rightarrow> x
      | b # _ \<Rightarrow>
        if IsDTLS b then (if length (dtlsQ x) < dtlsCap then x\<lparr>dtlsQ := dtlsQ x @ [pkt]\<rparr> else x)
        else if IsRTP b then (if length (rtpQ x) < rtpCap then x\<lparr>rtpQ := rtpQ x @ [pkt]\<rparr> else x)
        else x)"

definition demuxDeliver :: "server \<Rightarrow> server" where
  "demuxDeliver s =
     (case delivering s of None \<Rightarrow> s
      | Some (i, pkt) \<Rightarrow> s\<lparr>sess := (sess s)(i := enqueue pkt (sess s i)), delivering := None\<rparr>)"

definition forget :: "nat \<Rightarrow> server \<Rightarrow> server" where
  "forget i s = s\<lparr>sessions := (sessions s)(src (sess s i) := None), sess := (sess s)(i := (sess s i)\<lparr>ph := Ended\<rparr>)\<rparr>"

text \<open>
  \<open>handshakeAndPublish\<close>: any of its three steps may fail, and then the session is removed from the map;
  otherwise the connection waits for room in the channel of \<open>Accept\<close>, or is closed with the server; when
  both are possible either may be taken.
\<close>

definition handshakeEnd :: "nat \<Rightarrow> bool \<Rightarrow> server \<Rightarrow> server" where
  "handshakeEnd i ok s = (if ok then s\<lparr>sess := (sess s)(i := (sess s i)\<lparr>ph := Publishing\<rparr>)\<rparr> else forget i s)"

definition publish :: "nat \<Rightarrow> bool \<Rightarrow> server \<Rightarrow> server" where
  "publish i sendFirst s =
     (if length (out s) < outCap \<and> (sendFirst \<or> \<not> srvClosed s)
      then s\<lparr>sess := (sess s)(i := (sess s i)\<lparr>ph := Live\<rparr>), out := out s @ [i]\<rparr>
      else if srvClosed s then forget i s
      else s)"

text \<open>\<open>wrappedConn.Close\<close> on the server: \<open>closeOnce\<close> and the callback that forgets the session.\<close>

definition closeSession :: "nat \<Rightarrow> server \<Rightarrow> server" where
  "closeSession i s = (if ph (sess s i) = Ended then s else forget i s)"

definition serverClose :: "server \<Rightarrow> server" where "serverClose s = s\<lparr>srvClosed := True\<rparr>"

definition serverAccept :: "server \<Rightarrow> server \<times> nat option" where
  "serverAccept s = (case out s of [] \<Rightarrow> (s, None) | i # is \<Rightarrow> (s\<lparr>out := is\<rparr>, Some i))"

text \<open>A read of the connection, and of the handshake, takes the head of its channel.\<close>

definition takeRtp :: "nat \<Rightarrow> server \<Rightarrow> server" where
  "takeRtp i s = s\<lparr>sess := (sess s)(i := (sess s i)\<lparr>rtpQ := tl (rtpQ (sess s i))\<rparr>)\<rparr>"

definition takeDtls :: "nat \<Rightarrow> server \<Rightarrow> server" where
  "takeDtls i s = s\<lparr>sess := (sess s)(i := (sess s i)\<lparr>dtlsQ := tl (dtlsQ (sess s i))\<rparr>)\<rparr>"

text \<open>The steps of the server, labelled with the datagram that was read in the step.\<close>

inductive srvStep :: "(string \<times> bytes) option \<Rightarrow> server \<Rightarrow> server \<Rightarrow> bool" where
  lookup: "delivering s = None \<Longrightarrow> srvStep (Some (key, datagram)) s (demuxLookup key datagram s)"
| deliver: "srvStep None s (demuxDeliver s)"
| handshake: "i < nextSess s \<Longrightarrow> ph (sess s i) = Handshaking \<Longrightarrow> srvStep None s (handshakeEnd i ok s)"
| published: "i < nextSess s \<Longrightarrow> ph (sess s i) = Publishing \<Longrightarrow> srvStep None s (publish i sendFirst s)"
| close: "i < nextSess s \<Longrightarrow> ph (sess s i) = Live \<or> ph (sess s i) = Ended \<Longrightarrow> srvStep None s (closeSession i s)"
| accept: "srvStep None s (fst (serverAccept s))"
| readRtp: "i < nextSess s \<Longrightarrow> srvStep None s (takeRtp i s)"
| readDtls: "i < nextSess s \<Longrightarrow> srvStep None s (takeDtls i s)"
| stop: "srvStep None s (serverClose s)"

section \<open>The connection\<close>

definition PayloadType :: byte where "PayloadType = 100"

record rtpHeader =
  Version :: byte
  hdrPayloadType :: byte
  SequenceNumber :: "16 word"
  Timestamp :: "32 word"
  SSRC :: "32 word"

record 'c wconn =
  encCtx :: 'c
  ssrc :: "32 word"
  wseq :: "16 word"
  wts :: "32 word"

text \<open>The libraries: the RTP header writer and reader, and the two SRTP contexts.\<close>

record ('c, 'd) srtpLib =
  MarshalTo :: "rtpHeader \<Rightarrow> bytes \<Rightarrow> bytes option"
  Unmarshal :: "bytes \<Rightarrow> nat option"
  EncryptRTP :: "'c \<Rightarrow> bytes \<Rightarrow> 'c \<times> bytes option"
  DecryptRTP :: "'d \<Rightarrow> bytes \<Rightarrow> 'd \<times> bytes option"

datatype writeError = MarshalError | EncryptError | SocketError

definition newWrappedConn :: "'c \<Rightarrow> bytes option \<Rightarrow> 'c wconn option" where
  "newWrappedConn ctx rnd = map_option (\<lambda>r. \<lparr>encCtx = ctx, ssrc = Uint32 r, wseq = 0, wts = 0\<rparr>) rnd"

definition headerOf :: "'c wconn \<Rightarrow> rtpHeader" where
  "headerOf c = \<lparr>Version = 2, hdrPayloadType = PayloadType, SequenceNumber = wseq c, Timestamp = wts c, SSRC = ssrc c\<rparr>"

text \<open>The packet put on the wire, if one was, and the result of the call.\<close>

definition srtpWrite ::
  "('c, 'd) srtpLib \<Rightarrow> (bytes \<Rightarrow> bool) \<Rightarrow> bytes \<Rightarrow> 'c wconn \<Rightarrow> 'c wconn \<times> bytes option \<times> (writeError + nat)" where
  "srtpWrite L sock b c =
     (let c1 = c\<lparr>wseq := wseq c + 1, wts := wts c + of_nat (length b)\<rparr> in
      case MarshalTo L (headerOf c) b of
        None \<Rightarrow> (c1, None, Inl MarshalError)
      | Some raw \<Rightarrow>
        (case EncryptRTP L (encCtx c) raw of
           (ctx, None) \<Rightarrow> (c1\<lparr>encCtx := ctx\<rparr>, None, Inl EncryptError)
         | (ctx, Some enc) \<Rightarrow>
             (c1\<lparr>encCtx := ctx\<rparr>, Some enc, if sock enc then Inr (length b) else Inl SocketError)))"

text \<open>
  What wakes the loop of \<open>Read\<close>: a packet of the channel, the channel or the connection closed, or the
  deadline channel, with what \<open>deadlineExpired\<close> then says.
\<close>

datatype readEvent = Packet bytes | RxClosed | Closed | DeadlineCh bool

datatype readResult = Data bytes | ErrClosed | DeadlineExceeded | Blocked

fun srtpRead :: "('c, 'd) srtpLib \<Rightarrow> nat \<Rightarrow> 'd \<Rightarrow> readEvent list \<Rightarrow> 'd \<times> readResult \<times> readEvent list" where
  "srtpRead L n ctx [] = (ctx, Blocked, [])"
| "srtpRead L n ctx (Packet pkt # es) =
     (case DecryptRTP L ctx pkt of
        (ctx', None) \<Rightarrow> srtpRead L n ctx' es
      | (ctx', Some plain) \<Rightarrow>
          (case Unmarshal L plain of None \<Rightarrow> srtpRead L n ctx' es
           | Some k \<Rightarrow> (ctx', Data (take n (drop k plain)), es)))"
| "srtpRead L n ctx (RxClosed # es) = (ctx, ErrClosed, es)"
| "srtpRead L n ctx (Closed # es) = (ctx, ErrClosed, es)"
| "srtpRead L n ctx (DeadlineCh expired # es) =
     (if expired then (ctx, DeadlineExceeded, es) else srtpRead L n ctx es)"

text \<open>\<open>packetConnAdapter.ReadFrom\<close>, which pion/dtls reads its records through.\<close>

fun adapterRead :: "nat \<Rightarrow> readEvent list \<Rightarrow> readResult \<times> readEvent list" where
  "adapterRead n [] = (Blocked, [])"
| "adapterRead n (Packet pkt # es) = (Data (take n pkt), es)"
| "adapterRead n (RxClosed # es) = (ErrClosed, es)"
| "adapterRead n (Closed # es) = (ErrClosed, es)"
| "adapterRead n (DeadlineCh expired # es) = (if expired then (DeadlineExceeded, es) else adapterRead n es)"

text \<open>
  The start of a client session: what is given up on each failure, as flags for the DTLS connection, the
  adapter and the demultiplexer being closed.
\<close>

datatype clientError = NilUnderlay | NilRemote | CertFailed | DtlsInit | HandshakeFailed | SetupFailed

record teardown =
  dtlsClosed :: bool
  adapterClosed :: bool
  demuxStopped :: bool

definition Client :: "bool \<Rightarrow> bool \<Rightarrow> bool \<Rightarrow> bool \<Rightarrow> bool \<Rightarrow> 'w option \<Rightarrow> (clientError + 'w) \<times> teardown option" where
  "Client underlay remote cert init handshake wrap =
     (let td = (\<lambda>d. Some \<lparr>dtlsClosed = d, adapterClosed = True, demuxStopped = True\<rparr>) in
      if \<not> underlay then (Inl NilUnderlay, None)
      else if \<not> remote then (Inl NilRemote, None)
      else if \<not> cert then (Inl CertFailed, None)
      else if \<not> init then (Inl DtlsInit, td False)
      else if \<not> handshake then (Inl HandshakeFailed, td True)
      else case wrap of None \<Rightarrow> (Inl SetupFailed, td True) | Some w \<Rightarrow> (Inr w, None))"

end
