(* ===== verification/SrtpProps.thy ===== *)
theory SrtpProps
  imports Srtp
begin

text \<open>
  Properties of the SRTP transport: the client's demultiplexer loses and reorders nothing, the server
  keeps one session per address and never mixes them up, and a stream of writes arrives.
\<close>

section \<open>First bytes\<close>

lemma classes_disjoint: "\<not> (IsDTLS b \<and> IsRTP b)"
  by (auto simp: IsDTLS_def IsRTP_def word_le_nat_alt)

section \<open>The client's demultiplexer\<close>

text \<open>The demultiplexer with a log of the classified packets that arrived and of those taken by the readers.\<close>

record cdSys =
  dm :: demux
  arrived :: "bytes list"
  takenDtls :: "bytes list"
  takenRtp :: "bytes list"

definition logRead :: "readError + bytes \<Rightarrow> bytes list" where
  "logRead r = (case r of Inl _ \<Rightarrow> []
     | Inr d \<Rightarrow> (case take readBuf d of [] \<Rightarrow> [] | b # bs \<Rightarrow> if IsDTLS b \<or> IsRTP b then [b # bs] else []))"

inductive cdStep :: "cdSys \<Rightarrow> cdSys \<Rightarrow> bool" where
  cdRead: "at (dm s) = Reading \<Longrightarrow> cdStep s (s\<lparr>dm := demuxRead r (dm s), arrived := arrived s @ logRead r\<rparr>)"
| cdSend: "demuxSend (dm s) = Some d \<Longrightarrow> cdStep s (s\<lparr>dm := d\<rparr>)"
| cdCancel: "cdStep s (s\<lparr>dm := demuxCancel (dm s)\<rparr>)"
| cdMeasure: "at (dm s) = Measuring \<Longrightarrow> cdStep s (s\<lparr>dm := demuxMeasure (dm s)\<rparr>)"
| cdTakeDtls: "dtlsCh (dm s) = p # ps \<Longrightarrow> cdStep s (s\<lparr>dm := (dm s)\<lparr>dtlsCh := ps\<rparr>, takenDtls := takenDtls s @ [p]\<rparr>)"
| cdTakeRtp: "rtpCh (dm s) = p # ps \<Longrightarrow> cdStep s (s\<lparr>dm := (dm s)\<lparr>rtpCh := ps\<rparr>, takenRtp := takenRtp s @ [p]\<rparr>)"

definition cdInit :: "cdSys \<Rightarrow> bool" where
  "cdInit s \<longleftrightarrow> s = \<lparr>dm = \<lparr>at = Reading, dtlsCh = [], rtpCh = [], gauge = 0\<rparr>, arrived = [], takenDtls = [], takenRtp = []\<rparr>"

abbreviation ofDtls :: "bytes list \<Rightarrow> bytes list" where "ofDtls \<equiv> filter (\<lambda>p. IsDTLS (hd p))"
abbreviation ofRtp :: "bytes list \<Rightarrow> bytes list" where "ofRtp \<equiv> filter (\<lambda>p. IsRTP (hd p))"

definition pendingPkt :: "demux \<Rightarrow> bytes list" where
  "pendingPkt d = (case at d of Sending p \<Rightarrow> [p] | _ \<Rightarrow> [])"

text \<open>What is in the channels or taken from them, and the packet being sent, is what arrived.\<close>

definition cdInv :: "cdSys \<Rightarrow> bool" where
  "cdInv s \<longleftrightarrow>
     (\<exists>lost. ofDtls (arrived s) = takenDtls s @ dtlsCh (dm s) @ ofDtls (pendingPkt (dm s) @ lost)
           \<and> ofRtp (arrived s) = takenRtp s @ rtpCh (dm s) @ ofRtp (pendingPkt (dm s) @ lost)
           \<and> (at (dm s) \<noteq> Over \<longrightarrow> lost = []))
     \<and> (\<forall>p. at (dm s) = Sending p \<longrightarrow> IsDTLS (hd p) \<or> IsRTP (hd p))
     \<and> length (dtlsCh (dm s)) \<le> dtlsCap \<and> length (rtpCh (dm s)) \<le> rtpCap
     \<and> 0 \<le> gauge (dm s) \<and> gauge (dm s) \<le> int rtpCap"

lemma cdInv_step:
  assumes "cdInv s" "cdStep s t"
  shows "cdInv t"
  using assms(2)
proof cases
  case (cdRead r)
  obtain lost where l: "ofDtls (arrived s) = takenDtls s @ dtlsCh (dm s) @ ofDtls (pendingPkt (dm s) @ lost)"
    "ofRtp (arrived s) = takenRtp s @ rtpCh (dm s) @ ofRtp (pendingPkt (dm s) @ lost)" "lost = []"
    using assms(1) cdRead(2) by (auto simp: cdInv_def)
  have p: "pendingPkt (dm s) = []" using cdRead(2) by (simp add: pendingPkt_def)
  have d: "demuxRead r (dm s) = (dm s)\<lparr>at := at (demuxRead r (dm s))\<rparr>"
    "at (demuxRead r (dm s)) = Over \<and> logRead r = [] \<or> at (demuxRead r (dm s)) = Reading \<and> logRead r = []
      \<or> (\<exists>b bs. at (demuxRead r (dm s)) = Sending (b # bs) \<and> logRead r = [b # bs] \<and> (IsDTLS b \<or> IsRTP b))"
    using cdRead(2) by (auto simp: demuxRead_def logRead_def Let_def split: sum.splits readError.splits list.splits)
  have keep: "length (dtlsCh (dm s)) \<le> dtlsCap" "length (rtpCh (dm s)) \<le> rtpCap" "0 \<le> gauge (dm s)"
    "gauge (dm s) \<le> int rtpCap" using assms(1) by (simp_all add: cdInv_def)
  have flds: "dtlsCh (demuxRead r (dm s)) = dtlsCh (dm s)" "rtpCh (demuxRead r (dm s)) = rtpCh (dm s)"
    "gauge (demuxRead r (dm s)) = gauge (dm s)"
    by (subst d(1), simp)+
  show ?thesis
    using d(2) l p keep unfolding cdRead(1) cdInv_def
    by (auto simp: flds pendingPkt_def intro!: exI [of _ "[]"])
next
  case (cdSend d)
  then obtain p where p: "at (dm s) = Sending p" by (auto simp: demuxSend_def split: demuxAt.splits)
  show ?thesis
  proof (cases "IsDTLS (hd p)")
    case True
    then have "\<not> IsRTP (hd p)" using classes_disjoint by blast
    then show ?thesis
      using assms(1) cdSend p True
      by (auto simp: cdInv_def demuxSend_def pendingPkt_def split: if_splits)
  next
    case False
    then have "IsRTP (hd p)" using assms(1) p by (simp add: cdInv_def)
    then show ?thesis
      using assms(1) cdSend p False
      by (auto simp: cdInv_def demuxSend_def pendingPkt_def split: if_splits)
  qed
next
  case cdCancel
  show ?thesis
  proof (cases "\<exists>p. at (dm s) = Sending p")
    case True
    then obtain p where p: "at (dm s) = Sending p" by blast
    have "\<exists>lost. ofDtls (arrived s) = takenDtls s @ dtlsCh (dm s) @ ofDtls lost
        \<and> ofRtp (arrived s) = takenRtp s @ rtpCh (dm s) @ ofRtp lost"
      using assms(1) p unfolding cdInv_def by (auto intro: exI [of _ "[p]"] simp: pendingPkt_def)
    then show ?thesis using assms(1) p unfolding cdCancel by (auto simp: cdInv_def demuxCancel_def pendingPkt_def)
  next
    case False
    then have "demuxCancel (dm s) = dm s" by (auto simp: demuxCancel_def split: demuxAt.splits)
    then show ?thesis using assms(1) unfolding cdCancel by simp
  qed
next
  case cdMeasure
  then show ?thesis
    using assms(1) by (auto simp: cdInv_def demuxMeasure_def casMax_def pendingPkt_def Let_def)
next
  case (cdTakeDtls p ps)
  then show ?thesis using assms(1) by (auto simp: cdInv_def pendingPkt_def)
next
  case (cdTakeRtp p ps)
  then show ?thesis using assms(1) by (auto simp: cdInv_def pendingPkt_def)
qed

interpretation cd_sys: invariant_system cdInit cdStep cdInv
proof
  fix s assume "cdInit s"
  then show "cdInv s"
    by (simp add: cdInit_def cdInv_def pendingPkt_def dtlsCap_def rtpCap_def exI [of _ "[]"])
qed (rule cdInv_step)

text \<open>
  C18. The client's demultiplexer neither loses nor reorders packets while it runs: what the readers of
  each class took, what waits in the channel and the packet being handed over are, in this order, exactly
  the packets of the class that arrived; after cancellation it is still a prefix. The channels keep
  their bounds and the depth gauge never exceeds the bound.
\<close>

theorem client_demux_lossless:
  assumes "reach cdInit cdStep s"
  shows "(at (dm s) \<noteq> Over \<longrightarrow>
        takenRtp s @ rtpCh (dm s) @ ofRtp (pendingPkt (dm s)) = ofRtp (arrived s)
      \<and> takenDtls s @ dtlsCh (dm s) @ ofDtls (pendingPkt (dm s)) = ofDtls (arrived s))
    \<and> (\<exists>rest. ofRtp (arrived s) = takenRtp s @ rtpCh (dm s) @ rest)
    \<and> (\<exists>rest. ofDtls (arrived s) = takenDtls s @ dtlsCh (dm s) @ rest)
    \<and> length (dtlsCh (dm s)) \<le> 64 \<and> length (rtpCh (dm s)) \<le> 4096 \<and> gauge (dm s) \<le> 4096"
  using cd_sys.inv_reach [OF assms] unfolding cdInv_def dtlsCap_def rtpCap_def
  by (elim exE conjE) (intro conjI impI; simp; blast?)

theorem client_demux_lossless_witness:
  "\<exists>s. reach cdInit cdStep s \<and> at (dm s) = Measuring \<and> rtpCh (dm s) = [[0x80, 1]] \<and> ofRtp (arrived s) = [[0x80, 1]]"
proof -
  define s0 where "s0 = \<lparr>dm = \<lparr>at = Reading, dtlsCh = [], rtpCh = [], gauge = 0\<rparr>, arrived = [], takenDtls = [], takenRtp = []\<rparr>"
  define s1 where "s1 = s0\<lparr>dm := demuxRead (Inr [0x80, 1]) (dm s0), arrived := arrived s0 @ logRead (Inr [0x80, 1])\<rparr>"
  define s2 where "s2 = s1\<lparr>dm := (dm s1)\<lparr>at := Measuring, rtpCh := [[0x80, 1]]\<rparr>\<rparr>"
  have cls: "IsRTP (0x80 :: byte)" "\<not> IsDTLS (0x80 :: byte)" by (simp_all add: IsRTP_def IsDTLS_def word_le_nat_alt)
  have "reach cdInit cdStep s0" by (rule reach.reach_init) (simp add: cdInit_def s0_def)
  then have r1: "reach cdInit cdStep s1"
    by (rule reach.reach_step) (unfold s1_def, rule cdRead, simp add: s0_def)
  have at1: "dm s1 = \<lparr>at = Sending [0x80, 1], dtlsCh = [], rtpCh = [], gauge = 0\<rparr>"
    by (simp add: s1_def s0_def demuxRead_def readBuf_def cls)
  have "reach cdInit cdStep s2" using r1
    by (rule reach.reach_step) (unfold s2_def, rule cdSend, simp add: at1 demuxSend_def cls rtpCap_def)
  moreover have "at (dm s2) = Measuring" "rtpCh (dm s2) = [[0x80, 1]]" "takenRtp s2 = []"
    by (simp_all add: s2_def s1_def s0_def)
  ultimately show ?thesis
    using client_demux_lossless [of s2] by (intro exI [of _ s2]) (simp add: pendingPkt_def)
qed

section \<open>The server's sessions\<close>

inductive srvLogStep :: "server \<times> (string \<times> bytes) set \<Rightarrow> server \<times> (string \<times> bytes) set \<Rightarrow> bool" where
  "srvStep lbl s t \<Longrightarrow> srvLogStep (s, l) (t, l \<union> (\<lambda>(k, d). (k, take readBuf d)) ` set_option lbl)"

text \<open>A session is well formed: bounded queues of packets of its class that came from its address.\<close>

definition sessOK :: "(string \<times> bytes) set \<Rightarrow> session \<Rightarrow> bool" where
  "sessOK l x \<longleftrightarrow> length (dtlsQ x) \<le> dtlsCap \<and> length (rtpQ x) \<le> rtpCap
     \<and> (\<forall>p \<in> set (dtlsQ x). IsDTLS (hd p) \<and> (src x, p) \<in> l) \<and> (\<forall>p \<in> set (rtpQ x). IsRTP (hd p) \<and> (src x, p) \<in> l)"

definition srvInv :: "server \<times> (string \<times> bytes) set \<Rightarrow> bool" where
  "srvInv x \<longleftrightarrow> (case x of (s, l) \<Rightarrow>
     (\<forall>k i. sessions s k = Some i \<longleftrightarrow> i < nextSess s \<and> src (sess s i) = k \<and> ph (sess s i) \<noteq> Ended)
     \<and> (\<forall>i < nextSess s. sessOK l (sess s i))
     \<and> (\<forall>i p. delivering s = Some (i, p) \<longrightarrow> i < nextSess s \<and> (src (sess s i), p) \<in> l)
     \<and> length (out s) \<le> outCap)"

lemma srvInvD:
  assumes "srvInv (s, l)"
  shows "sessions s k = Some i \<longleftrightarrow> i < nextSess s \<and> src (sess s i) = k \<and> ph (sess s i) \<noteq> Ended"
    and "i < nextSess s \<Longrightarrow> sessOK l (sess s i)"
    and "delivering s = Some (i, p) \<Longrightarrow> i < nextSess s \<and> (src (sess s i), p) \<in> l" and "length (out s) \<le> outCap"
  using assms unfolding srvInv_def by simp_all

lemma srvInvI:
  assumes "\<And>k i. sessions s k = Some i \<longleftrightarrow> i < nextSess s \<and> src (sess s i) = k \<and> ph (sess s i) \<noteq> Ended"
    and "\<And>i. i < nextSess s \<Longrightarrow> sessOK l (sess s i)"
    and "\<And>i p. delivering s = Some (i, p) \<Longrightarrow> i < nextSess s \<and> (src (sess s i), p) \<in> l" and "length (out s) \<le> outCap"
  shows "srvInv (s, l)"
  using assms unfolding srvInv_def by simp

lemma sessOK_more: "sessOK l x \<Longrightarrow> l \<subseteq> m \<Longrightarrow> sessOK m x"
  unfolding sessOK_def by blast

lemma in_set_tl: "x \<in> set (tl xs) \<Longrightarrow> x \<in> set xs"
  by (cases xs) simp_all

lemma sessOK_enqueue:
  assumes "sessOK l x" "(src x, p) \<in> l"
  shows "sessOK l (enqueue p x)" "src (enqueue p x) = src x" "ph (enqueue p x) = ph x"
  using assms by (auto simp: sessOK_def enqueue_def split: list.splits)

text \<open>Changing one session in a way that keeps its address and its phase keeps the invariant.\<close>

lemma srvInv_change:
  assumes "srvInv (s, l)" "i < nextSess s" "sessOK l x" "src x = src (sess s i)" "ph x = Ended \<longleftrightarrow> ph (sess s i) = Ended"
    and "out' = out s \<or> length out' \<le> outCap" "del = delivering s \<or> del = None"
  shows "srvInv (s\<lparr>sess := (sess s)(i := x), out := out', delivering := del\<rparr>, l)"
proof (rule srvInvI)
  note D = srvInvD [OF assms(1)]
  let ?t = "s\<lparr>sess := (sess s)(i := x), out := out', delivering := del\<rparr>"
  show "sessions ?t k = Some j \<longleftrightarrow> j < nextSess ?t \<and> src (sess ?t j) = k \<and> ph (sess ?t j) \<noteq> Ended" for k j
    using D(1) [of k j] assms(4,5) by simp
  show "sessOK l (sess ?t j)" if "j < nextSess ?t" for j using that D(2) assms(3) by simp
  show "j < nextSess ?t \<and> (src (sess ?t j), p) \<in> l" if "delivering ?t = Some (j, p)" for j p
    using that D(3) [of j p] assms(4,7) by auto
  show "length (out ?t) \<le> outCap" using D(4) assms(6) by auto
qed

lemma srvInv_forget:
  assumes "srvInv (s, l)" "i < nextSess s" "ph (sess s i) \<noteq> Ended"
  shows "srvInv (forget i s, l)"
proof (rule srvInvI)
  note D = srvInvD [OF assms(1)]
  show "sessions (forget i s) k = Some j \<longleftrightarrow> j < nextSess (forget i s) \<and> src (sess (forget i s) j) = k
      \<and> ph (sess (forget i s) j) \<noteq> Ended" for k j
    using D(1) [of k j] D(1) [of "src (sess s i)" i] assms(2,3) by (auto simp: forget_def)
  show "sessOK l (sess (forget i s) j)" if "j < nextSess (forget i s)" for j
    using that D(2) by (auto simp: forget_def sessOK_def)
  show "j < nextSess (forget i s) \<and> (src (sess (forget i s) j), p) \<in> l" if "delivering (forget i s) = Some (j, p)" for j p
    using that D(3) [of j p] by (auto simp: forget_def)
  show "length (out (forget i s)) \<le> outCap" using D(4) by (simp add: forget_def)
qed

lemma srvInv_lookup:
  assumes "srvInv (s, l)" "delivering s = None"
  shows "srvInv (demuxLookup key d s, insert (key, take readBuf d) l)"
proof -
  note D = srvInvD [OF assms(1)]
  let ?l = "insert (key, take readBuf d) l"
  have m: "sessOK l x \<Longrightarrow> sessOK ?l x" for x using sessOK_more by blast
  consider "take readBuf d = []" | i where "take readBuf d \<noteq> []" "sessions s key = Some i"
    | "take readBuf d \<noteq> []" "sessions s key = None" by (cases "sessions s key") blast+
  then show ?thesis
  proof cases
    case 1
    then show ?thesis using D m assms(2) by (auto simp: demuxLookup_def intro!: srvInvI)
  next
    case (2 i)
    then have "demuxLookup key d s = s\<lparr>delivering := Some (i, take readBuf d)\<rparr>" by (simp add: demuxLookup_def)
    then show ?thesis using D m 2 by (auto intro!: srvInvI)
  next
    case 3
    let ?i = "nextSess s"
    let ?x = "\<lparr>src = key, dtlsQ = [], rtpQ = [], ph = Handshaking\<rparr>"
    have e: "demuxLookup key d s = s\<lparr>sessions := (sessions s)(key \<mapsto> ?i), nextSess := Suc ?i,
        delivering := Some (?i, take readBuf d), sess := (sess s)(?i := ?x)\<rparr>"
      using 3 by (simp add: demuxLookup_def Let_def)
    have ok: "sessOK ?l ?x" by (simp add: sessOK_def)
    have gone: "ph (sess s j) = Ended" if "j < ?i" "src (sess s j) = key" for j
      using D(1) [of key j] that 3(2) by simp
    show ?thesis
    proof (rule srvInvI)
      let ?t = "demuxLookup key d s"
      show "sessions ?t k = Some j \<longleftrightarrow> j < nextSess ?t \<and> src (sess ?t j) = k \<and> ph (sess ?t j) \<noteq> Ended" for k j
      proof (cases "j = ?i")
        case True
        then show ?thesis using D(1) [of k ?i] by (auto simp: e)
      next
        case False
        then show ?thesis using D(1) [of k j] gone [of j] by (auto simp: e less_Suc_eq)
      qed
      show "sessOK ?l (sess ?t j)" if "j < nextSess ?t" for j
        using that ok m D(2) by (cases "j = ?i") (simp_all add: e)
      show "j < nextSess ?t \<and> (src (sess ?t j), p) \<in> ?l" if "delivering ?t = Some (j, p)" for j p
        using that by (simp add: e)
      show "length (out ?t) \<le> outCap" using D(4) by (simp add: e)
    qed
  qed
qed

lemma srvInv_step:
  assumes "srvInv (s, l)" "srvStep lbl s t"
  shows "srvInv (t, l \<union> (\<lambda>(k, d). (k, take readBuf d)) ` set_option lbl)"
  using assms(2)
proof cases
  case (lookup key d)
  then show ?thesis using srvInv_lookup [OF assms(1)] by simp
next
  case deliver
  show ?thesis
  proof (cases "delivering s")
    case (Some ip)
    then obtain i p where ip: "delivering s = Some (i, p)" by (cases ip) simp
    note d = srvInvD(3) [OF assms(1) ip]
    note q = sessOK_enqueue [OF srvInvD(2) [OF assms(1)] d [THEN conjunct2]]
    show ?thesis
      using srvInv_change [OF assms(1), of i "enqueue p (sess s i)" "out s" None] q d ip deliver
      by (simp add: demuxDeliver_def)
  qed (use deliver assms(1) in \<open>simp add: demuxDeliver_def\<close>)
next
  case (handshake i ok)
  have "sessOK l ((sess s i)\<lparr>ph := Publishing\<rparr>)" using srvInvD(2) [OF assms(1) handshake(3)] by (simp add: sessOK_def)
  then have "srvInv (s\<lparr>sess := (sess s)(i := (sess s i)\<lparr>ph := Publishing\<rparr>)\<rparr>, l)"
    using srvInv_change [OF assms(1) handshake(3), of "(sess s i)\<lparr>ph := Publishing\<rparr>" "out s" "delivering s"] handshake(4)
    by simp
  then show ?thesis
    using handshake srvInv_forget [OF assms(1) handshake(3)] by (simp add: handshakeEnd_def)
next
  case (published i sendFirst)
  have "sessOK l ((sess s i)\<lparr>ph := Live\<rparr>)" using srvInvD(2) [OF assms(1) published(3)] by (simp add: sessOK_def)
  then have "srvInv (s\<lparr>sess := (sess s)(i := (sess s i)\<lparr>ph := Live\<rparr>), out := out s @ [i]\<rparr>, l)" if "length (out s) < outCap"
    using srvInv_change [OF assms(1) published(3), of "(sess s i)\<lparr>ph := Live\<rparr>" "out s @ [i]" "delivering s"] published(4) that
    by simp
  then show ?thesis
    using published assms(1) srvInv_forget [OF assms(1) published(3)] by (simp add: publish_def)
next
  case (close i)
  then show ?thesis using assms(1) srvInv_forget [OF assms(1) close(3)] by (simp add: closeSession_def)
next
  case accept
  then show ?thesis
    using assms(1) by (cases "out s") (auto simp: serverAccept_def srvInv_def)
next
  case (readRtp i)
  have "sessOK l ((sess s i)\<lparr>rtpQ := tl (rtpQ (sess s i))\<rparr>)"
    using srvInvD(2) [OF assms(1) readRtp(3)] by (auto simp: sessOK_def dest: in_set_tl)
  then show ?thesis
    using srvInv_change [OF assms(1) readRtp(3), of "(sess s i)\<lparr>rtpQ := tl (rtpQ (sess s i))\<rparr>" "out s" "delivering s"] readRtp
    by (simp add: takeRtp_def)
next
  case (readDtls i)
  have "sessOK l ((sess s i)\<lparr>dtlsQ := tl (dtlsQ (sess s i))\<rparr>)"
    using srvInvD(2) [OF assms(1) readDtls(3)] by (auto simp: sessOK_def dest: in_set_tl)
  then show ?thesis
    using srvInv_change [OF assms(1) readDtls(3), of "(sess s i)\<lparr>dtlsQ := tl (dtlsQ (sess s i))\<rparr>" "out s" "delivering s"] readDtls
    by (simp add: takeDtls_def)
next
  case stop
  then show ?thesis using assms(1) by (simp add: serverClose_def srvInv_def)
qed

interpretation srv_sys: invariant_system "\<lambda>x. x = (newServer, {})" srvLogStep srvInv
proof
  fix x :: "server \<times> (string \<times> bytes) set" assume "x = (newServer, {})"
  then show "srvInv x" by (simp add: srvInv_def newServer_def outCap_def)
next
  fix x y assume "srvInv x" "srvLogStep x y"
  then show "srvInv y" by (auto elim!: srvLogStep.cases intro: srvInv_step)
qed

text \<open>
  C19. The server keeps its clients apart. In every interleaving of datagrams, handshakes, accepts, reads
  and closes, the map holds exactly the sessions that have not ended, each under its own address, so an
  address has at most one; and a packet waiting in a channel of a session came from the address of the
  session and is of the class of the channel, with the channels within their bounds.
\<close>

theorem server_sessions_isolated:
  assumes "reach (\<lambda>x. x = (newServer, {})) srvLogStep (s, l)"
  shows "(\<forall>k i. sessions s k = Some i \<longleftrightarrow> i < nextSess s \<and> src (sess s i) = k \<and> ph (sess s i) \<noteq> Ended)
    \<and> (\<forall>i j. i < nextSess s \<and> j < nextSess s \<and> ph (sess s i) \<noteq> Ended \<and> ph (sess s j) \<noteq> Ended
         \<and> src (sess s i) = src (sess s j) \<longrightarrow> i = j)
    \<and> (\<forall>i < nextSess s. length (dtlsQ (sess s i)) \<le> 64 \<and> length (rtpQ (sess s i)) \<le> 4096
         \<and> (\<forall>p \<in> set (dtlsQ (sess s i)). IsDTLS (hd p) \<and> (src (sess s i), p) \<in> l)
         \<and> (\<forall>p \<in> set (rtpQ (sess s i)). IsRTP (hd p) \<and> (src (sess s i), p) \<in> l))"
proof -
  have inv: "srvInv (s, l)" using assms by (rule srv_sys.inv_reach)
  note D = srvInvD [OF inv]
  have "i = j" if "i < nextSess s" "j < nextSess s" "ph (sess s i) \<noteq> Ended" "ph (sess s j) \<noteq> Ended"
    "src (sess s i) = src (sess s j)" for i j
    using D(1) [of "src (sess s i)" i] D(1) [of "src (sess s i)" j] that by simp
  moreover have "length (dtlsQ (sess s i)) \<le> 64 \<and> length (rtpQ (sess s i)) \<le> 4096
      \<and> (\<forall>p \<in> set (dtlsQ (sess s i)). IsDTLS (hd p) \<and> (src (sess s i), p) \<in> l)
      \<and> (\<forall>p \<in> set (rtpQ (sess s i)). IsRTP (hd p) \<and> (src (sess s i), p) \<in> l)" if "i < nextSess s" for i
    using D(2) [OF that] by (simp add: sessOK_def dtlsCap_def rtpCap_def)
  ultimately show ?thesis using D(1) by blast
qed

theorem server_sessions_isolated_witness:
  "\<exists>s l. reach (\<lambda>x. x = (newServer, {})) srvLogStep (s, l) \<and> sessions s ''1.2.3.4:5'' = Some 0
     \<and> rtpQ (sess s 0) = [[0x80, 7]] \<and> (''1.2.3.4:5'', [0x80, 7]) \<in> l"
proof -
  define s1 where "s1 = demuxLookup ''1.2.3.4:5'' [0x80, 7] newServer"
  define s2 where "s2 = demuxDeliver s1"
  let ?l = "{} \<union> (\<lambda>(k, d). (k, take readBuf d)) ` set_option (Some (''1.2.3.4:5'', [0x80, 7 :: byte]))"
  have cls: "IsRTP (0x80 :: byte)" "\<not> IsDTLS (0x80 :: byte)" by (simp_all add: IsRTP_def IsDTLS_def word_le_nat_alt)
  have "reach (\<lambda>x. x = (newServer, {})) srvLogStep (newServer, {})" by (rule reach.reach_init) simp
  then have "reach (\<lambda>x. x = (newServer, {})) srvLogStep (s1, ?l)"
    by (rule reach.reach_step) (unfold s1_def, intro srvLogStep.intros lookup, simp add: newServer_def)
  then have "reach (\<lambda>x. x = (newServer, {})) srvLogStep
      (s2, ?l \<union> (\<lambda>(k, d). (k, take readBuf d)) ` set_option None)"
    by (rule reach.reach_step) (unfold s2_def, intro srvLogStep.intros deliver)
  moreover have "sessions s2 ''1.2.3.4:5'' = Some 0" "rtpQ (sess s2 0) = [[0x80, 7]]" "src (sess s2 0) = ''1.2.3.4:5''"
    by (simp_all add: s2_def s1_def demuxDeliver_def demuxLookup_def newServer_def readBuf_def enqueue_def cls rtpCap_def)
  moreover have "0 < nextSess s2" by (simp add: s2_def s1_def demuxDeliver_def demuxLookup_def newServer_def readBuf_def)
  ultimately show ?thesis
    using server_sessions_isolated [of s2 ?l] by (intro exI [of _ s2] exI [of _ ?l]) simp
qed

section \<open>A stream of writes\<close>

fun srtpWrites :: "('c, 'd) srtpLib \<Rightarrow> bytes list \<Rightarrow> 'c wconn \<Rightarrow> 'c wconn \<times> bytes list" where
  "srtpWrites L [] c = (c, [])"
| "srtpWrites L (b # bs) c =
     (let (c1, sent, _) = srtpWrite L (\<lambda>_. True) b c; (c2, rest) = srtpWrites L bs c1
      in (c2, (case sent of None \<Rightarrow> rest | Some p \<Rightarrow> p # rest)))"

fun srtpReads :: "('c, 'd) srtpLib \<Rightarrow> nat \<Rightarrow> nat \<Rightarrow> 'd \<Rightarrow> readEvent list \<Rightarrow> readResult list" where
  "srtpReads L n 0 ctx es = []"
| "srtpReads L n (Suc k) ctx es = (let (ctx1, r, rest) = srtpRead L n ctx es in r # srtpReads L n k ctx1 rest)"

text \<open>
  What the libraries promise: an RTP packet has a first byte of version 2 and its payload follows the
  header it is read back with; what one context encrypts the paired one decrypts, in order, and the
  first byte stays in the clear.
\<close>

definition rtp_ok :: "('c, 'd) srtpLib \<Rightarrow> bool" where
  "rtp_ok L \<longleftrightarrow> (\<forall>h p. \<exists>raw k. MarshalTo L h p = Some raw \<and> Unmarshal L raw = Some k \<and> drop k raw = p \<and> IsRTP (hd raw))"

definition srtp_ok :: "('c, 'd) srtpLib \<Rightarrow> ('c \<Rightarrow> 'd \<Rightarrow> bool) \<Rightarrow> bool" where
  "srtp_ok L paired \<longleftrightarrow> (\<forall>e d raw. paired e d \<longrightarrow> (\<exists>e' d' pkt. EncryptRTP L e raw = (e', Some pkt)
     \<and> DecryptRTP L d pkt = (d', Some raw) \<and> paired e' d' \<and> hd pkt = hd raw))"

lemma srtp_stream:
  assumes "rtp_ok L" "srtp_ok L paired" "paired (encCtx c) d" "\<forall>b \<in> set bs. length b \<le> n"
  shows "srtpReads L n (length bs) d (map Packet (snd (srtpWrites L bs c))) = map Data bs
    \<and> list_all (\<lambda>p. IsRTP (hd p)) (snd (srtpWrites L bs c)) \<and> length (snd (srtpWrites L bs c)) = length bs"
  using assms(3,4)
proof (induction bs arbitrary: c d)
  case (Cons b bs)
  obtain raw k where m: "MarshalTo L (headerOf c) b = Some raw" "Unmarshal L raw = Some k" "drop k raw = b" "IsRTP (hd raw)"
    using assms(1) unfolding rtp_ok_def by metis
  obtain e' d' pkt where e: "EncryptRTP L (encCtx c) raw = (e', Some pkt)" "DecryptRTP L d pkt = (d', Some raw)"
    "paired e' d'" "hd pkt = hd raw"
    using assms(2) Cons.prems(1) unfolding srtp_ok_def by metis
  define c1 where "c1 = c\<lparr>wseq := wseq c + 1, wts := wts c + of_nat (length b), encCtx := e'\<rparr>"
  have w: "srtpWrite L (\<lambda>_. True) b c = (c1, Some pkt, Inr (length b))"
    by (simp add: srtpWrite_def m(1) e(1) c1_def)
  have p: "paired (encCtx c1) d'" using e(3) by (simp add: c1_def)
  have "\<forall>b \<in> set bs. length b \<le> n" "length b \<le> n" using Cons.prems(2) by simp_all
  note IH = Cons.IH [OF p this(1)]
  show ?case using IH \<open>length b \<le> n\<close> by (simp add: w Let_def split_beta e(2,4) m(2-4))
qed simp

lemma srtp_counters:
  "wseq (fst (srtpWrites L bs c)) = wseq c + of_nat (length bs)
   \<and> wts (fst (srtpWrites L bs c)) = wts c + of_nat (sum_list (map length bs)) \<and> ssrc (fst (srtpWrites L bs c)) = ssrc c"
proof (induction bs arbitrary: c)
  case (Cons b bs)
  have "wseq (fst (srtpWrite L (\<lambda>_. True) b c)) = wseq c + 1"
    "wts (fst (srtpWrite L (\<lambda>_. True) b c)) = wts c + of_nat (length b)" "ssrc (fst (srtpWrite L (\<lambda>_. True) b c)) = ssrc c"
    by (simp_all add: srtpWrite_def Let_def split: option.split prod.split)
  then show ?case using Cons [of "fst (srtpWrite L (\<lambda>_. True) b c)"] by (simp add: Let_def split_beta ac_simps)
qed simp


text \<open>A library of the promised kind: a header of one byte and encryption that does nothing.\<close>

definition plainLib :: "(unit, unit) srtpLib" where
  "plainLib = \<lparr>MarshalTo = (\<lambda>h p. Some (0x80 # p)), Unmarshal = (\<lambda>raw. Some 1), EncryptRTP = (\<lambda>e raw. (e, Some raw)),
     DecryptRTP = (\<lambda>d pkt. (d, Some pkt))\<rparr>"


end
