(* ===== verification/VkApi.thy ===== *)
theory VkApi
  imports Json CredEntry
begin

text \<open>
  Reading the answers of the VK and OK.ru interfaces, as \<open>creds.go\<close>, \<open>creds_vkcalls.go\<close> and
  \<open>creds_vkcookie.go\<close> do: a string at the end of a path of keys, the captcha and call errors, the addresses
  of the TURN servers.
\<close>

text \<open>\<open>%T\<close> of a decoded value and \<open>%.0f\<close> of a number: rounded half to even, with the sign.\<close>

fun go_type :: "json \<Rightarrow> string" where
  "go_type JNull = ''<nil>''"
| "go_type (JBool _) = ''bool''"
| "go_type (JNum _) = ''float64''"
| "go_type (JStr _) = ''string''"
| "go_type (JArr _) = ''[]interface {}''"
| "go_type (JObj _) = ''map[string]interface {}''"

definition half_even :: "rat \<Rightarrow> int" where
  "half_even q = (let n = \<lfloor>q\<rfloor>; r = q - of_int n in
     if r < 1 / 2 then n else if r > 1 / 2 then n + 1 else if even n then n else n + 1)"

definition Sprintf_0f :: "rat \<Rightarrow> string" where
  "Sprintf_0f q = (if q < 0 then CHR ''-'' # Itoa (half_even (- q)) else Itoa (half_even q))"

definition quote :: "string \<Rightarrow> string" where
  "quote s = [CHR 0x22] @ s @ [CHR 0x22]"

text \<open>
  The walk along the keys and its errors. The three copies of this function in the sources differ only
  in the wording of the errors.
\<close>

fun walkKeys :: "json \<Rightarrow> string list \<Rightarrow> string + json" where
  "walkKeys cur [] = Inr cur"
| "walkKeys cur (k # ks) =
     (case as_obj cur of None \<Rightarrow> Inl (''expected map at key '' @ quote k @ '', got '' @ go_type cur)
      | Some m \<Rightarrow> walkKeys (jget m k) ks)"

definition extractStr :: "jobj \<Rightarrow> string list \<Rightarrow> string + string" where
  "extractStr resp keys =
     (case walkKeys (JObj resp) keys of Inl e \<Rightarrow> Inl e
      | Inr cur \<Rightarrow> (case as_str cur of None \<Rightarrow> Inl (''expected string at end of path, got '' @ go_type cur) | Some s \<Rightarrow> Inr s))"

definition extractFloat :: "jobj \<Rightarrow> string list \<Rightarrow> string + rat" where
  "extractFloat resp keys =
     (case walkKeys (JObj resp) keys of Inl e \<Rightarrow> Inl e
      | Inr cur \<Rightarrow> (case as_num cur of None \<Rightarrow> Inl (''expected float64 at end of path, got '' @ go_type cur) | Some q \<Rightarrow> Inr q))"

text \<open>The addresses of \<open>turn_server.urls\<close>: entries that are not strings are skipped.\<close>

definition turnAddr :: "string \<Rightarrow> string" where
  "turnAddr s = TrimPrefix (TrimPrefix (hd (Split (CHR ''?'') s)) ''turn:'') ''turns:''"

definition parseTURNAddresses :: "jobj \<Rightarrow> string list" where
  "parseTURNAddresses resp =
     (case as_obj (jget resp ''turn_server'') of None \<Rightarrow> []
      | Some m \<Rightarrow> (case as_arr (jget m ''urls'') of None \<Rightarrow> []
        | Some urls \<Rightarrow> map turnAddr (List.map_filter as_str urls)))"

record captcha =
  cSID :: string
  cURL :: string
  cTs :: rat
  cAttempt :: rat

definition noCaptcha :: captcha where "noCaptcha = \<lparr>cSID = [], cURL = [], cTs = 0, cAttempt = 0\<rparr>"

definition extractCaptcha :: "jobj \<Rightarrow> captcha" where
  "extractCaptcha resp =
     (case as_obj (jget resp ''error'') of None \<Rightarrow> noCaptcha
      | Some errObj \<Rightarrow>
        if int_of_float (num_or_zero (jget errObj ''error_code'')) \<noteq> 14 then noCaptcha
        else
          let uri = str_or_empty (jget errObj ''redirect_uri''); a = num_or_zero (jget errObj ''captcha_attempt'')
          in \<lparr>cSID = (case jget errObj ''captcha_sid'' of JStr v \<Rightarrow> v | JNum v \<Rightarrow> Sprintf_0f v | _ \<Rightarrow> []),
              cURL = (if uri \<noteq> [] then uri else str_or_empty (jget errObj ''captcha_img'')),
              cTs = num_or_zero (jget errObj ''captcha_ts''), cAttempt = (if a = 0 then 1 else a)\<rparr>)"

definition fatalCallError :: "jobj \<Rightarrow> (int \<times> string) option" where
  "fatalCallError resp =
     (case as_obj (jget resp ''error'') of None \<Rightarrow> None
      | Some errObj \<Rightarrow>
        let code = int_of_float (num_or_zero (jget errObj ''error_code'')) in
        if code = 951 \<or> code = 954 \<or> (9000 \<le> code \<and> code \<le> 9999)
        then Some (code, str_or_empty (jget errObj ''error_msg'')) else None)"

text \<open>Whether the text of an error looks like a network problem that may pass.\<close>

definition transientMarkers :: "string list" where
  "transientMarkers = [''no such host'', ''connection refused'', ''network is unreachable'', ''no route to host'',
     ''i/o timeout'', ''deadline exceeded'', ''connection reset'']"

definition isTransientNetworkError :: "string option \<Rightarrow> bool" where
  "isTransientNetworkError err = (case err of None \<Rightarrow> False | Some s \<Rightarrow> list_ex (Contains s) transientMarkers)"

lemma captcha_not_fatal:
  assumes "cURL (extractCaptcha resp) \<noteq> [] \<or> cSID (extractCaptcha resp) \<noteq> []"
  shows "fatalCallError resp = None"
  using assms by (auto simp: extractCaptcha_def fatalCallError_def noCaptcha_def Let_def split: option.splits if_splits)

end
