(* ===== verification/VkFetch.thy ===== *)
theory VkFetch
  imports VkApi
begin

text \<open>
  Minting TURN credentials anonymously: \<open>getVKCredsWithClientID\<close> and \<open>GetVKCreds\<close> of \<open>creds.go\<close>, and the
  captcha-free path of \<open>creds_vkcalls.go\<close>. The servers, the proof-of-work solver and the interactive solver
  are functions of everything that was asked before; a request is kept as its fields, and the log of
  the requests is part of every result.
\<close>

section \<open>Requests and environment\<close>

text \<open>A solved captcha in the body of the token request; without a session id only the token is sent.\<close>

record solved =
  sSID :: string
  sToken :: string
  sTs :: rat
  sAttempt :: int

datatype fetchReq =
    ReqToken1 string string string
  | ReqPreview string string string string
  | ReqToken2 string string string string string "solved option"
  | ReqPoW string string
  | ReqAsk string
  | ReqLogin string
  | ReqJoin string string string
  | ReqAnonym string string string
  | ReqCallPreview string string string
  | ReqCallToken string string string string string string

record vkEnv =
  post :: "fetchReq list \<Rightarrow> string + jobj"
  pow :: "fetchReq list \<Rightarrow> string \<times> string \<times> string option"
  ask :: "(fetchReq list \<Rightarrow> string + string) option"

text \<open>The values made up or read for one fetch, and the identity of the application it uses.\<close>

record fetchCtx =
  linkID :: string
  escapedName :: string
  deviceID :: string
  okDevice :: string
  clientID :: string
  clientSecret :: string

record captchaRequired =
  ImageURL :: string
  SID :: string
  CaptchaTs :: rat
  CaptchaAttempt :: rat
  Token1 :: string
  ErrClientID :: string
  IsRateLimit :: bool

datatype vkErr = CaptchaRequired captchaRequired | CallUnavailable int string | Failed string

text \<open>The text of an error, as the network check reads it.\<close>

fun errText :: "vkErr \<Rightarrow> string" where
  "errText (CaptchaRequired c) = ''captcha required: '' @ ImageURL c"
| "errText (CallUnavailable code msg) =
     (if msg \<noteq> [] then ''call unavailable: '' @ msg @ '' (VK error '' @ Itoa code @ '')''
      else ''call unavailable (VK error '' @ Itoa code @ '')'')"
| "errText (Failed s) = s"

section \<open>The legacy path\<close>

definition maxPoWRetries :: nat where "maxPoWRetries = 3"

definition mkSolved :: "captcha \<Rightarrow> string \<Rightarrow> solved" where
  "mkSolved c tok = \<lparr>sSID = cSID c, sToken = tok, sTs = cTs c, sAttempt = int_of_float (cAttempt c)\<rparr>"

definition step2Req :: "fetchCtx \<Rightarrow> string \<Rightarrow> solved option \<Rightarrow> fetchReq" where
  "step2Req C token1 sv = ReqToken2 (linkID C) (escapedName C) token1 (deviceID C) (clientID C) sv"

datatype powEnd = PowSolved solved | PowToken string | PowGaveUp captcha "string option"

text \<open>
  The proof-of-work attempts on one captcha, by the number of attempts left. A failed attempt asks for a
  fresh captcha unless it was the last one; two empty hints in a row, a failed request or an answer that
  is no captcha end the loop.
\<close>

fun powLoop :: "vkEnv \<Rightarrow> fetchCtx \<Rightarrow> string \<Rightarrow> nat \<Rightarrow> captcha \<Rightarrow> nat \<Rightarrow> string option \<Rightarrow> fetchReq list \<Rightarrow> fetchReq list \<times> powEnd" where
  "powLoop E C token1 0 cur emptyShow lastErr h = (h, PowGaveUp cur lastErr)"
| "powLoop E C token1 (Suc k) cur emptyShow lastErr h =
     (let h1 = h @ [ReqPoW (cURL cur) (cSID cur)]; (tok, showType, powErr) = pow E h1 in
      if powErr = None \<and> tok \<noteq> [] then (h1, PowSolved (mkSolved cur tok))
      else
        let e = (if showType = [] then Suc emptyShow else 0) in
        if e \<ge> 2 then (h1, PowGaveUp cur powErr)
        else if k = 0 then (h1, PowGaveUp cur powErr)
        else
          let h2 = h1 @ [step2Req C token1 None] in
          case post E h2 of
            Inl _ \<Rightarrow> (h2, PowGaveUp cur powErr)
          | Inr fresh \<Rightarrow>
              if cURL (extractCaptcha fresh) = [] then
                (case extractStr fresh [''response'', ''token''] of
                   Inr t \<Rightarrow> (h2, PowToken t)
                 | Inl _ \<Rightarrow> (h2, PowGaveUp cur powErr))
              else powLoop E C token1 k (extractCaptcha fresh) e powErr h2)"

text \<open>
  All attempts failed: one more captcha is fetched for whoever solves it, then the caller's solver is
  asked, or the captcha is the error.
\<close>

definition handOver ::
  "vkEnv \<Rightarrow> fetchCtx \<Rightarrow> string \<Rightarrow> captcha \<Rightarrow> string option \<Rightarrow> fetchReq list \<Rightarrow> fetchReq list \<times> (vkErr + solved)" where
  "handOver E C token1 cur lastErr h =
     (let limited = (case lastErr of None \<Rightarrow> False | Some e \<Rightarrow> Contains e ''ERROR_LIMIT'');
          h1 = h @ [step2Req C token1 None];
          cur1 = (case post E h1 of Inl _ \<Rightarrow> cur
                  | Inr fresh \<Rightarrow> if cURL (extractCaptcha fresh) \<noteq> [] then extractCaptcha fresh else cur)
      in case ask E of
           None \<Rightarrow> (h1, Inl (CaptchaRequired \<lparr>ImageURL = cURL cur1, SID = cSID cur1, CaptchaTs = cTs cur1,
                     CaptchaAttempt = cAttempt cur1, Token1 = token1, ErrClientID = clientID C, IsRateLimit = limited\<rparr>))
         | Some solver \<Rightarrow>
             let h2 = h1 @ [ReqAsk (cURL cur1)] in
             (case solver h2 of Inl e \<Rightarrow> (h2, Inl (Failed (''step2: captcha solver: '' @ e)))
              | Inr answer \<Rightarrow> (h2, Inr (mkSolved cur1 answer))))"

text \<open>The loop over the token request, by the number of attempts left, with the token found so far.\<close>

fun step2Loop :: "vkEnv \<Rightarrow> fetchCtx \<Rightarrow> string \<Rightarrow> nat \<Rightarrow> solved option \<Rightarrow> string \<Rightarrow> fetchReq list \<Rightarrow> fetchReq list \<times> (vkErr + string)" where
  "step2Loop E C token1 0 sv token2 h =
     (h, if token2 = [] then Inl (Failed ''step2: failed after 3 captcha attempts'') else Inr token2)"
| "step2Loop E C token1 (Suc n) sv token2 h =
     (let h1 = h @ [step2Req C token1 sv] in
      case post E h1 of
        Inl e \<Rightarrow> (h1, Inl (Failed (''step2: '' @ e)))
      | Inr resp \<Rightarrow>
          let c = extractCaptcha resp in
          if cURL c \<noteq> [] then
            (case powLoop E C token1 maxPoWRetries c 0 None h1 of
               (h2, PowSolved s) \<Rightarrow> step2Loop E C token1 n (Some s) token2 h2
             | (h2, PowToken t) \<Rightarrow> step2Loop E C token1 n sv t h2
             | (h2, PowGaveUp cur err) \<Rightarrow>
                 (case handOver E C token1 cur err h2 of
                    (h3, Inl e) \<Rightarrow> (h3, Inl e)
                  | (h3, Inr s) \<Rightarrow> step2Loop E C token1 n (Some s) token2 h3))
          else case fatalCallError resp of
            Some (code, msg) \<Rightarrow> (h1, Inl (CallUnavailable code msg))
          | None \<Rightarrow>
              (case extractStr resp [''response'', ''token''] of
                 Inl e \<Rightarrow> (h1, Inl (Failed (''step2 parse: '' @ e)))
               | Inr t \<Rightarrow> (h1, if t = [] then Inl (Failed ''step2: failed after 3 captcha attempts'') else Inr t)))"

text \<open>
  The last two requests, shared by both paths. The wording of their errors is shortened: it does not say
  in which way the list of addresses was unusable, and leaves out the response some messages quote.
\<close>

definition credsOf :: "string \<Rightarrow> jobj \<Rightarrow> vkErr + TURNCreds" where
  "credsOf pre resp =
     (case extractStr resp [''turn_server'', ''username''] of
        Inl e \<Rightarrow> Inl (Failed (pre @ '' parse username: '' @ e))
      | Inr user \<Rightarrow>
        (case extractStr resp [''turn_server'', ''credential''] of
           Inl e \<Rightarrow> Inl (Failed (pre @ '' parse credential: '' @ e))
         | Inr pass \<Rightarrow>
           (case parseTURNAddresses resp of
              [] \<Rightarrow> Inl (Failed (pre @ '': turn_server.urls empty''))
            | a # as \<Rightarrow> Inr \<lparr>Username = user, Password = pass, Address = a, Addresses = a # as\<rparr>)))"

definition loginAndJoin :: "vkEnv \<Rightarrow> string \<Rightarrow> string \<Rightarrow> fetchCtx \<Rightarrow> string \<Rightarrow> fetchReq list \<Rightarrow> fetchReq list \<times> (vkErr + TURNCreds)" where
  "loginAndJoin E pre3 pre4 C token2 h =
     (let h1 = h @ [ReqLogin (okDevice C)] in
      case post E h1 of
        Inl e \<Rightarrow> (h1, Inl (Failed (pre3 @ '': '' @ e)))
      | Inr resp \<Rightarrow>
        (case extractStr resp [''session_key''] of
           Inl e \<Rightarrow> (h1, Inl (Failed (pre3 @ '' parse: '' @ e)))
         | Inr token3 \<Rightarrow>
             let h2 = h1 @ [ReqJoin (linkID C) token2 token3] in
             (case post E h2 of
                Inl e \<Rightarrow> (h2, Inl (Failed (pre4 @ '': '' @ e)))
              | Inr resp4 \<Rightarrow> (h2, credsOf pre4 resp4))))"

definition getVKCredsWithClientID ::
  "vkEnv \<Rightarrow> fetchCtx \<Rightarrow> solved option \<Rightarrow> string \<Rightarrow> fetchReq list \<Rightarrow> fetchReq list \<times> (vkErr + TURNCreds)" where
  "getVKCredsWithClientID E C presolved savedToken1 h =
     (let first = (if savedToken1 \<noteq> [] then (h, Inr savedToken1)
           else let h1 = h @ [ReqToken1 (clientID C) (clientSecret C) (deviceID C)] in
                (h1, case post E h1 of Inl e \<Rightarrow> Inl (''step1: '' @ e)
                     | Inr resp \<Rightarrow> (case extractStr resp [''data'', ''access_token''] of
                         Inl e \<Rightarrow> Inl (''step1 parse: '' @ e) | Inr t \<Rightarrow> Inr t)))
      in case first of
           (h1, Inl e) \<Rightarrow> (h1, Inl (Failed e))
         | (h1, Inr token1) \<Rightarrow>
             let h2 = h1 @ [ReqPreview (linkID C) token1 (deviceID C) (clientID C)];
                 sv = (case presolved of None \<Rightarrow> None | Some s \<Rightarrow> if sToken s \<noteq> [] then Some s else None)
             in case step2Loop E C token1 3 sv [] h2 of
                  (h3, Inl e) \<Rightarrow> (h3, Inl e)
                | (h3, Inr token2) \<Rightarrow> loginAndJoin E ''step3'' ''step4'' C token2 h3)"

section \<open>The captcha-free path\<close>

definition vkCaptchaErr :: "captcha \<Rightarrow> vkErr" where
  "vkCaptchaErr c = CaptchaRequired \<lparr>ImageURL = cURL c, SID = cSID c, CaptchaTs = cTs c, CaptchaAttempt = cAttempt c,
     Token1 = [], ErrClientID = [], IsRateLimit = False\<rparr>"

text \<open>The checks both middle steps start with: a captcha, then a call that is gone.\<close>

definition gateOf :: "jobj \<Rightarrow> vkErr option" where
  "gateOf resp = (if cSID (extractCaptcha resp) \<noteq> [] then Some (vkCaptchaErr (extractCaptcha resp))
     else case fatalCallError resp of Some (code, msg) \<Rightarrow> Some (CallUnavailable code msg) | None \<Rightarrow> None)"

definition getVKCredsViaVKCallsPath :: "vkEnv \<Rightarrow> bool \<Rightarrow> fetchCtx \<Rightarrow> fetchReq list \<Rightarrow> fetchReq list \<times> (vkErr + TURNCreds)" where
  "getVKCredsViaVKCallsPath E skip C h =
     (if skip then (h, Inl (Failed ''vkcalls skipped (force legacy captcha for on-device test)''))
      else
        let h1 = h @ [ReqAnonym (linkID C) (deviceID C) (escapedName C)] in
        case post E h1 of Inl e \<Rightarrow> (h1, Inl (Failed (''vkcalls step1 (auth.getAnonymToken): '' @ e)))
        | Inr resp1 \<Rightarrow>
        (case extractStr resp1 [''response'', ''token''] of Inl e \<Rightarrow> (h1, Inl (Failed (''vkcalls step1 parse: '' @ e)))
        | Inr anonymToken \<Rightarrow>
          let h2 = h1 @ [ReqCallPreview anonymToken (deviceID C) (linkID C)] in
          (case post E h2 of Inl e \<Rightarrow> (h2, Inl (Failed (''vkcalls step2 (messages.getCallPreview): '' @ e)))
          | Inr resp2 \<Rightarrow>
          (case gateOf resp2 of Some e \<Rightarrow> (h2, Inl e)
          | None \<Rightarrow>
          (case extractFloat resp2 [''response'', ''user_id''] of Inl e \<Rightarrow> (h2, Inl (Failed (''vkcalls step2 parse user_id: '' @ e)))
          | Inr uid \<Rightarrow>
          (case extractStr resp2 [''response'', ''secret''] of Inl e \<Rightarrow> (h2, Inl (Failed (''vkcalls step2 parse secret: '' @ e)))
          | Inr secret \<Rightarrow>
            let h3 = h2 @ [ReqCallToken anonymToken (deviceID C) (linkID C) (escapedName C) (Sprintf_0f uid) secret] in
            (case post E h3 of Inl e \<Rightarrow> (h3, Inl (Failed (''vkcalls step3 (messages.getAnonymCallToken): '' @ e)))
            | Inr resp3 \<Rightarrow>
            (case gateOf resp3 of Some e \<Rightarrow> (h3, Inl e)
            | None \<Rightarrow>
            (case extractStr resp3 [''response'', ''token''] of Inl e \<Rightarrow> (h3, Inl (Failed (''vkcalls step3 parse: '' @ e)))
            | Inr okToken \<Rightarrow> loginAndJoin E ''vkcalls step4'' ''vkcalls step5'' C okToken h3)))))))))"

section \<open>Rotation and retries\<close>

definition vkCredentialsList :: "(string \<times> string) list" where
  "vkCredentialsList = [(''6287487'', ''MuAxFaKDYDOICzGnEOhp''), (''8202606'', ''lMRsTiMCyPnp5vfoldmn'')]"

definition maxNetworkRetries :: nat where "maxNetworkRetries = 12"

text \<open>
  One wave over the applications. \<open>fetch\<close> is a whole \<open>getVKCredsWithClientID\<close> for an application; the state it
  threads is everything that happened so far. The wave ends at a success, a captcha or a call that is
  gone; otherwise it says whether every failure was a network problem, and the last error.
\<close>

datatype 'r waveEnd = Stop 'r | Wave bool vkErr

fun wave :: "('s \<Rightarrow> string \<times> string \<Rightarrow> 's \<times> (vkErr + TURNCreds)) \<Rightarrow> 's \<Rightarrow> (string \<times> string) list \<Rightarrow> bool \<Rightarrow> vkErr
    \<Rightarrow> 's \<times> (vkErr + TURNCreds) waveEnd" where
  "wave fetch s [] allTransient lastErr = (s, Wave allTransient lastErr)"
| "wave fetch s (vc # vcs) allTransient lastErr =
     (case fetch s vc of
        (s1, Inr c) \<Rightarrow> (s1, Stop (Inr c))
      | (s1, Inl (CaptchaRequired e)) \<Rightarrow> (s1, Stop (Inl (CaptchaRequired e)))
      | (s1, Inl (CallUnavailable code msg)) \<Rightarrow> (s1, Stop (Inl (CallUnavailable code msg)))
      | (s1, Inl (Failed e)) \<Rightarrow>
          wave fetch s1 vcs (allTransient \<and> isTransientNetworkError (Some (errText (Failed e)))) (Failed e))"

definition allFailed :: "vkErr \<Rightarrow> vkErr" where
  "allFailed lastErr =
     Failed (''all '' @ Itoa (int (length vkCredentialsList)) @ '' client_ids failed, last error: '' @ errText lastErr)"

text \<open>The waves, by the number left; \<open>shuffle\<close> is the order the random generator gives to a wave.\<close>

fun waves :: "('s \<Rightarrow> string \<times> string \<Rightarrow> 's \<times> (vkErr + TURNCreds)) \<Rightarrow> ('s \<Rightarrow> (string \<times> string) list) \<Rightarrow> ('s \<Rightarrow> 's)
    \<Rightarrow> nat \<Rightarrow> vkErr \<Rightarrow> 's \<Rightarrow> 's \<times> (vkErr + TURNCreds)" where
  "waves fetch shuffle sleep 0 lastErr s = (s, Inl (allFailed lastErr))"
| "waves fetch shuffle sleep (Suc n) lastErr s =
     (case wave fetch s (shuffle s) True lastErr of
        (s1, Stop r) \<Rightarrow> (s1, r)
      | (s1, Wave allTransient e) \<Rightarrow>
          if \<not> allTransient then (s1, Inl (allFailed e))
          else waves fetch shuffle sleep n e (if n > 0 then sleep s1 else s1))"

text \<open>
  \<open>GetVKCreds\<close> without cookie authentication: the captcha-free path on a fresh fetch, then the waves, with
  the application pinned when a saved token belongs to one. \<open>Failed []\<close> stands for the error that was not
  set yet, which the first wave replaces.
\<close>

definition GetVKCreds ::
  "('s \<Rightarrow> 's \<times> (vkErr + TURNCreds)) \<Rightarrow> ('s \<Rightarrow> string \<times> string \<Rightarrow> 's \<times> (vkErr + TURNCreds))
    \<Rightarrow> ('s \<Rightarrow> (string \<times> string) list) \<Rightarrow> ('s \<Rightarrow> 's) \<Rightarrow> string \<Rightarrow> string \<Rightarrow> string \<Rightarrow> 's \<Rightarrow> 's \<times> (vkErr + TURNCreds)" where
  "GetVKCreds vkcalls fetch shuffle sleep savedToken1 solvedCaptchaSID savedClientID s =
     (let legacy = (\<lambda>s.
        if savedClientID \<noteq> [] then
          (case filter (\<lambda>vc. fst vc = savedClientID) vkCredentialsList of
             [] \<Rightarrow> (s, Inl (Failed (''savedClientID '' @ quote savedClientID @ '' not in vkCredentialsList'')))
           | vc # _ \<Rightarrow> waves fetch (\<lambda>_. [vc]) sleep maxNetworkRetries (Failed []) s)
        else waves fetch shuffle sleep maxNetworkRetries (Failed []) s)
      in if savedToken1 = [] \<and> solvedCaptchaSID = [] \<and> savedClientID = [] then
           (case vkcalls s of
              (s1, Inr c) \<Rightarrow> (s1, Inr c)
            | (s1, Inl (CallUnavailable code msg)) \<Rightarrow> (s1, Inl (CallUnavailable code msg))
            | (s1, Inl _) \<Rightarrow> legacy s1)
         else legacy s)"

end
