(* ===== verification/VkCookie.thy ===== *)
theory VkCookie
  imports VkFetch NetAddr
begin

text \<open>
  The logged-in path of \<open>creds_vkcookie.go\<close>: the conversation that mints a credential from a session
  cookie, the relays discovered over the configured call links and their slots, and \<open>fetchFreshCreds\<close> of
  \<open>proxy.go\<close>, which chooses between this path and the anonymous one. The servers and the clock are functions
  of the requests sent so far; every result carries the log of requests.
\<close>

section \<open>Call links\<close>

definition TrimRight :: "char \<Rightarrow> string \<Rightarrow> string" where
  "TrimRight c s = rev (dropWhile (\<lambda>d. d = c) (rev s))"

text \<open>What follows the last \<open>join/\<close>, or everything.\<close>

fun afterLast :: "string \<Rightarrow> string \<Rightarrow> string option" where
  "afterLast p [] = (if p = [] then Some [] else None)"
| "afterLast p (c # s) = (case afterLast p s of Some r \<Rightarrow> Some r
     | None \<Rightarrow> if HasPrefix (c # s) p then Some (drop (length p) (c # s)) else None)"

definition cookieLinkID :: "string \<Rightarrow> string" where
  "cookieLinkID s =
     (let ident = TrimSpace s;
          ident = (case afterLast ''join/'' ident of Some r \<Rightarrow> r | None \<Rightarrow> ident);
          ident = TrimRight (CHR ''/'') ident;
          before = takeWhile (\<lambda>c. c \<noteq> CHR ''?'' \<and> c \<noteq> CHR ''#'') ident
      in if before \<noteq> [] then before else ident)"

section \<open>State\<close>

text \<open>A relay address with the link that provides it, and the package's variables.\<close>

type_synonym cookieRelayRef = "string \<times> string"

record cookieState =
  authEnabled :: bool
  headerStore :: string
  linksStore :: "string list"
  authFatal :: string
  cookieCache :: "string \<rightharpoonup> TURNCreds"
  cookieRelayList :: "cookieRelayRef list"
  cookieRelaySeen :: "string \<Rightarrow> bool"
  cookieDiscoverIdx :: nat

definition cookieInit :: cookieState where
  "cookieInit = \<lparr>authEnabled = False, headerStore = [], linksStore = [], authFatal = [], cookieCache = Map.empty,
     cookieRelayList = [], cookieRelaySeen = (\<lambda>_. False), cookieDiscoverIdx = 0\<rparr>"

text \<open>Setting the atomic values, then clearing what was discovered under the mutex.\<close>

definition setCookieStores :: "bool \<Rightarrow> string \<Rightarrow> string list \<Rightarrow> cookieState \<Rightarrow> cookieState" where
  "setCookieStores enabled cookieHeader links st =
     st\<lparr>authEnabled := enabled, headerStore := TrimSpace cookieHeader, authFatal := [],
        linksStore := filter (\<lambda>l. l \<noteq> []) (map cookieLinkID links)\<rparr>"

definition clearDiscovery :: "cookieState \<Rightarrow> cookieState" where
  "clearDiscovery st = st\<lparr>cookieCache := Map.empty, cookieRelayList := [], cookieRelaySeen := (\<lambda>_. False), cookieDiscoverIdx := 0\<rparr>"

definition SetVKCookieAuth :: "bool \<Rightarrow> string \<Rightarrow> string list \<Rightarrow> cookieState \<Rightarrow> cookieState" where
  "SetVKCookieAuth enabled cookieHeader links st = clearDiscovery (setCookieStores enabled cookieHeader links st)"

definition setCookieAuthFatal :: "string \<Rightarrow> cookieState \<Rightarrow> cookieState" where
  "setCookieAuthFatal msg st = st\<lparr>authFatal := msg\<rparr>"

definition clearCookieAuthFatal :: "cookieState \<Rightarrow> cookieState" where
  "clearCookieAuthFatal st = st\<lparr>authFatal := []\<rparr>"

section \<open>The conversation\<close>

text \<open>The requests; the second field of the calls to \<open>api.vk.com\<close> is the bearer token.\<close>

datatype cookieReq =
    WebToken string
  | GetSettings string string
  | GetCallToken string string
  | AnonymLogin string string string string string
  | JoinConversation string string string string string

record cookieEnv =
  ckPost :: "cookieReq list \<Rightarrow> string + jobj"
  ckClock :: "cookieReq list \<Rightarrow> gotime"
  ckDevice :: "cookieReq list \<Rightarrow> string"

datatype ckErr = CookieRejected string | CookieFailed string

definition okAppKeyDefault :: string where "okAppKeyDefault = ''CGMMEJLGDIHBABABA''"

definition cookieRespStr :: "jobj \<Rightarrow> string list \<Rightarrow> string + string" where
  "cookieRespStr resp keys =
     (case walkKeys (JObj resp) keys of Inl e \<Rightarrow> Inl e
      | Inr cur \<Rightarrow> (case as_str cur of None \<Rightarrow> Inl (''expected string, got '' @ go_type cur) | Some s \<Rightarrow> Inr s))"

text \<open>The value with the error ignored: empty.\<close>

definition respStrOrEmpty :: "jobj \<Rightarrow> string list \<Rightarrow> string" where
  "respStrOrEmpty resp keys = (case cookieRespStr resp keys of Inl _ \<Rightarrow> [] | Inr s \<Rightarrow> s)"

definition errorCodeText :: "rat \<Rightarrow> string \<Rightarrow> string" where
  "errorCodeText code msg = ''error_code='' @ Sprintf_0f code @ '' '' @ msg"

definition cookieAPIError :: "jobj \<Rightarrow> string" where
  "cookieAPIError resp =
     (case as_obj (jget resp ''error'') of None \<Rightarrow> []
      | Some errObj \<Rightarrow>
        let code = num_or_zero (jget errObj ''error_code''); msg = str_or_empty (jget errObj ''error_msg'')
        in if code = 0 \<and> msg = [] then [] else errorCodeText code msg)"

definition cookieOKError :: "jobj \<Rightarrow> string" where
  "cookieOKError resp =
     (case as_num (jget resp ''error_code'') of None \<Rightarrow> []
      | Some code \<Rightarrow> if code = 0 then [] else errorCodeText code (str_or_empty (jget resp ''error_msg'')))"

text \<open>A request: a failed one is \<open>name: error\<close>, an answer that the check finds an error in too.\<close>

definition doForm :: "cookieEnv \<Rightarrow> string \<Rightarrow> (jobj \<Rightarrow> string) \<Rightarrow> cookieReq list \<Rightarrow> ckErr + jobj" where
  "doForm E name check h =
     (case ckPost E h of Inl e \<Rightarrow> Inl (CookieFailed (name @ '': '' @ e))
      | Inr resp \<Rightarrow> if check resp \<noteq> [] then Inl (CookieFailed (name @ '': '' @ check resp)) else Inr resp)"

definition settingsKey :: "jobj \<Rightarrow> string" where
  "settingsKey resp =
     (let a = respStrOrEmpty resp [''response'', ''settings'', ''public_key''] in
      if a \<noteq> [] then a
      else let b = respStrOrEmpty resp [''response'', ''public_key''] in if b \<noteq> [] then b else okAppKeyDefault)"

definition apiURL :: "string \<Rightarrow> string" where
  "apiURL base = (let u = TrimRight (CHR ''/'') base in if HasSuffix u ''/fb.do'' then u else u @ ''/fb.do'')"

definition joinCreds :: "jobj \<Rightarrow> ckErr + TURNCreds" where
  "joinCreds resp =
     (case cookieRespStr resp [''turn_server'', ''username''] of
        Inl _ \<Rightarrow> Inl (CookieFailed ''join: no turn_server.username'')
      | Inr user \<Rightarrow>
        (case cookieRespStr resp [''turn_server'', ''credential''] of
           Inl _ \<Rightarrow> Inl (CookieFailed ''join: no turn_server.credential'')
         | Inr pass \<Rightarrow>
           (case parseTURNAddresses resp of
              [] \<Rightarrow> Inl (CookieFailed ''join: turn_server.urls empty'')
            | a # as \<Rightarrow> Inr \<lparr>Username = user, Password = pass, Address = a, Addresses = a # as\<rparr>)))"

text \<open>
  The five steps. The quoted responses that some messages end with are left out of them.
\<close>

definition loginAndJoinCookie ::
  "cookieEnv \<Rightarrow> string \<Rightarrow> string \<Rightarrow> string \<Rightarrow> string \<Rightarrow> string \<Rightarrow> cookieReq list \<Rightarrow> cookieReq list \<times> (ckErr + TURNCreds)" where
  "loginAndJoinCookie E ck joinLink url appKey authToken h =
     (let h1 = h @ [AnonymLogin ck url appKey (ckDevice E h) authToken] in
      case doForm E ''auth.anonymLogin'' cookieOKError h1 of Inl e \<Rightarrow> (h1, Inl e)
      | Inr login \<Rightarrow>
      (case cookieRespStr login [''session_key''] of Inl _ \<Rightarrow> (h1, Inl (CookieFailed ''auth.anonymLogin: no session_key''))
      | Inr sessionKey \<Rightarrow>
        let h2 = h1 @ [JoinConversation ck url sessionKey appKey joinLink] in
        (case doForm E ''join'' cookieOKError h2 of Inl e \<Rightarrow> (h2, Inl e) | Inr join \<Rightarrow> (h2, joinCreds join))))"

definition getVKCredsViaCookies ::
  "cookieEnv \<Rightarrow> string \<Rightarrow> string \<Rightarrow> cookieReq list \<Rightarrow> cookieReq list \<times> (ckErr + TURNCreds)" where
  "getVKCredsViaCookies E linkIDArg cookieHeader h =
     (let ck = TrimSpace cookieHeader; joinLink = TrimSpace linkIDArg in
      if ck = [] then (h, Inl (CookieFailed ''empty cookie''))
      else if joinLink = [] then (h, Inl (CookieFailed ''empty join link''))
      else
        let h1 = h @ [WebToken ck] in
        case doForm E ''web_token'' (\<lambda>_. []) h1 of Inl e \<Rightarrow> (h1, Inl e)
        | Inr web \<Rightarrow>
        let vkToken = respStrOrEmpty web [''data'', ''access_token''] in
        if vkToken = [] then (h1, Inl (CookieRejected ''vk cookie rejected: web_token empty access_token''))
        else
          let h2 = h1 @ [GetSettings ck vkToken] in
          (case doForm E ''calls.getSettings'' cookieAPIError h2 of Inl e \<Rightarrow> (h2, Inl e)
          | Inr settings \<Rightarrow>
            let h3 = h2 @ [GetCallToken ck vkToken] in
            (case doForm E ''messages.getCallToken'' cookieAPIError h3 of Inl e \<Rightarrow> (h3, Inl e)
            | Inr callTok \<Rightarrow>
            (case cookieRespStr callTok [''response'', ''token''] of Inl _ \<Rightarrow> (h3, Inl (CookieFailed ''messages.getCallToken: no token''))
            | Inr authToken \<Rightarrow>
            (case cookieRespStr callTok [''response'', ''api_base_url''] of
               Inl _ \<Rightarrow> (h3, Inl (CookieFailed ''messages.getCallToken: no api_base_url''))
             | Inr base \<Rightarrow> loginAndJoinCookie E ck joinLink (apiURL base) (settingsKey settings) authToken h3)))))"

section \<open>Relays and slots\<close>

definition cookieCredStale :: "gotime \<Rightarrow> TURNCreds \<Rightarrow> bool" where
  "cookieCredStale now c = (case parseCredExpiry (Username c) of None \<Rightarrow> False | Some e \<Rightarrow> time_Sub e now < credExpiryBuffer)"

definition cookieMintCachedLocked ::
  "cookieEnv \<Rightarrow> string \<Rightarrow> string \<Rightarrow> cookieState \<times> cookieReq list \<Rightarrow> (cookieState \<times> cookieReq list) \<times> (ckErr + TURNCreds)" where
  "cookieMintCachedLocked E linkIDArg ch w =
     (case w of (st, h) \<Rightarrow>
        let mint = (case getVKCredsViaCookies E linkIDArg ch h of
              (h1, Inl e) \<Rightarrow> ((st, h1), Inl e)
            | (h1, Inr c) \<Rightarrow> ((st\<lparr>cookieCache := (cookieCache st)(linkIDArg \<mapsto> c)\<rparr>, h1), Inr c))
        in case cookieCache st linkIDArg of
             None \<Rightarrow> mint
           | Some c \<Rightarrow> if cookieCredStale (ckClock E h) c then mint else (w, Inr c))"

text \<open>The addresses of a mint that were not seen before join the list, in order.\<close>

definition addRelay :: "string \<Rightarrow> string \<Rightarrow> cookieState \<Rightarrow> cookieState" where
  "addRelay l a st = (if a \<noteq> [] \<and> \<not> cookieRelaySeen st a
     then st\<lparr>cookieRelaySeen := (cookieRelaySeen st)(a := True), cookieRelayList := cookieRelayList st @ [(a, l)]\<rparr> else st)"

fun addRelays :: "string \<Rightarrow> string list \<Rightarrow> cookieState \<Rightarrow> cookieState" where
  "addRelays l [] st = st"
| "addRelays l (a # as) st = addRelays l as (addRelay l a st)"

text \<open>The discovery loop, over the links from \<open>cookieDiscoverIdx\<close> on.\<close>

fun cookieDiscover ::
  "cookieEnv \<Rightarrow> string \<Rightarrow> nat \<Rightarrow> string list \<Rightarrow> cookieState \<times> cookieReq list \<Rightarrow> (cookieState \<times> cookieReq list) \<times> ckErr option" where
  "cookieDiscover E ch slot [] w = (w, None)"
| "cookieDiscover E ch slot (l # ls) w =
     (case w of (st, h) \<Rightarrow>
        if slot < length (cookieRelayList st) then (w, None)
        else case cookieMintCachedLocked E l ch (st\<lparr>cookieDiscoverIdx := Suc (cookieDiscoverIdx st)\<rparr>, h) of
          (w1, Inl e) \<Rightarrow> (w1, Some e)
        | ((st1, h1), Inr c) \<Rightarrow> cookieDiscover E ch slot ls (addRelays l (Addresses c) st1, h1))"

definition unfilledText :: "nat \<Rightarrow> nat \<Rightarrow> nat \<Rightarrow> string" where
  "unfilledText found nlinks slot = ''cookie auth: only '' @ Itoa (int found) @ '' distinct TURN relay(s) from ''
     @ Itoa (int nlinks) @ '' call link(s): slot '' @ Itoa (int slot) @ '' unfilled''"

text \<open>The part of a call that holds the mutex, with the header and the links read before it.\<close>

definition cookieCredLocked ::
  "cookieEnv \<Rightarrow> string \<Rightarrow> string list \<Rightarrow> int \<Rightarrow> cookieState \<times> cookieReq list \<Rightarrow> (cookieState \<times> cookieReq list) \<times> (ckErr + TURNCreds)" where
  "cookieCredLocked E ch links slotArg w =
     (if ch = [] then (w, Inl (CookieRejected ''no VK cookie stored: vk cookie rejected''))
      else if links = [] then (w, Inl (CookieFailed ''cookie auth: no call links configured''))
      else
        let slot = (if slotArg < 0 then 0 else nat slotArg) in
        case cookieDiscover E ch slot (drop (cookieDiscoverIdx (fst w)) links) w of
          (w1, Some e) \<Rightarrow> (w1, Inl e)
        | (w1, None) \<Rightarrow>
            if length (cookieRelayList (fst w1)) \<le> slot
            then (w1, Inl (CookieFailed (unfilledText (length (cookieRelayList (fst w1))) (length links) slot)))
            else
              let (address, l) = cookieRelayList (fst w1) ! slot in
              (case cookieMintCachedLocked E l ch w1 of
                 (w2, Inl e) \<Rightarrow> (w2, Inl e)
               | (w2, Inr c) \<Rightarrow> (w2, Inr \<lparr>Username = Username c, Password = Password c, Address = address, Addresses = [address]\<rparr>)))"

definition cookieCredForSlot ::
  "cookieEnv \<Rightarrow> int \<Rightarrow> cookieState \<times> cookieReq list \<Rightarrow> (cookieState \<times> cookieReq list) \<times> (ckErr + TURNCreds)" where
  "cookieCredForSlot E slot w = cookieCredLocked E (headerStore (fst w)) (linksStore (fst w)) slot w"

section \<open>A slot's fetch\<close>

text \<open>The latch the extension reads: set by a rejection, cleared by a success.\<close>

definition cookieFetch ::
  "cookieEnv \<Rightarrow> int \<Rightarrow> cookieState \<times> cookieReq list \<Rightarrow> (cookieState \<times> cookieReq list) \<times> (string + TURNCreds)" where
  "cookieFetch E slot w =
     (case cookieCredForSlot E slot w of
        ((st, h), Inl (CookieRejected m)) \<Rightarrow> ((setCookieAuthFatal m st, h), Inl (''cookie auth: '' @ m))
      | ((st, h), Inl (CookieFailed m)) \<Rightarrow> ((st, h), Inl (''cookie auth: '' @ m))
      | ((st, h), Inr c) \<Rightarrow> ((clearCookieAuthFatal st, h), Inr c))"

text \<open>The override of the TURN server on every address.\<close>

fun overrideAddrs :: "string \<Rightarrow> string \<Rightarrow> string list \<Rightarrow> string + string list" where
  "overrideAddrs turnServer turnPort [] = Inr []"
| "overrideAddrs turnServer turnPort (a # as) =
     (case SplitHostPort a of None \<Rightarrow> Inl (''parse TURN address '' @ quote a)
      | Some (h, p) \<Rightarrow>
        (case overrideAddrs turnServer turnPort as of Inl e \<Rightarrow> Inl e
         | Inr bs \<Rightarrow> Inr (JoinHostPort (if turnServer \<noteq> [] then turnServer else h) (if turnPort \<noteq> [] then turnPort else p) # bs)))"

definition withOverride :: "string \<Rightarrow> string \<Rightarrow> TURNCreds \<Rightarrow> string + (string \<times> TURNCreds)" where
  "withOverride turnServer turnPort c =
     (case overrideAddrs turnServer turnPort (Addresses c) of
        Inl e \<Rightarrow> Inl e
      | Inr [] \<Rightarrow> Inl ''index out of range''
      | Inr (a # as) \<Rightarrow> Inr (a, c\<lparr>Address := a, Addresses := a # as\<rparr>))"

text \<open>
  The solved captcha a fetch consumes: identifier, key and first token are cleared, time and attempt stay.
\<close>

record lastCaptcha =
  lcSID :: string
  lcKey :: string
  lcTs :: rat
  lcAttempt :: rat
  lcToken1 :: string

definition takeCaptcha :: "lastCaptcha \<Rightarrow> lastCaptcha" where
  "takeCaptcha lc = lc\<lparr>lcSID := [], lcKey := [], lcToken1 := []\<rparr>"

text \<open>
  \<open>fetchFreshCreds\<close>. The anonymous path is a function of the captcha consumed and of whether the fetch may ask
  the user (the solver is passed only then).
\<close>

definition fetchFreshCreds ::
  "cookieEnv \<Rightarrow> (bool \<Rightarrow> lastCaptcha \<Rightarrow> vkErr + TURNCreds) \<Rightarrow> string \<Rightarrow> string \<Rightarrow> bool \<Rightarrow> int
    \<Rightarrow> (cookieState \<times> cookieReq list) \<times> lastCaptcha \<Rightarrow> ((cookieState \<times> cookieReq list) \<times> lastCaptcha) \<times> (string + (string \<times> TURNCreds))" where
  "fetchFreshCreds E anon turnServer turnPort allowCaptchaBlock slot s =
     (case s of (w, lc) \<Rightarrow>
        if authEnabled (fst w) then
          (case cookieFetch E slot w of
             (w1, Inl e) \<Rightarrow> ((w1, lc), Inl e)
           | (w1, Inr c) \<Rightarrow> ((w1, lc), withOverride turnServer turnPort c))
        else
          (case anon allowCaptchaBlock lc of
             Inl e \<Rightarrow> ((w, takeCaptcha lc), Inl (''get VK creds: '' @ errText e))
           | Inr c \<Rightarrow> ((w, takeCaptcha lc), withOverride turnServer turnPort c)))"

end
