(* ===== verification/VkCookieProps.thy ===== *)
theory VkCookieProps
  imports VkCookie
begin

text \<open>
  The logged-in path: which relay a slot gets, in which cases it gets none, and what a conversation
  sends.
\<close>

section \<open>The relay list\<close>

abbreviation relaysOf :: "cookieState \<Rightarrow> string list" where
  "relaysOf st \<equiv> map fst (cookieRelayList st)"

definition relaysOK :: "cookieState \<Rightarrow> bool" where
  "relaysOK st \<longleftrightarrow> distinct (relaysOf st) \<and> [] \<notin> set (relaysOf st) \<and> (\<forall>a. cookieRelaySeen st a \<longleftrightarrow> a \<in> set (relaysOf st))"

text \<open>Keeping the first occurrence of every element.\<close>

definition firsts :: "'a list \<Rightarrow> 'a list" where
  "firsts xs = rev (remdups (rev xs))"

lemma firsts_nil [simp]: "firsts [] = []"
  by (simp add: firsts_def)

lemma firsts_snoc [simp]: "firsts (xs @ [a]) = (if a \<in> set xs then firsts xs else firsts xs @ [a])"
  by (simp add: firsts_def)

lemma set_firsts [simp]: "set (firsts xs) = set xs"
  by (simp add: firsts_def)

lemma relaysOK_init: "relaysOK (clearDiscovery st)"
  by (simp add: relaysOK_def clearDiscovery_def)

lemma addRelay_frame [frame_simps]:
  "cookieDiscoverIdx (addRelay l a st) = cookieDiscoverIdx st" "cookieCache (addRelay l a st) = cookieCache st"
  by (simp_all add: addRelay_def)

lemma addRelays_frame [frame_simps]:
  "cookieDiscoverIdx (addRelays l as st) = cookieDiscoverIdx st"
  "cookieCache (addRelays l as st) = cookieCache st"
  by (induction as arbitrary: st) (simp_all add: frame_simps)

lemma addRelay_OK: "relaysOK st \<Longrightarrow> relaysOK (addRelay l a st)"
  by (auto simp: relaysOK_def addRelay_def)

lemma addRelays_OK: "relaysOK st \<Longrightarrow> relaysOK (addRelays l as st)"
  by (induction as arbitrary: st) (simp_all add: addRelay_OK)

lemma addRelay_prefix: "prefix (cookieRelayList st) (cookieRelayList (addRelay l a st))"
  by (simp add: addRelay_def)

lemma addRelays_prefix: "prefix (cookieRelayList st) (cookieRelayList (addRelays l as st))"
  by (induction as arbitrary: st) (simp, metis addRelays.simps(2) addRelay_prefix prefix_order.trans)

lemma addRelay_links: "snd ` set (cookieRelayList (addRelay l a st)) \<subseteq> insert l (snd ` set (cookieRelayList st))"
  by (auto simp: addRelay_def)

lemma addRelays_links: "snd ` set (cookieRelayList (addRelays l as st)) \<subseteq> insert l (snd ` set (cookieRelayList st))"
proof (induction as arbitrary: st)
  case (Cons a as)
  show ?case unfolding addRelays.simps using Cons.IH [of "addRelay l a st"] addRelay_links [of l a st] by blast
qed auto

lemma addRelay_firsts:
  "relaysOK st \<Longrightarrow> relaysOf st = firsts xs \<Longrightarrow> relaysOf (addRelay l a st) = firsts (xs @ filter (\<lambda>a. a \<noteq> []) [a])"
  by (simp add: relaysOK_def addRelay_def)

lemma addRelays_firsts:
  "relaysOK st \<Longrightarrow> relaysOf st = firsts xs \<Longrightarrow> relaysOf (addRelays l as st) = firsts (xs @ filter (\<lambda>a. a \<noteq> []) as)"
proof (induction as arbitrary: st xs)
  case (Cons a as)
  from Cons.IH [OF addRelay_OK [OF Cons.prems(1)] addRelay_firsts [OF Cons.prems]] show ?case by simp
qed simp

section \<open>One mint and one call\<close>

text \<open>A mint leaves everything but the cache alone, and returns what it stored.\<close>

lemma mint_frame:
  assumes "cookieMintCachedLocked E l ch w = (w1, r)"
  shows "cookieRelayList (fst w1) = cookieRelayList (fst w) \<and> cookieRelaySeen (fst w1) = cookieRelaySeen (fst w)
    \<and> cookieDiscoverIdx (fst w1) = cookieDiscoverIdx (fst w)
    \<and> (\<forall>l'. l' \<noteq> l \<longrightarrow> cookieCache (fst w1) l' = cookieCache (fst w) l')
    \<and> (\<forall>c. r = Inr c \<longrightarrow> cookieCache (fst w1) l = Some c)
    \<and> (\<forall>e. r = Inl e \<longrightarrow> fst w1 = fst w)"
  using assms by (auto simp: cookieMintCachedLocked_def Let_def split: prod.splits sum.splits option.splits if_splits)

lemma mint_result:
  assumes "cookieMintCachedLocked E l ch (st, h) = (w1, r)"
  shows "(\<exists>c. r = Inr c \<and> cookieCache st l = Some c) \<or> r = snd (getVKCredsViaCookies E l ch h)"
  using assms by (auto simp: cookieMintCachedLocked_def Let_def split: prod.splits sum.splits option.splits if_splits)

lemma relaysOK_cong:
  "cookieRelayList st' = cookieRelayList st \<Longrightarrow> cookieRelaySeen st' = cookieRelaySeen st \<Longrightarrow> relaysOK st' = relaysOK st"
  by (simp add: relaysOK_def)

text \<open>One turn of the discovery loop, as the proofs use it.\<close>

lemma discover_cases:
  assumes "cookieDiscover E ch slot (l # ls) (st, h) = (w', e)"
  obtains (Enough) "slot < length (cookieRelayList st)" "w' = (st, h)" "e = None"
  | (Failed) err where "length (cookieRelayList st) \<le> slot"
      "cookieMintCachedLocked E l ch (st\<lparr>cookieDiscoverIdx := Suc (cookieDiscoverIdx st)\<rparr>, h) = (w', Inl err)" "e = Some err"
  | (More) st1 h1 c where "length (cookieRelayList st) \<le> slot"
      "cookieMintCachedLocked E l ch (st\<lparr>cookieDiscoverIdx := Suc (cookieDiscoverIdx st)\<rparr>, h) = ((st1, h1), Inr c)"
      "cookieDiscover E ch slot ls (addRelays l (Addresses c) st1, h1) = (w', e)"
  using assms by (auto split: if_splits prod.splits sum.splits)

lemma discover_keeps:
  assumes "cookieDiscover E ch slot ls w = (w', e)" "relaysOK (fst w)"
  shows "relaysOK (fst w') \<and> prefix (cookieRelayList (fst w)) (cookieRelayList (fst w'))"
  using assms
proof (induction ls arbitrary: w)
  case (Cons l ls)
  obtain st h where w: "w = (st, h)" by (cases w)
  from Cons.prems(1) [unfolded w] show ?case
  proof (cases rule: discover_cases)
    case Enough
    then show ?thesis using Cons.prems(2) w by simp
  next
    case (Failed err)
    then show ?thesis using mint_frame [OF Failed(2)] Cons.prems(2) w by (simp add: relaysOK_def)
  next
    case (More st1 h1 c)
    have m: "cookieRelayList st1 = cookieRelayList st" "cookieRelaySeen st1 = cookieRelaySeen st"
      using mint_frame [OF More(2)] by simp_all
    then have "relaysOK (addRelays l (Addresses c) st1)" using Cons.prems(2) w by (simp add: addRelays_OK relaysOK_cong [OF m])
    from Cons.IH [OF More(3)] this show ?thesis
      using addRelays_prefix [of st1 l "Addresses c"] m w prefix_order.trans by fastforce
  qed
qed simp

definition slotOf :: "int \<Rightarrow> nat" where "slotOf i = nat i"

lemma slotOf_clamp: "(if i < 0 then 0 else nat i) = slotOf i"
  by (simp add: slotOf_def)

text \<open>How one call can go, past the discovery.\<close>

lemma call_cases:
  assumes "cookieCredLocked E ch links i w = (w', r)"
  obtains (Refused) e where "ch = [] \<or> links = []" "w' = w" "r = Inl e"
  | (Discovery) e where "ch \<noteq> []" "links \<noteq> []"
      "cookieDiscover E ch (slotOf i) (drop (cookieDiscoverIdx (fst w)) links) w = (w', Some e)" "r = Inl e"
  | (Unfilled) "ch \<noteq> []" "links \<noteq> []"
      "cookieDiscover E ch (slotOf i) (drop (cookieDiscoverIdx (fst w)) links) w = (w', None)"
      "length (cookieRelayList (fst w')) \<le> slotOf i"
      "r = Inl (CookieFailed (unfilledText (length (cookieRelayList (fst w'))) (length links) (slotOf i)))"
  | (Found) w1 m where "ch \<noteq> []" "links \<noteq> []"
      "cookieDiscover E ch (slotOf i) (drop (cookieDiscoverIdx (fst w)) links) w = (w1, None)"
      "slotOf i < length (cookieRelayList (fst w1))"
      "cookieMintCachedLocked E (snd (cookieRelayList (fst w1) ! slotOf i)) ch w1 = (w', m)"
      "r = (case m of Inl e \<Rightarrow> Inl e | Inr c \<Rightarrow> Inr \<lparr>Username = Username c, Password = Password c,
             Address = relaysOf (fst w1) ! slotOf i, Addresses = [relaysOf (fst w1) ! slotOf i]\<rparr>)"
proof (cases "ch = [] \<or> links = []")
  case True
  then show thesis using assms Refused by (auto simp: cookieCredLocked_def split: if_splits)
next
  case False
  obtain w1 e where d: "cookieDiscover E ch (slotOf i) (drop (cookieDiscoverIdx (fst w)) links) w = (w1, e)" by fastforce
  note res = assms [unfolded cookieCredLocked_def Let_def slotOf_clamp d]
  show thesis
  proof (cases e)
    case (Some x)
    then show thesis using res False d Discovery by simp
  next
    case None
    show thesis
    proof (cases "length (cookieRelayList (fst w1)) \<le> slotOf i")
      case True
      then show thesis using res False d None Unfilled by auto
    next
      case less: False
      obtain a l where al: "cookieRelayList (fst w1) ! slotOf i = (a, l)" by (cases "cookieRelayList (fst w1) ! slotOf i")
      obtain w2 m where m: "cookieMintCachedLocked E l ch w1 = (w2, m)" by fastforce
      show thesis using res False d None less al m by (intro Found [of w1 m]) (auto split: sum.splits)
    qed
  qed
qed

lemma call_keeps:
  assumes "cookieCredLocked E ch links i w = (w', r)" "relaysOK (fst w)"
  shows "relaysOK (fst w') \<and> prefix (cookieRelayList (fst w)) (cookieRelayList (fst w'))
    \<and> (\<forall>c. r = Inr c \<longrightarrow> slotOf i < length (cookieRelayList (fst w')) \<and> Address c = relaysOf (fst w') ! slotOf i
         \<and> Addresses c = [Address c])"
  using assms(1)
proof (cases rule: call_cases)
  case (Refused e)
  then show ?thesis using assms(2) by simp
next
  case (Discovery e)
  then show ?thesis using discover_keeps [OF Discovery(3) assms(2)] by simp
next
  case Unfilled
  then show ?thesis using discover_keeps [OF Unfilled(3) assms(2)] by simp
next
  case (Found w1 m)
  have "cookieRelayList (fst w') = cookieRelayList (fst w1)" "relaysOK (fst w') = relaysOK (fst w1)"
    using mint_frame [OF Found(5)] by (simp_all add: relaysOK_def)
  then show ?thesis using discover_keeps [OF Found(3) assms(2)] Found(4,6) by (auto split: sum.splits)
qed

section \<open>Any sequence of calls\<close>

text \<open>Calls in the order in which they hold the mutex, each with the header and the links it read.\<close>

fun ckCalls :: "cookieEnv \<Rightarrow> (string \<times> string list \<times> int) list \<Rightarrow> cookieState \<times> cookieReq list
    \<Rightarrow> (cookieState \<times> cookieReq list) \<times> (int \<times> (ckErr + TURNCreds)) list" where
  "ckCalls E [] w = (w, [])"
| "ckCalls E ((ch, links, i) # cs) w =
     (case cookieCredLocked E ch links i w of (w1, r) \<Rightarrow>
      case ckCalls E cs w1 of (w2, rs) \<Rightarrow> (w2, (i, r) # rs))"

lemma calls_keep:
  assumes "ckCalls E cs w = (w', rs)" "relaysOK (fst w)"
  shows "relaysOK (fst w') \<and> prefix (cookieRelayList (fst w)) (cookieRelayList (fst w'))
    \<and> (\<forall>i c. (i, Inr c) \<in> set rs \<longrightarrow> slotOf i < length (cookieRelayList (fst w')) \<and> Address c = relaysOf (fst w') ! slotOf i
         \<and> Addresses c = [Address c])"
  using assms
proof (induction cs arbitrary: w rs)
  case (Cons x cs)
  obtain ch links i where x: "x = (ch, links, i)" by (cases x)
  obtain w1 r where c: "cookieCredLocked E ch links i w = (w1, r)" by fastforce
  obtain rs1 where n: "ckCalls E cs w1 = (w', rs1)" and rs: "rs = (i, r) # rs1"
    using Cons.prems(1) by (auto simp: x c split: prod.splits)
  note k = call_keeps [OF c Cons.prems(2)]
  note ih = Cons.IH [OF n conjunct1 [OF k]]
  have later: "slotOf i < length (cookieRelayList (fst w'))" "Address d = relaysOf (fst w') ! slotOf i" "Addresses d = [Address d]"
    if "r = Inr d" for d
  proof -
    obtain zs where zs: "cookieRelayList (fst w') = cookieRelayList (fst w1) @ zs" using ih by (auto simp: prefix_def)
    then show "slotOf i < length (cookieRelayList (fst w'))" "Address d = relaysOf (fst w') ! slotOf i" "Addresses d = [Address d]"
      using k that by (auto simp: nth_append)
  qed
  have "prefix (cookieRelayList (fst w)) (cookieRelayList (fst w'))" using k ih prefix_order.trans by blast
  moreover have "slotOf j < length (cookieRelayList (fst w')) \<and> Address d = relaysOf (fst w') ! slotOf j \<and> Addresses d = [Address d]"
    if "(j, Inr d) \<in> set rs" for j d
  proof (cases "(j, Inr d) \<in> set rs1")
    case True
    then show ?thesis using ih by blast
  next
    case False
    then have "j = i" "r = Inr d" using that rs by simp_all
    then show ?thesis using later by blast
  qed
  ultimately show ?case using ih by blast
qed simp

text \<open>
  C23. However calls for slots, each with a cookie and links of its own, follow each other after a
  configuration, and whatever the servers answer: a slot that gets a credential gets exactly one, non-empty
  relay address, every call for the same slot gets the same address, and two different slots never
  share one.
\<close>

theorem cookie_slots_never_share:
  assumes "(w', rs) = ckCalls E cs (SetVKCookieAuth enabled header links st, h)"
    and "(i, Inr c) \<in> set rs" "(j, Inr d) \<in> set rs"
  shows "Addresses c = [Address c] \<and> Address c \<noteq> [] \<and> (Address c = Address d \<longleftrightarrow> max 0 i = max 0 j)"
proof -
  have k: "relaysOK (fst w')" "slotOf i < length (cookieRelayList (fst w'))" "slotOf j < length (cookieRelayList (fst w'))"
    "Address c = relaysOf (fst w') ! slotOf i" "Address d = relaysOf (fst w') ! slotOf j" "Addresses c = [Address c]"
    using calls_keep [OF assms(1) [symmetric]] assms(2,3) by (auto simp: SetVKCookieAuth_def relaysOK_init)
  have "Address c \<in> set (relaysOf (fst w'))" using k(2,4) nth_mem [of "slotOf i" "relaysOf (fst w')"] by simp
  then have "Address c \<noteq> []" using k(1) by (metis relaysOK_def)
  moreover have "Address c = Address d \<longleftrightarrow> slotOf i = slotOf j"
    using k(1-5) nth_eq_iff_index_eq [of "relaysOf (fst w')" "slotOf i" "slotOf j"] by (simp add: relaysOK_def)
  ultimately show ?thesis using k(6) by (auto simp: slotOf_def max_def)
qed

section \<open>The reference: the distinct addresses of the links, in order\<close>

definition relayRef :: "(string \<Rightarrow> string list) \<Rightarrow> string list \<Rightarrow> string list" where
  "relayRef A links = firsts (filter (\<lambda>a. a \<noteq> []) (concat (map A links)))"

lemma relayRef_snoc: "relayRef A (ls @ [l]) = firsts (filter (\<lambda>a. a \<noteq> []) (concat (map A ls)) @ filter (\<lambda>a. a \<noteq> []) (A l))"
  by (simp add: relayRef_def)

text \<open>Every mint of a link works and gives that link's addresses.\<close>

definition mintsOK :: "cookieEnv \<Rightarrow> string \<Rightarrow> (string \<Rightarrow> string list) \<Rightarrow> string list \<Rightarrow> bool" where
  "mintsOK E ch A links \<longleftrightarrow> (\<forall>l \<in> set links. \<forall>h. \<exists>c. snd (getVKCredsViaCookies E l ch h) = Inr c \<and> Addresses c = A l)"

text \<open>The state after the first \<open>n\<close> links were asked.\<close>

definition discovered :: "(string \<Rightarrow> string list) \<Rightarrow> string list \<Rightarrow> cookieState \<Rightarrow> bool" where
  "discovered A links st \<longleftrightarrow> relaysOK st \<and> cookieDiscoverIdx st \<le> length links
     \<and> relaysOf st = relayRef A (take (cookieDiscoverIdx st) links)
     \<and> snd ` set (cookieRelayList st) \<subseteq> set links
     \<and> (\<forall>l c. cookieCache st l = Some c \<longrightarrow> Addresses c = A l)"

lemma mint_discovered:
  assumes "cookieMintCachedLocked E l ch (st, h) = (w1, r)" "mintsOK E ch A links" "l \<in> set links"
    and "\<forall>l c. cookieCache st l = Some c \<longrightarrow> Addresses c = A l"
  shows "\<exists>c. r = Inr c \<and> Addresses c = A l \<and> (\<forall>l c. cookieCache (fst w1) l = Some c \<longrightarrow> Addresses c = A l)"
proof -
  obtain m where "snd (getVKCredsViaCookies E l ch h) = Inr m" "Addresses m = A l"
    using assms(2,3) unfolding mintsOK_def by blast
  then obtain c where c: "r = Inr c" "Addresses c = A l" using mint_result [OF assms(1)] assms(4) by auto
  show ?thesis
  proof (intro exI [of _ c] conjI allI impI)
    fix l' c' assume "cookieCache (fst w1) l' = Some c'"
    then show "Addresses c' = A l'" using mint_frame [OF assms(1)] assms(4) c by (cases "l' = l") auto
  qed (rule c)+
qed

lemma discover_reference:
  assumes "cookieDiscover E ch slot (drop (cookieDiscoverIdx (fst w)) links) w = (w', e)"
    and "mintsOK E ch A links" "discovered A links (fst w)"
  shows "e = None \<and> discovered A links (fst w')
    \<and> (slot < length (cookieRelayList (fst w')) \<or> cookieDiscoverIdx (fst w') = length links)"
  using assms(1,3)
proof (induction "length links - cookieDiscoverIdx (fst w)" arbitrary: w)
  case 0
  then show ?case by (simp add: discovered_def)
next
  case (Suc n)
  obtain st h where w: "w = (st, h)" by (cases w)
  let ?i = "cookieDiscoverIdx st"
  have i: "?i < length links" using Suc.hyps(2) w by simp
  have d: "drop ?i links = links ! ?i # drop (Suc ?i) links" using i by (rule Cons_nth_drop_Suc [symmetric])
  have D: "discovered A links st" using Suc.prems(2) w by simp
  from Suc.prems(1) [unfolded w fst_conv d] show ?case
  proof (cases rule: discover_cases)
    case Enough
    then show ?thesis using D by simp
  next
    case (Failed err)
    have "\<forall>l c. cookieCache (st\<lparr>cookieDiscoverIdx := Suc ?i\<rparr>) l = Some c \<longrightarrow> Addresses c = A l"
      using D by (simp add: discovered_def)
    from mint_discovered [OF Failed(2) assms(2) nth_mem [OF i] this] show ?thesis by simp
  next
    case (More st1 h1 c)
    let ?st = "addRelays (links ! ?i) (Addresses c) st1"
    note f = mint_frame [OF More(2)]
    have "\<forall>l c. cookieCache (st\<lparr>cookieDiscoverIdx := Suc ?i\<rparr>) l = Some c \<longrightarrow> Addresses c = A l"
      using D by (simp add: discovered_def)
    from mint_discovered [OF More(2) assms(2) nth_mem [OF i] this]
    have c: "Addresses c = A (links ! ?i)" "\<forall>l c. cookieCache st1 l = Some c \<longrightarrow> Addresses c = A l" by simp_all
    have s: "relaysOK st1" "relaysOf st1 = firsts (filter (\<lambda>a. a \<noteq> []) (concat (map A (take ?i links))))" "cookieDiscoverIdx st1 = Suc ?i"
      "cookieRelayList st1 = cookieRelayList st"
      using f D relaysOK_cong [of st1 st] unfolding discovered_def relayRef_def by simp_all
    have "relaysOf ?st = relayRef A (take (Suc ?i) links)"
      using addRelays_firsts [OF s(1,2)] c(1) i by (simp add: relayRef_snoc take_Suc_conv_app_nth)
    moreover have "snd ` set (cookieRelayList ?st) \<subseteq> set links"
    proof (rule order.trans [OF addRelays_links])
      show "insert (links ! ?i) (snd ` set (cookieRelayList st1)) \<subseteq> set links"
        using D s(4) nth_mem [OF i] by (simp add: discovered_def)
    qed
    ultimately have "discovered A links ?st"
      using s(1,3) c(2) i addRelays_OK [OF s(1)] by (simp add: discovered_def frame_simps)
    moreover have "n = length links - cookieDiscoverIdx ?st" using Suc.hyps(2) w s(3) by (simp add: frame_simps)
    ultimately show ?thesis using Suc.hyps(1) [of "(?st, h1)"] More(3) s(3) by (simp add: frame_simps)
  qed
qed

lemma prefix_relayRef: "prefix (relayRef A (take n links)) (relayRef A links)"
proof (induction links rule: rev_induct)
  case (snoc l ls)
  have "prefix (firsts xs) (firsts (xs @ ys))" for xs ys :: "string list"
    by (induction ys rule: rev_induct) (simp_all flip: append_assoc)
  then have "prefix (relayRef A ls) (relayRef A (ls @ [l]))" by (simp add: relayRef_def)
  then show ?case using snoc by (cases "n \<le> length ls") (auto intro: prefix_order.trans)
qed simp

text \<open>What a call returns once the links can be asked.\<close>

definition slotResultOK :: "string list \<Rightarrow> nat \<Rightarrow> int \<Rightarrow> ckErr + TURNCreds \<Rightarrow> bool" where
  "slotResultOK R nlinks i r = (case r of
     Inr c \<Rightarrow> slotOf i < length R \<and> Address c = R ! slotOf i \<and> Addresses c = [Address c]
   | Inl e \<Rightarrow> length R \<le> slotOf i \<and> e = CookieFailed (unfilledText (length R) nlinks (slotOf i)))"

lemma call_reference:
  assumes "cookieCredLocked E ch links i w = (w', r)" "mintsOK E ch A links" "discovered A links (fst w)"
    and "ch \<noteq> []" "links \<noteq> []"
  shows "discovered A links (fst w') \<and> slotResultOK (relayRef A links) (length links) i r"
  using assms(1)
proof (cases rule: call_cases)
  case (Refused e)
  then show ?thesis using assms(4,5) by simp
next
  case (Discovery e)
  then show ?thesis using discover_reference [OF Discovery(3) assms(2,3)] by simp
next
  case Unfilled
  have k: "discovered A links (fst w')" "cookieDiscoverIdx (fst w') = length links"
    using discover_reference [OF Unfilled(3) assms(2,3)] Unfilled(4) by auto
  then have "relaysOf (fst w') = relayRef A links" by (simp add: discovered_def)
  then have "length (cookieRelayList (fst w')) = length (relayRef A links)" by (metis length_map)
  then show ?thesis using k(1) Unfilled(4,5) by (simp add: slotResultOK_def)
next
  case (Found w1 m)
  have D: "discovered A links (fst w1)" using discover_reference [OF Found(3) assms(2,3)] by simp
  obtain st1 h1 where w1: "w1 = (st1, h1)" by (cases w1)
  have "snd (cookieRelayList st1 ! slotOf i) \<in> set links"
    using D Found(4) w1 nth_mem [of "slotOf i" "cookieRelayList st1"] unfolding discovered_def by auto
  moreover have "\<forall>l c. cookieCache st1 l = Some c \<longrightarrow> Addresses c = A l" using D w1 by (simp add: discovered_def)
  ultimately obtain c where c: "m = Inr c" "\<forall>l c. cookieCache (fst w') l = Some c \<longrightarrow> Addresses c = A l"
    using mint_discovered [OF Found(5) [unfolded w1 fst_conv] assms(2)] by fastforce
  have f: "cookieRelayList (fst w') = cookieRelayList (fst w1)" "cookieRelaySeen (fst w') = cookieRelaySeen (fst w1)"
    "cookieDiscoverIdx (fst w') = cookieDiscoverIdx (fst w1)" using mint_frame [OF Found(5)] by simp_all
  have "prefix (relaysOf (fst w1)) (relayRef A links)" using D prefix_relayRef by (metis discovered_def)
  then obtain zs where zs: "relayRef A links = relaysOf (fst w1) @ zs" by (auto simp: prefix_def)
  have "discovered A links (fst w')" using D c(2) unfolding discovered_def f relaysOK_cong [OF f(1,2)] by blast
  then show ?thesis using Found(4,6) c(1) zs by (simp add: slotResultOK_def nth_append)
qed

lemma calls_reference:
  assumes "mintsOK E ch A links" "ch \<noteq> []" "links \<noteq> []" "discovered A links (fst w)"
    and "ckCalls E (map (\<lambda>i. (ch, links, i)) slots) w = (w', rs)"
  shows "map fst rs = slots \<and> (\<forall>(i, r) \<in> set rs. slotResultOK (relayRef A links) (length links) i r)"
  using assms(4,5)
proof (induction slots arbitrary: w rs)
  case (Cons i js)
  obtain w1 r where c: "cookieCredLocked E ch links i w = (w1, r)" by fastforce
  obtain rs1 where n: "ckCalls E (map (\<lambda>i. (ch, links, i)) js) w1 = (w', rs1)" and rs: "rs = (i, r) # rs1"
    using Cons.prems(2) by (auto simp: c split: prod.splits)
  note k = call_reference [OF c assms(1) Cons.prems(1) assms(2,3)]
  show ?case using Cons.IH [OF conjunct1 [OF k] n] k rs by simp
qed simp

text \<open>
  C24. The slots against the reference. After a configuration with some links, when every mint works, any
  sequence of calls serves slot \<open>s\<close> with the \<open>s\<close>-th of the distinct non-empty addresses of the links, in the
  order in which the links list them, however the calls are ordered; and a slot past the end is left
  unfilled, with the number of relays that exist in the error.
\<close>

theorem cookie_slots_reference:
  assumes "mintsOK E ch A (linksStore (SetVKCookieAuth enabled ch links st))"
    and "headerStore (SetVKCookieAuth enabled ch links st) = ch" "ch \<noteq> []" "linksStore (SetVKCookieAuth enabled ch links st) \<noteq> []"
  shows "let st1 = SetVKCookieAuth enabled ch links st; R = relayRef A (linksStore st1);
             rs = snd (ckCalls E (map (\<lambda>i. (ch, linksStore st1, i)) slots) (st1, h))
         in map fst rs = slots \<and> list_all (\<lambda>(i, r). slotResultOK R (length (linksStore st1)) i r) rs"
proof -
  let ?st = "SetVKCookieAuth enabled ch links st"
  have "discovered A (linksStore ?st) ?st"
    by (simp add: discovered_def SetVKCookieAuth_def relaysOK_init) (simp add: clearDiscovery_def relayRef_def)
  moreover obtain w' rs where c: "ckCalls E (map (\<lambda>i. (ch, linksStore ?st, i)) slots) (?st, h) = (w', rs)" by fastforce
  ultimately show ?thesis
    using calls_reference [OF assms(1,3,4) _ c] by (simp add: Let_def list_all_iff)
qed

section \<open>A server for the examples\<close>

definition exTurn :: "string list \<Rightarrow> json" where
  "exTurn urls = JObj [(''username'', JStr ''u''), (''credential'', JStr ''p''), (''urls'', JArr (map JStr urls))]"

text \<open>It answers by the last request; \<open>A\<close> is what a link's relays are.\<close>

fun exAnswer :: "(string \<Rightarrow> string list) \<Rightarrow> cookieReq \<Rightarrow> string + jobj" where
  "exAnswer A (WebToken _) = Inr [(''data'', JObj [(''access_token'', JStr ''t'')])]"
| "exAnswer A (GetSettings _ _) = Inr []"
| "exAnswer A (GetCallToken _ _) = Inr [(''response'', JObj [(''token'', JStr ''a''), (''api_base_url'', JStr ''u/'')])]"
| "exAnswer A (AnonymLogin _ _ _ _ _) = Inr [(''session_key'', JStr ''s'')]"
| "exAnswer A (JoinConversation _ _ _ _ l) = (if A l = [] then Inl ''timeout'' else Inr [(''turn_server'', exTurn (A l))])"

definition exEnv :: "(string \<Rightarrow> string list) \<Rightarrow> cookieEnv" where
  "exEnv A = \<lparr>ckPost = (\<lambda>h. exAnswer A (last h)), ckClock = (\<lambda>_. 0), ckDevice = (\<lambda>_. ''d'')\<rparr>"

definition exRequests :: "string \<Rightarrow> string \<Rightarrow> cookieReq list" where
  "exRequests ck l = [WebToken ck, GetSettings ck ''t'', GetCallToken ck ''t'', AnonymLogin ck ''u/fb.do'' okAppKeyDefault ''d'' ''a'',
     JoinConversation ck ''u/fb.do'' ''s'' okAppKeyDefault l]"

lemmas ex_simps = exEnv_def doForm_def respStrOrEmpty_def cookieRespStr_def cookieAPIError_def cookieOKError_def
  jget_def apiURL_def TrimRight_def HasSuffix_def settingsKey_def joinCreds_def parseTURNAddresses_def exTurn_def loginAndJoinCookie_def

lemma ex_mint:
  assumes "TrimSpace ck = ck" "ck \<noteq> []" "TrimSpace l = l" "l \<noteq> []"
  shows "getVKCredsViaCookies (exEnv A) l ck h = (h @ exRequests ck l,
    case map turnAddr (A l) of [] \<Rightarrow> Inl (CookieFailed ''join: timeout'')
      | a # as \<Rightarrow> Inr \<lparr>Username = ''u'', Password = ''p'', Address = a, Addresses = a # as\<rparr>)"
  using assms
  by (cases "A l") (simp_all add: getVKCredsViaCookies_def ex_simps exRequests_def map_filter_def o_def Let_def)

section \<open>A mint that fails once\<close>

lemma exhausted_call:
  assumes "cookieRelayList (fst w) = []" "length links \<le> cookieDiscoverIdx (fst w)" "ch \<noteq> []" "links \<noteq> []"
  shows "cookieCredLocked E ch links i w = (w, Inl (CookieFailed (unfilledText 0 (length links) (slotOf i))))"
  using assms by (simp add: cookieCredLocked_def slotOf_clamp)

lemma exhausted_calls:
  assumes "cookieRelayList (fst w) = []" "length links \<le> cookieDiscoverIdx (fst w)" "ch \<noteq> []" "links \<noteq> []"
  shows "ckCalls E (map (\<lambda>i. (ch, links, i)) is) w
    = (w, map (\<lambda>i. (i, Inl (CookieFailed (unfilledText 0 (length links) (slotOf i))))) is)"
  by (induction "is") (simp_all add: exhausted_call [OF assms])

text \<open>
  With one call link, a first mint that fails for whatever reason is final: the error of that mint is
  returned once, and until the next configuration every later call for any slot fails with the count of
  zero relays and sends no request at all.
\<close>

theorem cookie_failed_mint_is_final:
  assumes "linksStore (SetVKCookieAuth enabled ch links st) = [l]" "ch \<noteq> []"
    and "getVKCredsViaCookies E l ch h = (h1, Inl e)"
  shows "\<exists>st1. ckCalls E (map (\<lambda>i. (ch, [l], i)) (i # js)) (SetVKCookieAuth enabled ch links st, h)
    = ((st1, h1), (i, Inl e) # map (\<lambda>j. (j, Inl (CookieFailed (unfilledText 0 1 (slotOf j))))) js)"
proof -
  let ?st = "SetVKCookieAuth enabled ch links st"
  let ?st1 = "?st\<lparr>cookieDiscoverIdx := 1\<rparr>"
  have r: "cookieRelayList ?st = []" "cookieDiscoverIdx ?st = 0" "cookieCache ?st = Map.empty"
    by (simp_all add: SetVKCookieAuth_def clearDiscovery_def)
  have "cookieCredLocked E ch [l] i (?st, h) = ((?st1, h1), Inl e)"
    using assms(2,3) r by (simp add: cookieCredLocked_def cookieMintCachedLocked_def)
  then show ?thesis using exhausted_calls [of "(?st1, h1)" "[l]" ch E js] r assms(2) by auto
qed

section \<open>One conversation\<close>

text \<open>
  A conversation that reached the end: each request carries the cookie, and every token in it comes from the
  answer before.
\<close>

definition fullChain :: "cookieEnv \<Rightarrow> string \<Rightarrow> string \<Rightarrow> cookieReq list \<Rightarrow> cookieReq list \<Rightarrow> TURNCreds \<Rightarrow> bool" where
  "fullChain E ck joinLink h reqs c \<longleftrightarrow> (\<exists>web settings callTok login join t auth base key.
     (let url = apiURL base; app = settingsKey settings in
      reqs = [WebToken ck, GetSettings ck t, GetCallToken ck t, AnonymLogin ck url app (ckDevice E (h @ take 3 reqs)) auth,
        JoinConversation ck url key app joinLink])
     \<and> ckPost E (h @ take 1 reqs) = Inr web \<and> cookieRespStr web [''data'', ''access_token''] = Inr t \<and> t \<noteq> []
     \<and> ckPost E (h @ take 2 reqs) = Inr settings \<and> cookieAPIError settings = []
     \<and> ckPost E (h @ take 3 reqs) = Inr callTok \<and> cookieAPIError callTok = []
     \<and> cookieRespStr callTok [''response'', ''token''] = Inr auth \<and> cookieRespStr callTok [''response'', ''api_base_url''] = Inr base
     \<and> ckPost E (h @ take 4 reqs) = Inr login \<and> cookieOKError login = [] \<and> cookieRespStr login [''session_key''] = Inr key
     \<and> ckPost E (h @ reqs) = Inr join \<and> cookieOKError join = [] \<and> joinCreds join = Inr c)"

lemma doForm_Inr: "doForm E n check h = Inr resp \<longleftrightarrow> ckPost E h = Inr resp \<and> check resp = []"
  by (auto simp: doForm_def split: sum.splits)

lemma doForm_not_rejected [simp]: "doForm E n check h \<noteq> Inl (CookieRejected m)"
  by (auto simp: doForm_def split: sum.splits)

lemma joinCreds_Inr: "joinCreds resp = Inr c \<Longrightarrow> Addresses c \<noteq> [] \<and> Address c = hd (Addresses c)"
  by (auto simp: joinCreds_def split: sum.splits list.splits)

lemma joinCreds_not_rejected [simp]: "joinCreds resp \<noteq> Inl (CookieRejected m)"
  by (simp add: joinCreds_def split: sum.splits list.splits)

lemma login_outcome:
  assumes "loginAndJoinCookie E ck joinLink url app auth h = (h', r)"
  shows "\<exists>reqs. h' = h @ reqs \<and> 0 < length reqs \<and> length reqs \<le> 2 \<and> (\<forall>m. r \<noteq> Inl (CookieRejected m))
    \<and> (\<forall>c. r = Inr c \<longrightarrow> (\<exists>login join key.
          reqs = [AnonymLogin ck url app (ckDevice E h) auth, JoinConversation ck url key app joinLink]
        \<and> ckPost E (h @ take 1 reqs) = Inr login \<and> cookieOKError login = [] \<and> cookieRespStr login [''session_key''] = Inr key
        \<and> ckPost E (h @ reqs) = Inr join \<and> cookieOKError join = [] \<and> joinCreds join = Inr c))"
proof -
  let ?h1 = "h @ [AnonymLogin ck url app (ckDevice E h) auth]"
  show ?thesis
  proof (cases "doForm E ''auth.anonymLogin'' cookieOKError ?h1")
    case (Inl e)
    then show ?thesis using assms by (auto simp: loginAndJoinCookie_def)
  next
    case login: (Inr login)
    show ?thesis
    proof (cases "cookieRespStr login [''session_key'']")
      case (Inl e)
      then show ?thesis using assms login by (auto simp: loginAndJoinCookie_def)
    next
      case (Inr key)
      let ?h2 = "?h1 @ [JoinConversation ck url key app joinLink]"
      show ?thesis
      proof (cases "doForm E ''join'' cookieOKError ?h2")
        case (Inl e)
        then show ?thesis using assms login Inr by (auto simp: loginAndJoinCookie_def)
      next
        case join: (Inr join)
        then have "h' = ?h2" "r = joinCreds join" using assms login Inr by (simp_all add: loginAndJoinCookie_def)
        then show ?thesis using login join Inr by (simp add: doForm_Inr)
      qed
    qed
  qed
qed

text \<open>
  C25. A conversation for a cookie and a link sends at most five requests. It counts as a rejected cookie
  exactly when the web-token request was answered without a token, and then nothing else was sent. It
  yields a credential only after all five, each token taken from the answer before and the application key
  from the settings, with the first of its addresses as the address.
\<close>

theorem cookie_conversation:
  assumes "getVKCredsViaCookies E l ck h = (h', r)"
  shows "\<exists>reqs. h' = h @ reqs \<and> length reqs \<le> 5
    \<and> ((\<exists>m. r = Inl (CookieRejected m)) \<longleftrightarrow>
         (\<exists>web. reqs = [WebToken (TrimSpace ck)] \<and> ckPost E h' = Inr web \<and> respStrOrEmpty web [''data'', ''access_token''] = []))
    \<and> (\<forall>c. r = Inr c \<longrightarrow> fullChain E (TrimSpace ck) (TrimSpace l) h reqs c \<and> Addresses c \<noteq> [] \<and> Address c = hd (Addresses c))"
proof -
  define k where "k = TrimSpace ck"
  define j where "j = TrimSpace l"
  note res = assms [unfolded getVKCredsViaCookies_def Let_def k_def [symmetric] j_def [symmetric]]
  show ?thesis
  proof (cases "k = [] \<or> j = []")
    case True
    then show ?thesis using res by (auto simp: k_def [symmetric] split: if_splits)
  next
    case kj: False
    let ?h1 = "h @ [WebToken k]"
    show ?thesis
    proof (cases "doForm E ''web_token'' (\<lambda>_. []) ?h1")
      case (Inl e)
      then have "ckPost E ?h1 \<noteq> Inr web" for web by (auto simp: doForm_def)
      then show ?thesis using res kj Inl by (auto simp: k_def [symmetric])
    next
      case web: (Inr web)
      let ?t = "respStrOrEmpty web [''data'', ''access_token'']"
      have pw: "ckPost E ?h1 = Inr web" using web by (simp add: doForm_Inr)
      show ?thesis
      proof (cases "?t = []")
        case True
        then show ?thesis using res kj web pw by (auto simp: k_def [symmetric])
      next
        case t: False
        then have tt: "cookieRespStr web [''data'', ''access_token''] = Inr ?t" by (auto simp: respStrOrEmpty_def split: sum.splits)
        let ?h2 = "?h1 @ [GetSettings k ?t]" and ?h3 = "?h1 @ [GetSettings k ?t, GetCallToken k ?t]"
        have goal: ?thesis if "h' = ?h1 @ more" "more \<noteq> []" "length more \<le> 4" "\<forall>m. r \<noteq> Inl (CookieRejected m)"
          "\<forall>c. r = Inr c \<longrightarrow> fullChain E k j h (WebToken k # more) c" for more
          using that joinCreds_Inr
          by (intro exI [of _ "WebToken k # more"]) (auto simp: k_def [symmetric] j_def [symmetric] fullChain_def)
        show ?thesis
        proof (cases "doForm E ''calls.getSettings'' cookieAPIError ?h2")
          case (Inl e)
          then show ?thesis using res kj web t by (intro goal [of "[GetSettings k ?t]"]) auto
        next
          case settings: (Inr settings)
          note res3 = res [unfolded web sum.case]
          show ?thesis
          proof (cases "doForm E ''messages.getCallToken'' cookieAPIError ?h3")
            case (Inl e)
            then show ?thesis using res3 kj settings t by (intro goal [of "[GetSettings k ?t, GetCallToken k ?t]"]) auto
          next
            case callTok: (Inr callTok)
            show ?thesis
            proof (cases "(\<exists>e. cookieRespStr callTok [''response'', ''token''] = Inl e)
                \<or> (\<exists>e. cookieRespStr callTok [''response'', ''api_base_url''] = Inl e)")
              case True
              then show ?thesis using res3 kj settings callTok t
                by (intro goal [of "[GetSettings k ?t, GetCallToken k ?t]"]) (auto split: sum.splits)
            next
              case False
              then obtain auth base where ab: "cookieRespStr callTok [''response'', ''token''] = Inr auth"
                "cookieRespStr callTok [''response'', ''api_base_url''] = Inr base" by (meson sum.exhaust)
              then have "loginAndJoinCookie E k j (apiURL base) (settingsKey settings) auth ?h3 = (h', r)"
                using res3 kj settings callTok t by simp
              from login_outcome [OF this] obtain reqs where rq: "h' = ?h3 @ reqs" "0 < length reqs" "length reqs \<le> 2"
                "\<forall>m. r \<noteq> Inl (CookieRejected m)"
                "\<forall>c. r = Inr c \<longrightarrow> (\<exists>login join key.
                    reqs = [AnonymLogin k (apiURL base) (settingsKey settings) (ckDevice E ?h3) auth,
                      JoinConversation k (apiURL base) key (settingsKey settings) j]
                  \<and> ckPost E (?h3 @ take 1 reqs) = Inr login \<and> cookieOKError login = [] \<and> cookieRespStr login [''session_key''] = Inr key
                  \<and> ckPost E (?h3 @ reqs) = Inr join \<and> cookieOKError join = [] \<and> joinCreds join = Inr c)"
                by blast
              have "fullChain E k j h (WebToken k # [GetSettings k ?t, GetCallToken k ?t] @ reqs) c" if "r = Inr c" for c
                using rq(5) that pw tt t settings callTok ab
                by (elim allE [of _ c] impE exE conjE) (simp_all add: fullChain_def Let_def doForm_Inr)
              then show ?thesis using rq by (intro goal [of "[GetSettings k ?t, GetCallToken k ?t] @ reqs"]) simp_all
            qed
          qed
        qed
      qed
    qed
  qed
qed

section \<open>Examples\<close>

definition exRelays :: "string \<Rightarrow> string list" where
  "exRelays l = (if l = ''x'' then [''turn:r1:1?udp'', ''turn:r2:1''] else if l = ''y'' then [''turns:r2:1'', ''turn:r3:1''] else [])"

definition exCred :: "string \<Rightarrow> TURNCreds" where
  "exCred a = \<lparr>Username = ''u'', Password = ''p'', Address = a, Addresses = [a]\<rparr>"

lemma ex_config:
  "headerStore (SetVKCookieAuth True ''c'' [''https://vk.com/call/join/x?a=1'', ''y/''] cookieInit) = ''c''"
  "linksStore (SetVKCookieAuth True ''c'' [''https://vk.com/call/join/x?a=1'', ''y/''] cookieInit) = [''x'', ''y'']"
  "linksStore (SetVKCookieAuth True ''c'' [''z''] cookieInit) = [''z'']"
  by (simp_all add: SetVKCookieAuth_def clearDiscovery_def setCookieStores_def cookieLinkID_def TrimSpace_def TrimLeft_def
      is_space_def HasPrefix_def TrimRight_def)

lemma ex_trim: "TrimSpace ''c'' = ''c''" "TrimSpace ''x'' = ''x''" "TrimSpace ''y'' = ''y''" "TrimSpace ''z'' = ''z''"
  by (simp_all add: TrimSpace_def TrimLeft_def is_space_def)

lemma ex_mints:
  "snd (getVKCredsViaCookies (exEnv exRelays) ''x'' ''c'' h)
     = Inr \<lparr>Username = ''u'', Password = ''p'', Address = ''r1:1'', Addresses = [''r1:1'', ''r2:1'']\<rparr>"
  "snd (getVKCredsViaCookies (exEnv exRelays) ''y'' ''c'' h)
     = Inr \<lparr>Username = ''u'', Password = ''p'', Address = ''r2:1'', Addresses = [''r2:1'', ''r3:1'']\<rparr>"
  by (simp_all add: ex_mint ex_trim exRelays_def turnAddr_def TrimPrefix_def HasPrefix_def)

theorem cookie_slots_reference_witness:
  "list_all (\<lambda>(i, r). slotResultOK [''r1:1'', ''r2:1'', ''r3:1''] 2 i r)
     (snd (ckCalls (exEnv exRelays) (map (\<lambda>i. (''c'', [''x'', ''y''], i)) [2, 0, 3, -1, 1])
       (SetVKCookieAuth True ''c'' [''https://vk.com/call/join/x?a=1'', ''y/''] cookieInit, [])))"
proof -
  define A where "A l = (if l = ''x'' then [''r1:1'', ''r2:1''] else [''r2:1'', ''r3:1''])" for l :: string
  have "mintsOK (exEnv exRelays) ''c'' A [''x'', ''y'']" by (simp add: mintsOK_def ex_mints A_def)
  moreover have "relayRef A [''x'', ''y''] = [''r1:1'', ''r2:1'', ''r3:1'']" by (simp add: relayRef_def A_def firsts_def)
  ultimately show ?thesis
    using cookie_slots_reference [of "exEnv exRelays" "''c''" A True "[''https://vk.com/call/join/x?a=1'', ''y/'']" cookieInit "[2, 0, 3, -1, 1]" "[]"]
    by (simp only: ex_config Let_def) (simp add: eval_nat_numeral del: ckCalls.simps)
qed

lemma ex_calls:
  "snd (ckCalls (exEnv exRelays) [(''c'', [''x''], 0), (''c'', [''x'', ''y''], 1)] (SetVKCookieAuth True ''c'' [''x''] cookieInit, []))
     = [(0, Inr (exCred ''r1:1'')), (1, Inr (exCred ''r2:1''))]"
  by (simp add: cookieCredLocked_def cookieMintCachedLocked_def SetVKCookieAuth_def clearDiscovery_def setCookieStores_def
      ex_mint ex_trim exRelays_def turnAddr_def TrimPrefix_def HasPrefix_def addRelay_def cookieCredStale_def
      parseCredExpiry_def IndexByte_def exCred_def)

theorem cookie_slots_never_share_witness:
  "exCred ''r1:1'' \<noteq> exCred ''r2:1''
   \<and> snd (ckCalls (exEnv exRelays) [(''c'', [''x''], 0), (''c'', [''x'', ''y''], 1)] (SetVKCookieAuth True ''c'' [''x''] cookieInit, []))
     = [(0, Inr (exCred ''r1:1'')), (1, Inr (exCred ''r2:1''))]"
proof -
  obtain w' where w: "(w', [(0, Inr (exCred ''r1:1'')), (1, Inr (exCred ''r2:1''))])
      = ckCalls (exEnv exRelays) [(''c'', [''x''], 0), (''c'', [''x'', ''y''], 1)] (SetVKCookieAuth True ''c'' [''x''] cookieInit, [])"
    by (metis ex_calls prod.collapse)
  show ?thesis using cookie_slots_never_share [OF w, of 0 "exCred ''r1:1''" 1 "exCred ''r2:1''"] ex_calls by auto
qed

theorem cookie_failed_mint_is_final_witness:
  "\<exists>st1. ckCalls (exEnv exRelays) (map (\<lambda>i. (''c'', [''z''], i)) [0, 0, 1]) (SetVKCookieAuth True ''c'' [''z''] cookieInit, [])
    = ((st1, exRequests ''c'' ''z''), [(0, Inl (CookieFailed ''join: timeout'')),
        (0, Inl (CookieFailed (unfilledText 0 1 0))), (1, Inl (CookieFailed (unfilledText 0 1 1)))])"
proof -
  have "getVKCredsViaCookies (exEnv exRelays) ''z'' ''c'' [] = (exRequests ''c'' ''z'', Inl (CookieFailed ''join: timeout''))"
    by (simp add: ex_mint ex_trim exRelays_def)
  then show ?thesis
    using cookie_failed_mint_is_final [of True "''c''" "[''z'']" cookieInit "''z''" "exEnv exRelays" "[]"
        "exRequests ''c'' ''z''" "CookieFailed ''join: timeout''" 0 "[0, 1]"]
    by (simp add: ex_config slotOf_def)
qed

theorem cookie_conversation_witness:
  "fullChain (exEnv exRelays) ''c'' ''x'' [] (exRequests ''c'' ''x'')
     \<lparr>Username = ''u'', Password = ''p'', Address = ''r1:1'', Addresses = [''r1:1'', ''r2:1'']\<rparr>"
proof -
  let ?c = "\<lparr>Username = ''u'', Password = ''p'', Address = ''r1:1'', Addresses = [''r1:1'', ''r2:1'']\<rparr>"
  have "getVKCredsViaCookies (exEnv exRelays) ''x'' ''c'' [] = (exRequests ''c'' ''x'', Inr ?c)"
    by (simp add: ex_mint ex_trim exRelays_def turnAddr_def TrimPrefix_def HasPrefix_def)
  from cookie_conversation [OF this] show ?thesis unfolding ex_trim by simp
qed

end
