(* ===== verification/VkFetchProps.thy ===== *)
theory VkFetchProps
  imports VkFetch "HOL-Library.Multiset"
begin

text \<open>
  Properties of the anonymous path: a fetch ends after a bounded number of requests, the token it joins
  with was minted by VK in this fetch, a captcha that is handed to a person was not used up before, and
  the rotation over the applications stops where it must.
\<close>

section \<open>One fetch\<close>

text \<open>VK answered a token request of this fetch with the token.\<close>

definition minted :: "vkEnv \<Rightarrow> fetchCtx \<Rightarrow> string \<Rightarrow> fetchReq list \<Rightarrow> string \<Rightarrow> bool" where
  "minted E C token1 h t \<longleftrightarrow> (\<exists>h1 sv h2 resp. h = h1 @ [step2Req C token1 sv] @ h2
     \<and> post E (h1 @ [step2Req C token1 sv]) = Inr resp \<and> extractStr resp [''response'', ''token''] = Inr t)"

lemma minted_more: "minted E C token1 h t \<Longrightarrow> minted E C token1 (h @ k) t"
  unfolding minted_def by (metis append.assoc)

lemma minted_now:
  "post E (h @ [step2Req C token1 sv]) = Inr resp \<Longrightarrow> extractStr resp [''response'', ''token''] = Inr t
   \<Longrightarrow> minted E C token1 (h @ [step2Req C token1 sv]) t"
  unfolding minted_def by (intro exI [of _ h] exI [of _ sv] exI [of _ "[]"] exI [of _ resp]) simp

definition powOK :: "vkEnv \<Rightarrow> fetchCtx \<Rightarrow> string \<Rightarrow> fetchReq list \<Rightarrow> powEnd \<Rightarrow> bool" where
  "powOK E C token1 h r = (case r of PowSolved s \<Rightarrow> sToken s \<noteq> [] | PowToken t \<Rightarrow> minted E C token1 h t
     | PowGaveUp c _ \<Rightarrow> cURL c \<noteq> [])"

lemma powLoop_trace:
  assumes "powLoop E C token1 k cur e le h = (h', r)" "cURL cur \<noteq> []"
  shows "(\<exists>ext. h' = h @ ext \<and> length ext \<le> 2 * k) \<and> powOK E C token1 h' r"
  using assms
proof (induction k arbitrary: cur e le h)
  case 0
  then show ?case by (auto simp: powOK_def)
next
  case (Suc k)
  define h1 where "h1 = h @ [ReqPoW (cURL cur) (cSID cur)]"
  define h2 where "h2 = h1 @ [step2Req C token1 None]"
  obtain tok showType powErr where p: "pow E h1 = (tok, showType, powErr)" by (cases "pow E h1") auto
  define e' where "e' = (if showType = [] then Suc e else 0)"
  have ext: "\<exists>ext. h1 = h @ ext \<and> length ext \<le> 2 * Suc k" "\<exists>ext. h2 = h @ ext \<and> length ext \<le> 2 * Suc k"
    by (simp_all add: h1_def h2_def)
  consider "powErr = None \<and> tok \<noteq> []" | "\<not> (powErr = None \<and> tok \<noteq> [])" "e' \<ge> 2 \<or> k = 0"
    | "\<not> (powErr = None \<and> tok \<noteq> [])" "\<not> e' \<ge> 2" "k \<noteq> 0" by blast
  then show ?case
  proof cases
    case 1
    then have "(h', r) = (h1, PowSolved (mkSolved cur tok))" using Suc.prems(1) p by (simp add: h1_def)
    then show ?thesis using ext 1 by (simp add: powOK_def mkSolved_def)
  next
    case 2
    then have "(h', r) = (h1, PowGaveUp cur powErr)" using Suc.prems(1) p by (simp add: h1_def e'_def Let_def split: if_splits)
    then show ?thesis using ext Suc.prems(2) by (simp add: powOK_def)
  next
    case 3
    then have step: "(h', r) = (case post E h2 of Inl _ \<Rightarrow> (h2, PowGaveUp cur powErr)
      | Inr fresh \<Rightarrow> if cURL (extractCaptcha fresh) = [] then
          (case extractStr fresh [''response'', ''token''] of Inr t \<Rightarrow> (h2, PowToken t) | Inl _ \<Rightarrow> (h2, PowGaveUp cur powErr))
        else powLoop E C token1 k (extractCaptcha fresh) e' powErr h2)"
      using Suc.prems(1) 3
      unfolding powLoop.simps(2) Let_def h1_def [symmetric] p prod.case h2_def [symmetric] e'_def [symmetric] by simp
    show ?thesis
    proof (cases "post E h2")
      case (Inl x)
      then show ?thesis using step ext Suc.prems(2) by (simp add: powOK_def)
    next
      case (Inr fresh)
      show ?thesis
      proof (cases "cURL (extractCaptcha fresh) = []")
        case True
        show ?thesis
        proof (cases "extractStr fresh [''response'', ''token'']")
          case (Inl x)
          then show ?thesis using step Inr True ext Suc.prems(2) by (simp add: powOK_def \<open>post E h2 = Inr fresh\<close>)
        next
          case t: (Inr t)
          then have "minted E C token1 h2 t" using \<open>post E h2 = Inr fresh\<close> unfolding h2_def by (intro minted_now)
          then show ?thesis using step t True ext by (simp add: powOK_def \<open>post E h2 = Inr fresh\<close>)
        qed
      next
        case False
        then have "powLoop E C token1 k (extractCaptcha fresh) e' powErr h2 = (h', r)" using step Inr by simp
        from Suc.IH [OF this False] obtain ext' where "h' = h2 @ ext'" "length ext' \<le> 2 * k" "powOK E C token1 h' r" by blast
        then show ?thesis by (simp add: h2_def h1_def)
      qed
    qed
  qed
qed

text \<open>
  The captcha an error carries: the one of the last request, which nothing used since, when that request
  was answered with one.
\<close>

definition handedOver :: "vkEnv \<Rightarrow> fetchCtx \<Rightarrow> string \<Rightarrow> fetchReq list \<Rightarrow> captchaRequired \<Rightarrow> bool" where
  "handedOver E C token1 h c \<longleftrightarrow> ask E = None \<and> ImageURL c \<noteq> [] \<and> Token1 c = token1 \<and> ErrClientID c = clientID C
     \<and> (\<exists>h0. h = h0 @ [step2Req C token1 None]
          \<and> (\<forall>resp. post E h = Inr resp \<and> cURL (extractCaptcha resp) \<noteq> [] \<longrightarrow>
               ImageURL c = cURL (extractCaptcha resp) \<and> SID c = cSID (extractCaptcha resp)
               \<and> CaptchaTs c = cTs (extractCaptcha resp) \<and> CaptchaAttempt c = cAttempt (extractCaptcha resp)))"

lemma handOver_trace:
  assumes "handOver E C token1 cur le h = (h', r)" "cURL cur \<noteq> []"
  shows "(\<exists>ext. h' = h @ ext \<and> length ext \<le> 2)
    \<and> (case r of Inl (CaptchaRequired c) \<Rightarrow> handedOver E C token1 h' c | Inl (CallUnavailable _ _) \<Rightarrow> False | _ \<Rightarrow> ask E \<noteq> None)"
  using assms
  by (cases "ask E") (auto simp: handOver_def handedOver_def Let_def split: sum.splits if_splits)

definition fetchOK :: "vkEnv \<Rightarrow> fetchCtx \<Rightarrow> string \<Rightarrow> fetchReq list \<Rightarrow> vkErr + string \<Rightarrow> bool" where
  "fetchOK E C token1 h r = (case r of
     Inr t \<Rightarrow> t \<noteq> [] \<and> minted E C token1 h t
   | Inl (CaptchaRequired c) \<Rightarrow> handedOver E C token1 h c
   | Inl (CallUnavailable code msg) \<Rightarrow> (\<exists>resp. post E h = Inr resp \<and> fatalCallError resp = Some (code, msg))
   | Inl (Failed _) \<Rightarrow> True)"

lemma step2Loop_trace:
  assumes "step2Loop E C token1 n sv tok h = (h', r)" "tok = [] \<or> minted E C token1 h tok"
  shows "(\<exists>ext. h' = h @ ext \<and> length ext \<le> 9 * n) \<and> fetchOK E C token1 h' r"
  using assms
proof (induction n arbitrary: sv tok h)
  case 0
  then show ?case by (auto simp: fetchOK_def split: if_splits)
next
  case (Suc n)
  define h1 where "h1 = h @ [step2Req C token1 sv]"
  have e1: "\<exists>ext. h1 = h @ ext \<and> length ext \<le> 9 * Suc n" by (simp add: h1_def)
  have tok1: "tok = [] \<or> minted E C token1 h1 tok" using Suc.prems(2) by (auto simp: h1_def intro: minted_more)
  have longer: "(\<exists>ext. h' = h @ ext \<and> length ext \<le> 9 * Suc n) \<and> fetchOK E C token1 h' r"
    if "step2Loop E C token1 n sv' tok' (h1 @ g) = (h', r)" "length g \<le> 8" "tok' = [] \<or> minted E C token1 (h1 @ g) tok'"
    for sv' tok' g
    using Suc.IH [OF that(1,3)] that(2) by (auto simp: h1_def)
  show ?case
  proof (cases "post E h1")
    case (Inl x)
    then show ?thesis using Suc.prems(1) e1 by (auto simp: h1_def Let_def fetchOK_def)
  next
    case resp: (Inr resp)
    show ?thesis
    proof (cases "cURL (extractCaptcha resp) = []")
      case True
      then have "(h', r) = (h1, case fatalCallError resp of Some (code, msg) \<Rightarrow> Inl (CallUnavailable code msg)
          | None \<Rightarrow> (case extractStr resp [''response'', ''token''] of Inl e \<Rightarrow> Inl (Failed (''step2 parse: '' @ e))
            | Inr t \<Rightarrow> if t = [] then Inl (Failed ''step2: failed after 3 captcha attempts'') else Inr t))"
        using Suc.prems(1) [symmetric] resp
        by (cases "fatalCallError resp"; cases "extractStr resp [''response'', ''token'']") (auto simp: h1_def Let_def)
      then show ?thesis
        using e1 resp minted_now [of E h C token1 sv resp]
        by (auto simp: fetchOK_def h1_def split: option.splits sum.splits prod.splits)
    next
      case False
      obtain h2 p where p: "powLoop E C token1 maxPoWRetries (extractCaptcha resp) 0 None h1 = (h2, p)"
        by (cases "powLoop E C token1 maxPoWRetries (extractCaptcha resp) 0 None h1")
      from powLoop_trace [OF p False] obtain g where g: "h2 = h1 @ g" "length g \<le> 6" "powOK E C token1 h2 p"
        by (auto simp: maxPoWRetries_def)
      have tok2: "tok = [] \<or> minted E C token1 h2 tok" using tok1 minted_more g(1) by blast
      show ?thesis
      proof (cases p)
        case (PowSolved s)
        then have "step2Loop E C token1 n (Some s) tok h2 = (h', r)"
          using Suc.prems(1) resp False p by (simp add: h1_def Let_def)
        then show ?thesis using longer [of "Some s" tok g] g tok2 by simp
      next
        case (PowToken t)
        then have "step2Loop E C token1 n sv t h2 = (h', r)"
          using Suc.prems(1) resp False p by (simp add: h1_def Let_def)
        then show ?thesis using longer [of sv t g] g PowToken by (simp add: powOK_def)
      next
        case (PowGaveUp cur err)
        then have cur: "cURL cur \<noteq> []" using g(3) by (simp add: powOK_def)
        obtain h3 q where q: "handOver E C token1 cur err h2 = (h3, q)" by (cases "handOver E C token1 cur err h2")
        from handOver_trace [OF q cur] obtain g2 where g2: "h3 = h2 @ g2" "length g2 \<le> 2" by blast
        have tok3: "tok = [] \<or> minted E C token1 h3 tok" using tok2 minted_more g2(1) by blast
        show ?thesis
        proof (cases q)
          case (Inl x)
          then have "(h', r) = (h3, Inl x)" using Suc.prems(1) resp False p q PowGaveUp by (simp add: h1_def Let_def)
          then show ?thesis
            using handOver_trace [OF q cur] Inl g(1,2) g2 by (auto simp: fetchOK_def h1_def split: vkErr.splits)
        next
          case (Inr s)
          then have "step2Loop E C token1 n (Some s) tok h3 = (h', r)"
            using Suc.prems(1) resp False p q PowGaveUp by (simp add: h1_def Let_def)
          then show ?thesis using longer [of "Some s" tok "g @ g2"] g g2 tok3 by simp
        qed
      qed
    qed
  qed
qed

text \<open>What a successful fetch rests on: the last two requests and their answers.\<close>

definition joined :: "vkEnv \<Rightarrow> fetchCtx \<Rightarrow> string \<Rightarrow> fetchReq list \<Rightarrow> fetchReq list \<Rightarrow> TURNCreds \<Rightarrow> bool" where
  "joined E C token2 h0 h cr \<longleftrightarrow> (\<exists>token3 resp3 resp4.
     h = h0 @ [ReqLogin (okDevice C), ReqJoin (linkID C) token2 token3]
     \<and> post E (h0 @ [ReqLogin (okDevice C)]) = Inr resp3 \<and> extractStr resp3 [''session_key''] = Inr token3
     \<and> post E h = Inr resp4 \<and> extractStr resp4 [''turn_server'', ''username''] = Inr (Username cr)
     \<and> extractStr resp4 [''turn_server'', ''credential''] = Inr (Password cr)
     \<and> Addresses cr = parseTURNAddresses resp4 \<and> Addresses cr \<noteq> [] \<and> Address cr = hd (Addresses cr))"

lemma credsOf_success:
  "credsOf pre resp = Inr c \<Longrightarrow> extractStr resp [''turn_server'', ''username''] = Inr (Username c)
     \<and> extractStr resp [''turn_server'', ''credential''] = Inr (Password c)
     \<and> Addresses c = parseTURNAddresses resp \<and> Addresses c \<noteq> [] \<and> Address c = hd (Addresses c)"
  by (auto simp: credsOf_def split: sum.splits list.splits)

lemma credsOf_failed: "credsOf pre resp = Inl e \<Longrightarrow> \<exists>s. e = Failed s"
  by (auto simp: credsOf_def split: sum.splits list.splits)

lemma loginAndJoin_trace:
  assumes "loginAndJoin E p3 p4 C token2 h = (h', r)"
  shows "(\<exists>ext. h' = h @ ext \<and> length ext \<le> 2)
    \<and> (case r of Inr cr \<Rightarrow> joined E C token2 h h' cr | Inl e \<Rightarrow> \<exists>s. e = Failed s)"
proof -
  define h1 where "h1 = h @ [ReqLogin (okDevice C)]"
  note eq = assms [unfolded loginAndJoin_def Let_def, folded h1_def]
  show ?thesis
  proof (cases "post E h1")
    case (Inl e)
    then show ?thesis using eq by (auto simp: h1_def)
  next
    case r3: (Inr resp3)
    show ?thesis
    proof (cases "extractStr resp3 [''session_key'']")
      case (Inl e)
      then show ?thesis using eq r3 by (auto simp: h1_def)
    next
      case t3: (Inr token3)
      define h2 where "h2 = h1 @ [ReqJoin (linkID C) token2 token3]"
      show ?thesis
      proof (cases "post E h2")
        case (Inl e)
        then show ?thesis using eq r3 t3 by (auto simp: h1_def h2_def)
      next
        case r4: (Inr resp4)
        then have h': "h' = h2" and r: "r = credsOf p4 resp4" using eq r3 t3 by (simp_all add: h2_def)
        show ?thesis
        proof (cases "credsOf p4 resp4")
          case (Inl e)
          then show ?thesis using credsOf_failed h' r by (auto simp: h2_def h1_def)
        next
          case (Inr c)
          have "h2 = h @ [ReqLogin (okDevice C), ReqJoin (linkID C) token2 token3]" by (simp add: h2_def h1_def)
          then have "joined E C token2 h h2 c"
            using credsOf_success [OF Inr] r3 t3 r4 unfolding joined_def h1_def by blast
          then show ?thesis using Inr h' r by (simp add: h2_def h1_def)
        qed
      qed
    qed
  qed
qed

text \<open>
  C21. What one fetch does, whatever the servers, the proof of work and the person answer. It sends at most
  31 requests. Credentials are returned only when the conversation ended with a login and a join, and
  they are what the join was answered with; the token of the join was minted by VK in this fetch. A
  captcha is the error only when nobody can be asked: it carries the token and the application it
  belongs to, and it is the captcha of the very last request, which nothing tried to solve, whenever that
  request was answered with one. A call that is gone is reported with the code and text of VK.
\<close>

theorem vk_fetch_outcome:
  assumes "getVKCredsWithClientID E C presolved savedToken1 h = (h', r)"
  shows "(\<exists>ext. h' = h @ ext \<and> length ext \<le> 31)
    \<and> (case r of
         Inr cr \<Rightarrow> (\<exists>token1 token2 h0. joined E C token2 h0 h' cr \<and> token2 \<noteq> [] \<and> minted E C token1 h0 token2
           \<and> (savedToken1 \<noteq> [] \<longrightarrow> token1 = savedToken1))
       | Inl (CaptchaRequired c) \<Rightarrow> (\<exists>token1. handedOver E C token1 h' c \<and> (savedToken1 \<noteq> [] \<longrightarrow> token1 = savedToken1))
       | Inl (CallUnavailable code msg) \<Rightarrow> (\<exists>resp. post E h' = Inr resp \<and> fatalCallError resp = Some (code, msg))
       | Inl (Failed _) \<Rightarrow> True)"
proof -
  define first where "first = (if savedToken1 \<noteq> [] then (h, Inr savedToken1)
           else let h1 = h @ [ReqToken1 (clientID C) (clientSecret C) (deviceID C)] in
                (h1, case post E h1 of Inl e \<Rightarrow> Inl (''step1: '' @ e)
                     | Inr resp \<Rightarrow> (case extractStr resp [''data'', ''access_token''] of
                         Inl e \<Rightarrow> Inl (''step1 parse: '' @ e) | Inr t \<Rightarrow> Inr t)))"
  obtain h1 f where f: "first = (h1, f)" by (cases first)
  have h1: "\<exists>ext. h1 = h @ ext \<and> length ext \<le> 1" "savedToken1 \<noteq> [] \<Longrightarrow> f = Inr savedToken1"
    using f by (auto simp: first_def Let_def split: if_splits)
  note eq = assms [unfolded getVKCredsWithClientID_def Let_def, folded first_def [unfolded Let_def], unfolded f prod.case]
  show ?thesis
  proof (cases f)
    case (Inl e)
    then have "h' = h1" "r = Inl (Failed e)" using eq by simp_all
    then show ?thesis using h1(1) by auto
  next
    case (Inr token1)
    define h2 where "h2 = h1 @ [ReqPreview (linkID C) token1 (deviceID C) (clientID C)]"
    define sv where "sv = (case presolved of None \<Rightarrow> None | Some s \<Rightarrow> if sToken s \<noteq> [] then Some s else None)"
    have saved: "savedToken1 \<noteq> [] \<Longrightarrow> token1 = savedToken1" using h1(2) Inr by simp
    obtain h3 q where q: "step2Loop E C token1 3 sv [] h2 = (h3, q)" by (cases "step2Loop E C token1 3 sv [] h2")
    from step2Loop_trace [OF q] obtain g where g: "h3 = h2 @ g" "length g \<le> 27" and ok: "fetchOK E C token1 h3 q" by auto
    have eq2: "(case q of Inl e \<Rightarrow> (h3, Inl e) | Inr token2 \<Rightarrow> loginAndJoin E ''step3'' ''step4'' C token2 h3) = (h', r)"
      using eq q by (cases q) (simp_all add: Inr h2_def sv_def)
    obtain g0 where g0: "h3 = h @ g0" "length g0 \<le> 29" using g h1(1) by (auto simp: h2_def)
    show ?thesis
    proof (cases q)
      case (Inl e)
      then have "h' = h3" "r = Inl e" using eq2 by simp_all
      then show ?thesis using ok Inl saved g0 by (auto simp: fetchOK_def split: vkErr.splits)
    next
      case (Inr token2)
      then have j: "loginAndJoin E ''step3'' ''step4'' C token2 h3 = (h', r)" using eq2 by simp
      have "token2 \<noteq> []" "minted E C token1 h3 token2" using ok Inr by (simp_all add: fetchOK_def)
      then show ?thesis using loginAndJoin_trace [OF j] saved g0 by (auto split: sum.splits vkErr.splits)
    qed
  qed
qed

text \<open>Servers that mint at once, and servers that only ever show a captcha.\<close>

definition demoCtx :: fetchCtx where
  "demoCtx = \<lparr>linkID = ''L'', escapedName = ''N'', deviceID = ''D'', okDevice = ''O'', clientID = ''6287487'', clientSecret = ''S''\<rparr>"

definition demoPost :: "fetchReq list \<Rightarrow> string + jobj" where
  "demoPost h = (case last h of
     ReqToken1 _ _ _ \<Rightarrow> Inr [(''data'', JObj [(''access_token'', JStr ''t1'')])]
   | ReqToken2 _ _ _ _ _ _ \<Rightarrow> Inr [(''response'', JObj [(''token'', JStr ''t2'')])]
   | ReqLogin _ \<Rightarrow> Inr [(''session_key'', JStr ''t3'')]
   | ReqJoin _ _ _ \<Rightarrow> Inr [(''turn_server'', JObj [(''username'', JStr ''u''), (''credential'', JStr ''p''),
       (''urls'', JArr [JNull, JStr ''turn:1.2.3.4:19302?transport=udp''])])]
   | _ \<Rightarrow> Inr [])"

definition captchaPost :: "fetchReq list \<Rightarrow> string + jobj" where
  "captchaPost h = (case last h of
     ReqToken1 _ _ _ \<Rightarrow> Inr [(''data'', JObj [(''access_token'', JStr ''t1'')])]
   | _ \<Rightarrow> Inr [(''error'', JObj [(''error_code'', JNum 14), (''redirect_uri'', JStr ''https://id.vk.ru/c'')])])"

theorem vk_fetch_outcome_witness:
  "(case getVKCredsWithClientID \<lparr>post = demoPost, pow = (\<lambda>_. ([], [], None)), ask = None\<rparr> demoCtx None [] [] of
      (h', r) \<Rightarrow> (\<exists>cr. r = Inr cr \<and> Address cr = hd (Addresses cr)) \<and> length h' \<le> 31)
   \<and> (case getVKCredsWithClientID \<lparr>post = captchaPost, pow = (\<lambda>_. ([], [], None)), ask = None\<rparr> demoCtx None [] [] of
      (h', r) \<Rightarrow> (\<exists>c. r = Inl (CaptchaRequired c) \<and> Token1 c = ''t1'' \<and> ErrClientID c = ''6287487'') \<and> length h' \<le> 31)"
proof -
  let ?E = "\<lparr>post = demoPost, pow = (\<lambda>_. ([], [], None)), ask = None\<rparr>"
  let ?F = "\<lparr>post = captchaPost, pow = (\<lambda>_. ([], [], None)), ask = None\<rparr>"
  obtain h r where g: "getVKCredsWithClientID ?E demoCtx None [] [] = (h, r)" by fastforce
  have "\<exists>cr. snd (getVKCredsWithClientID ?E demoCtx None [] []) = Inr cr"
    by (simp add: getVKCredsWithClientID_def loginAndJoin_def credsOf_def demoPost_def demoCtx_def extractStr_def jget_def
        step2Req_def extractCaptcha_def noCaptcha_def fatalCallError_def numeral_3_eq_3 parseTURNAddresses_def
        List.map_filter_simps)
  then obtain cr where "r = Inr cr" using g by auto
  moreover have "length h \<le> 31" "\<exists>token1 token2 h0. joined ?E demoCtx token2 h0 h cr"
    using vk_fetch_outcome [OF g] \<open>r = Inr cr\<close> by auto
  ultimately have 1: "\<exists>cr. r = Inr cr \<and> Address cr = hd (Addresses cr)" "length h \<le> 31" by (auto simp: joined_def)
  obtain k q where f: "getVKCredsWithClientID ?F demoCtx None [] [] = (k, q)" by fastforce
  have "\<exists>c. snd (getVKCredsWithClientID ?F demoCtx None [] []) = Inl (CaptchaRequired c) \<and> Token1 c = ''t1''"
    by (simp add: getVKCredsWithClientID_def captchaPost_def demoCtx_def extractStr_def jget_def step2Req_def
        extractCaptcha_def num_or_zero_def str_or_empty_def numeral_3_eq_3 maxPoWRetries_def handOver_def Let_def)
  then obtain c where c: "q = Inl (CaptchaRequired c)" "Token1 c = ''t1''" using f by auto
  then have "\<exists>token1. handedOver ?F demoCtx token1 k c" "length k \<le> 31" using vk_fetch_outcome [OF f] by auto
  then have 2: "ErrClientID c = ''6287487''" "length k \<le> 31" by (auto simp: handedOver_def demoCtx_def)
  show ?thesis using 1 2 c by (auto simp: g f)
qed

section \<open>The rotation\<close>

text \<open>What the rotation does, as a log of the fetches it starts and the pauses it takes.\<close>

datatype rotEvent = Tried "string \<times> string" | Slept

definition logged :: "(rotEvent list \<Rightarrow> string \<times> string \<Rightarrow> vkErr + TURNCreds) \<Rightarrow> rotEvent list \<Rightarrow> string \<times> string
    \<Rightarrow> rotEvent list \<times> (vkErr + TURNCreds)" where
  "logged f l vc = (l @ [Tried vc], f l vc)"

definition slept :: "rotEvent list \<Rightarrow> rotEvent list" where "slept l = l @ [Slept]"

fun final :: "vkErr + TURNCreds \<Rightarrow> bool" where
  "final (Inl (Failed _)) = False"
| "final _ = True"

definition transient :: "vkErr + TURNCreds \<Rightarrow> bool" where
  "transient r = (case r of Inl e \<Rightarrow> isTransientNetworkError (Some (errText e)) | Inr _ \<Rightarrow> False)"

text \<open>The results of the first \<open>k\<close> fetches of a wave that starts with the log \<open>l\<close>.\<close>

abbreviation resultAt where "resultAt f l vcs k \<equiv> f (l @ map Tried (take k vcs)) (vcs ! k)"

lemma wave_trace:
  assumes "wave (logged f) l vcs b le = (l', r)"
  shows "(\<exists>k < length vcs. l' = l @ map Tried (take (Suc k) vcs) \<and> r = Stop (resultAt f l vcs k)
            \<and> final (resultAt f l vcs k) \<and> (\<forall>j < k. \<not> final (resultAt f l vcs j)))
    \<or> (l' = l @ map Tried vcs \<and> (\<forall>j < length vcs. \<not> final (resultAt f l vcs j))
         \<and> r = Wave (b \<and> (\<forall>j < length vcs. transient (resultAt f l vcs j)))
               (if vcs = [] then le else projl (resultAt f l vcs (length vcs - 1))))"
  using assms
proof (induction vcs arbitrary: l b le)
  case Nil
  then show ?case by auto
next
  case (Cons vc vcs)
  show ?case
  proof (cases "final (f l vc)")
    case True
    then have "(l', r) = (l @ [Tried vc], Stop (f l vc))"
      using Cons.prems by (cases "f l vc" rule: final.cases) (simp_all add: logged_def)
    then show ?thesis using True by (intro disjI1 exI [of _ 0]) simp
  next
    case False
    then obtain e where e: "f l vc = Inl (Failed e)" by (cases "f l vc" rule: final.cases) simp_all
    then have w: "wave (logged f) (l @ [Tried vc]) vcs (b \<and> transient (f l vc)) (Failed e) = (l', r)"
      using Cons.prems by (simp add: logged_def [abs_def] transient_def)
    have sh: "resultAt f l (vc # vcs) (Suc j) = resultAt f (l @ [Tried vc]) vcs j" for j by simp
    from Cons.IH [OF w] show ?thesis
    proof (elim disjE exE conjE)
      fix k assume k: "k < length vcs" "l' = (l @ [Tried vc]) @ map Tried (take (Suc k) vcs)"
        "r = Stop (resultAt f (l @ [Tried vc]) vcs k)" "final (resultAt f (l @ [Tried vc]) vcs k)"
        "\<forall>j < k. \<not> final (resultAt f (l @ [Tried vc]) vcs j)"
      have "\<not> final (resultAt f l (vc # vcs) j)" if "j < Suc k" for j
        using that k(5) False sh by (cases j) auto
      then show ?thesis using k sh by (intro disjI1 exI [of _ "Suc k"]) simp
    next
      assume k: "l' = (l @ [Tried vc]) @ map Tried vcs" "\<forall>j < length vcs. \<not> final (resultAt f (l @ [Tried vc]) vcs j)"
        "r = Wave ((b \<and> transient (f l vc)) \<and> (\<forall>j < length vcs. transient (resultAt f (l @ [Tried vc]) vcs j)))
           (if vcs = [] then Failed e else projl (resultAt f (l @ [Tried vc]) vcs (length vcs - 1)))"
      have nf: "\<not> final (resultAt f l (vc # vcs) j)" if "j < length (vc # vcs)" for j
        using that k(2) False sh by (cases j) auto
      have tr: "(\<forall>j < length (vc # vcs). transient (resultAt f l (vc # vcs) j)) \<longleftrightarrow>
          transient (f l vc) \<and> (\<forall>j < length vcs. transient (resultAt f (l @ [Tried vc]) vcs j))"
        using sh by (auto simp: less_Suc_eq_0_disj)
      have "projl (resultAt f l (vc # vcs) (length (vc # vcs) - 1)) =
          (if vcs = [] then Failed e else projl (resultAt f (l @ [Tried vc]) vcs (length vcs - 1)))"
        using e sh [of "length vcs - 1"] by (cases vcs) auto
      then show ?thesis using k(1,3) nf tr by (intro disjI2) (simp add: conj_ac)
    qed
  qed
qed

text \<open>
  A log of the rotation that starts after \<open>l\<close> and ends with the result \<open>r\<close>: a fetch with a final result is the
  last one and gives the result; a pause follows a fetch that failed with a network problem.
\<close>

definition rotOK :: "(rotEvent list \<Rightarrow> string \<times> string \<Rightarrow> vkErr + TURNCreds) \<Rightarrow> rotEvent list \<Rightarrow> rotEvent list \<Rightarrow> vkErr + TURNCreds \<Rightarrow> bool" where
  "rotOK f l ext r \<longleftrightarrow> (\<forall>i < length ext. case ext ! i of
       Tried vc \<Rightarrow> final (f (l @ take i ext) vc) \<longrightarrow> Suc i = length ext \<and> r = f (l @ take i ext) vc
     | Slept \<Rightarrow> 0 < i \<and> (\<exists>vc. ext ! (i - 1) = Tried vc \<and> transient (f (l @ take (i - 1) ext) vc)))"

lemma rotOK_wave:
  assumes "\<forall>j < length vcs. \<not> final (resultAt f l vcs j)"
  shows "rotOK f l (map Tried vcs) r"
  using assms by (auto simp: rotOK_def take_map)

lemma rotOK_more:
  assumes "\<forall>j < length vcs. \<not> final (resultAt f l vcs j)" "vcs \<noteq> []" "transient (resultAt f l vcs (length vcs - 1))"
    and "rotOK f (l @ map Tried vcs @ [Slept]) ext r"
  shows "rotOK f l (map Tried vcs @ Slept # ext) r"
  unfolding rotOK_def
proof (intro allI impI)
  fix i assume i: "i < length (map Tried vcs @ Slept # ext)"
  let ?x = "map Tried vcs @ Slept # ext" and ?m = "length vcs"
  consider "i < ?m" | "i = ?m" | j where "i = Suc (?m + j)" "j < length ext"
    using i by (cases "i < ?m"; cases "i = ?m") (auto, metis add_diff_inverse_nat add_Suc_right less_SucE less_antisym not_less_eq
        nat_add_left_cancel_less Suc_diff_Suc)
  then show "case ?x ! i of
       Tried vc \<Rightarrow> final (f (l @ take i ?x) vc) \<longrightarrow> Suc i = length ?x \<and> r = f (l @ take i ?x) vc
     | Slept \<Rightarrow> 0 < i \<and> (\<exists>vc. ?x ! (i - 1) = Tried vc \<and> transient (f (l @ take (i - 1) ?x) vc))"
  proof cases
    case 1
    then show ?thesis using assms(1) by (simp add: nth_append take_map)
  next
    case 2
    then show ?thesis using assms(2,3) by (simp add: nth_append take_map)
  next
    case (3 j)
    have t: "take i ?x = map Tried vcs @ Slept # take j ext" using 3 by simp
    have n: "?x ! i = ext ! j" using 3 by (simp add: nth_append)
    have ok: "case ext ! j of
        Tried vc \<Rightarrow> final (f ((l @ map Tried vcs @ [Slept]) @ take j ext) vc) \<longrightarrow>
          Suc j = length ext \<and> r = f ((l @ map Tried vcs @ [Slept]) @ take j ext) vc
      | Slept \<Rightarrow> 0 < j \<and> (\<exists>vc. ext ! (j - 1) = Tried vc
          \<and> transient (f ((l @ map Tried vcs @ [Slept]) @ take (j - 1) ext) vc))"
      using assms(4) 3(2) unfolding rotOK_def by blast
    show ?thesis
    proof (cases "ext ! j")
      case (Tried vc)
      then show ?thesis unfolding n t Tried using ok Tried 3 by simp
    next
      case Slept
      then have "0 < j" using ok by simp
      then obtain k where k: "j = Suc k" by (cases j) auto
      have "?x ! (i - 1) = ext ! k" "take (i - 1) ?x = map Tried vcs @ Slept # take k ext"
        using 3 k by (simp_all add: nth_append)
      then show ?thesis unfolding n Slept using ok Slept 3 k by simp
    qed
  qed
qed

lemma waves_trace:
  assumes "waves (logged f) sh slept n le l = (l', r)" "\<forall>l. length (sh l) = m" "0 < m"
  shows "\<exists>ext. l' = l @ ext \<and> rotOK f l ext r \<and> length (filter (\<lambda>e. e \<noteq> Slept) ext) \<le> n * m
    \<and> length (filter (\<lambda>e. e = Slept) ext) \<le> n - 1 \<and> (final r \<or> (\<exists>e. r = Inl (allFailed e)))"
  using assms(1)
proof (induction n arbitrary: l le)
  case 0
  then show ?case by (auto simp: rotOK_def)
next
  case (Suc n)
  have cnt: "length (filter (\<lambda>e. e \<noteq> Slept) (map Tried vs)) = length vs" "filter (\<lambda>e. e = Slept) (map Tried vs) = []" for vs
    by (induction vs) simp_all
  obtain l1 w where w: "wave (logged f) l (sh l) True le = (l1, w)" by (cases "wave (logged f) l (sh l) True le")
  from wave_trace [OF w] show ?case
  proof (elim disjE exE conjE)
    fix k assume k: "k < length (sh l)" "l1 = l @ map Tried (take (Suc k) (sh l))" "w = Stop (resultAt f l (sh l) k)"
      "final (resultAt f l (sh l) k)" "\<forall>j < k. \<not> final (resultAt f l (sh l) j)"
    have "rotOK f l (map Tried (take (Suc k) (sh l))) (resultAt f l (sh l) k)"
      unfolding rotOK_def
    proof (intro allI impI)
      fix i assume "i < length (map Tried (take (Suc k) (sh l)))"
      then have i: "i \<le> k" "i < length (sh l)" using k(1) by simp_all
      then have "final (resultAt f l (sh l) i) \<Longrightarrow> i = k" using k(5) by (cases "i = k") simp_all
      then show "case map Tried (take (Suc k) (sh l)) ! i of
          Tried vc \<Rightarrow> final (f (l @ take i (map Tried (take (Suc k) (sh l)))) vc) \<longrightarrow>
            Suc i = length (map Tried (take (Suc k) (sh l)))
            \<and> resultAt f l (sh l) k = f (l @ take i (map Tried (take (Suc k) (sh l)))) vc
        | Slept \<Rightarrow> 0 < i \<and> (\<exists>vc. map Tried (take (Suc k) (sh l)) ! (i - 1) = Tried vc
            \<and> transient (f (l @ take (i - 1) (map Tried (take (Suc k) (sh l)))) vc))"
        using i k(1) by (simp add: take_map min_def)
    qed
    moreover have "l' = l @ map Tried (take (Suc k) (sh l))" "r = resultAt f l (sh l) k" using Suc.prems w k(2,3) by simp_all
    ultimately show ?thesis
      using k(1,4) assms(2) by (intro exI [of _ "map Tried (take (Suc k) (sh l))"]) (simp add: cnt)
  next
    assume k: "l1 = l @ map Tried (sh l)" "\<forall>j < length (sh l). \<not> final (resultAt f l (sh l) j)"
      "w = Wave (True \<and> (\<forall>j < length (sh l). transient (resultAt f l (sh l) j)))
         (if sh l = [] then le else projl (resultAt f l (sh l) (length (sh l) - 1)))"
    have ne: "sh l \<noteq> []" "length (sh l) = m" using assms(2,3) by (metis length_0_conv less_irrefl, blast)
    show ?thesis
    proof (cases "(\<forall>j < length (sh l). transient (resultAt f l (sh l) j)) \<and> n > 0")
      case False
      then have "l' = l @ map Tried (sh l) \<and> (\<exists>e. r = Inl (allFailed e))"
        using Suc.prems w k by (cases n) (auto split: if_splits)
      then show ?thesis
        using rotOK_wave [OF k(2), of r] ne(2) by (intro exI [of _ "map Tried (sh l)"]) (simp add: cnt)
    next
      case True
      then have "waves (logged f) sh slept n (projl (resultAt f l (sh l) (length (sh l) - 1))) (l @ map Tried (sh l) @ [Slept]) = (l', r)"
        using Suc.prems w k ne by (simp add: slept_def [abs_def])
      from Suc.IH [OF this] obtain ext where e: "l' = (l @ map Tried (sh l) @ [Slept]) @ ext"
        "rotOK f (l @ map Tried (sh l) @ [Slept]) ext r" "length (filter (\<lambda>e. e \<noteq> Slept) ext) \<le> n * m"
        "length (filter (\<lambda>e. e = Slept) ext) \<le> n - 1" "final r \<or> (\<exists>e. r = Inl (allFailed e))" by blast
      have "rotOK f l (map Tried (sh l) @ Slept # ext) r"
        using rotOK_more [OF k(2) ne(1) _ e(2)] True ne assms(3) by simp
      then show ?thesis
        using e(1,3-5) ne(2) True by (intro exI [of _ "map Tried (sh l) @ Slept # ext"]) (auto simp: cnt)
    qed
  qed
qed

text \<open>
  C22. How \<open>GetVKCreds\<close> goes round the applications on a retry or when the captcha-free path is out, for any
  order of each round. It comes to an end: at most 24 fetches and 11 pauses. A success, a captcha or a call
  that is gone ends it at once with that result, whichever application it came from; it pauses only after
  a fetch that failed with a network problem; and with no such result the error says that all failed. A
  call that is gone on the captcha-free path is the result, and nothing is fetched after it.
\<close>

theorem vk_rotation_ends:
  assumes "GetVKCreds (\<lambda>l. (l, free)) (logged f) sh slept savedToken1 sid [] [] = (l, r)"
    and "\<forall>l. mset (sh l) = mset vkCredentialsList"
  shows "length (filter (\<lambda>e. e \<noteq> Slept) l) \<le> 24 \<and> length (filter (\<lambda>e. e = Slept) l) \<le> 11
    \<and> (if savedToken1 = [] \<and> sid = [] \<and> (case free of Inr _ \<Rightarrow> True | Inl (CallUnavailable _ _) \<Rightarrow> True | _ \<Rightarrow> False)
       then l = [] \<and> r = free
       else rotOK f [] l r \<and> (final r \<or> (\<exists>e. r = Inl (allFailed e))))"
proof -
  have m: "\<forall>l. length (sh l) = 2" 
  proof
    fix l
    have "size (mset (sh l)) = size (mset vkCredentialsList)" using assms(2) by simp
    then show "length (sh l) = 2" by (simp add: vkCredentialsList_def)
  qed
  define direct where "direct \<longleftrightarrow> savedToken1 = [] \<and> sid = []
    \<and> (case free of Inr _ \<Rightarrow> True | Inl (CallUnavailable _ _) \<Rightarrow> True | _ \<Rightarrow> False)"
  show ?thesis
  proof (cases direct)
    case True
    then have "l = [] \<and> r = free"
      using assms(1) by (auto simp: direct_def GetVKCreds_def Let_def split: sum.splits vkErr.splits)
    then show ?thesis using True by (simp add: direct_def)
  next
    case False
    then have "waves (logged f) sh slept maxNetworkRetries (Failed []) [] = (l, r)"
      using assms(1) by (auto simp: direct_def GetVKCreds_def Let_def split: sum.splits vkErr.splits if_splits)
    from waves_trace [OF this m] show ?thesis using False by (auto simp: direct_def maxNetworkRetries_def)
  qed
qed

theorem vk_rotation_ends_witness:
  "GetVKCreds (\<lambda>l. (l, Inl (Failed ''x''))) (logged (\<lambda>l vc. if Slept \<in> set l then Inl (CallUnavailable 9000 ''gone'')
        else Inl (Failed ''dial: no such host''))) (\<lambda>_. vkCredentialsList) slept [] [] [] []
     = ([Tried (''6287487'', ''MuAxFaKDYDOICzGnEOhp''), Tried (''8202606'', ''lMRsTiMCyPnp5vfoldmn''), Slept,
         Tried (''6287487'', ''MuAxFaKDYDOICzGnEOhp'')], Inl (CallUnavailable 9000 ''gone''))
   \<and> rotOK (\<lambda>l vc. if Slept \<in> set l then Inl (CallUnavailable 9000 ''gone'') else Inl (Failed ''dial: no such host'')) []
       [Tried (''6287487'', ''MuAxFaKDYDOICzGnEOhp''), Tried (''8202606'', ''lMRsTiMCyPnp5vfoldmn''), Slept,
        Tried (''6287487'', ''MuAxFaKDYDOICzGnEOhp'')] (Inl (CallUnavailable 9000 ''gone''))"
proof -
  let ?f = "\<lambda>l vc. if Slept \<in> set l then Inl (CallUnavailable 9000 ''gone'') else Inl (Failed ''dial: no such host'')"
  have "Contains ''dial: no such host'' ''no such host''" by (simp add: Contains_def sublist_def) (metis append_Cons append_Nil append_Nil2)
  then have "isTransientNetworkError (Some ''dial: no such host'')" by (simp add: isTransientNetworkError_def transientMarkers_def)
  then have e: "GetVKCreds (\<lambda>l. (l, Inl (Failed ''x''))) (logged ?f) (\<lambda>_. vkCredentialsList) slept [] [] [] []
     = ([Tried (''6287487'', ''MuAxFaKDYDOICzGnEOhp''), Tried (''8202606'', ''lMRsTiMCyPnp5vfoldmn''), Slept,
         Tried (''6287487'', ''MuAxFaKDYDOICzGnEOhp'')], Inl (CallUnavailable 9000 ''gone''))"
    by (simp add: GetVKCreds_def maxNetworkRetries_def numeral_eq_Suc vkCredentialsList_def logged_def slept_def)
  show ?thesis using vk_rotation_ends [OF e] e by simp
qed

end
