(* ===== verification/Boot.thy ===== *)
theory Boot
  imports VkCookie CredPool Systems
begin

text \<open>
  Bringing the tunnel up, from \<open>proxy.go\<close>: the link identifier and the size of the pool, the signal that the
  first connection is there, the attempts for the first connection, the start times of the others, the loop
  that keeps one connection alive, and the background filling of the pool.
\<close>

section \<open>Configuration\<close>

text \<open>
  The join link as \<open>Start\<close> reads it: what follows the last \<open>join/\<close> up to a slash, a query or a fragment
  (\<open>strings.Split\<close> ends with what follows the last separator it splits at; for \<open>join/\<close>, which does not overlap
  itself, that is the last occurrence).
\<close>

definition startLinkID :: "string \<Rightarrow> string" where
  "startLinkID vkLink =
     takeWhile (\<lambda>c. c \<noteq> CHR ''/'' \<and> c \<noteq> CHR ''?'' \<and> c \<noteq> CHR ''#'')
       (case afterLast ''join/'' vkLink of Some r \<Rightarrow> r | None \<Rightarrow> vkLink)"

text \<open>The number of slots: with a cookie, two per call link.\<close>

definition proxyPoolSize :: "int \<Rightarrow> bool \<Rightarrow> nat \<Rightarrow> int" where
  "proxyPoolSize numConns cookieAuth nlinks =
     (let n = (if numConns \<le> 0 then 1 else numConns) in
      if cookieAuth \<and> nlinks > 0 then 2 * int nlinks else poolSizeForNumConns n)"

text \<open>A transport that cannot work is switched off: a WRAP key of the wrong length, a WRAP-A password that is empty.\<close>

record transportCfg =
  useWrap :: bool
  wrapKey :: bytes
  useWrapA :: bool
  wrapAPassword :: string
  deviceId :: string

definition checkTransport :: "(string \<Rightarrow> bytes option) \<Rightarrow> string \<Rightarrow> transportCfg \<Rightarrow> transportCfg \<times> bytes" where
  "checkTransport deriveWrapAKey uuid cfg =
     (let c1 = (if useWrap cfg \<and> length (wrapKey cfg) \<noteq> 32 then cfg\<lparr>useWrap := False\<rparr> else cfg) in
      if \<not> useWrapA c1 then (c1, [])
      else if wrapAPassword c1 = [] then (c1\<lparr>useWrapA := False\<rparr>, [])
      else case deriveWrapAKey (wrapAPassword c1) of
        None \<Rightarrow> (c1\<lparr>useWrapA := False\<rparr>, [])
      | Some key \<Rightarrow> (if deviceId c1 = [] then c1\<lparr>deviceId := uuid\<rparr> else c1, key))"

section \<open>The bootstrap signal\<close>

text \<open>
  The channel holds one value. A waiter that received a value holds it until it has put it back; \<open>'e\<close> is the
  value sent, an error or none.
\<close>

record 'e bootSignal =
  bsOnce :: bool
  bsCh :: "'e option"
  bsHeld :: "'e list"
  bsDone :: "'e list"

definition bootSignalInit :: "'e bootSignal" where
  "bootSignalInit = \<lparr>bsOnce = False, bsCh = None, bsHeld = [], bsDone = []\<rparr>"

definition signalBootstrapDone :: "'e \<Rightarrow> 'e bootSignal \<Rightarrow> 'e bootSignal" where
  "signalBootstrapDone e s = (if bsOnce s then s else s\<lparr>bsOnce := True, bsCh := Some e\<rparr>)"

text \<open>\<open>WaitBootstrap\<close> in its two steps: the value is received, then replayed if the channel is empty, and returned.\<close>

definition waitReceive :: "'e bootSignal \<Rightarrow> 'e bootSignal option" where
  "waitReceive s = (case bsCh s of None \<Rightarrow> None | Some e \<Rightarrow> Some (s\<lparr>bsCh := None, bsHeld := e # bsHeld s\<rparr>))"

definition waitReplay :: "nat \<Rightarrow> 'e bootSignal \<Rightarrow> 'e bootSignal option" where
  "waitReplay i s = (if i < length (bsHeld s) then
       Some (s\<lparr>bsCh := (case bsCh s of None \<Rightarrow> Some (bsHeld s ! i) | Some e \<Rightarrow> Some e),
               bsHeld := take i (bsHeld s) @ drop (Suc i) (bsHeld s), bsDone := bsHeld s ! i # bsDone s\<rparr>)
     else None)"

inductive bootStep :: "'e bootSignal \<Rightarrow> 'e bootSignal \<Rightarrow> bool" where
  signal: "bootStep s (signalBootstrapDone e s)"
| receive: "waitReceive s = Some t \<Longrightarrow> bootStep s t"
| replay: "waitReplay i s = Some t \<Longrightarrow> bootStep s t"

section \<open>The first connection\<close>

datatype connErr = ErrCaptcha captchaRequired | ErrOther string

text \<open>What one attempt finds after it failed: the pool's saturation, and how the pause ends.\<close>

record bootLook =
  lookSaturated :: nat
  lookTotal :: nat
  lookLongest :: duration
  lookAvailable :: nat
  lookWoken :: bool
  lookStopped :: bool

datatype bootPause = SlotWait duration | Backoff duration

datatype bootEnd = BootReady | BootFailed connErr | BootStopped

definition maxBootstrapAttempts :: nat where "maxBootstrapAttempts = 7"
definition allSaturatedWaitSafety :: duration where "allSaturatedWaitSafety = 5 * second"

definition bootstrapBackoff :: "nat \<Rightarrow> duration" where
  "bootstrapBackoff failedAttempt = int failedAttempt * 10 * second"

definition pauseFor :: "nat \<Rightarrow> bootLook \<Rightarrow> bootPause" where
  "pauseFor attempt l =
     (if lookTotal l > 0 \<and> lookAvailable l = 0 \<and> lookLongest l > 0 then SlotWait (lookLongest l + allSaturatedWaitSafety)
      else Backoff (bootstrapBackoff attempt))"

text \<open>
  \<open>spawn n\<close> is the result of the \<open>n\<close>-th start of the first connection, \<open>look n\<close> what is seen after it failed.
  The loop runs while attempts are left; the pauses are logged.
\<close>

fun bootLoop :: "(nat \<Rightarrow> connErr option) \<Rightarrow> (nat \<Rightarrow> bootLook) \<Rightarrow> nat \<Rightarrow> nat \<Rightarrow> connErr option \<Rightarrow> bootPause list \<times> bootEnd" where
  "bootLoop spawn look attempt left None = ([], BootReady)"
| "bootLoop spawn look attempt 0 (Some e) = ([], BootFailed e)"
| "bootLoop spawn look attempt (Suc left) (Some (ErrCaptcha c)) = ([], BootFailed (ErrCaptcha c))"
| "bootLoop spawn look attempt (Suc left) (Some (ErrOther m)) =
     (let p = pauseFor attempt (look attempt) in
      if lookStopped (look attempt) then ([p], BootStopped)
      else (case bootLoop spawn look (Suc attempt) left (spawn (Suc attempt)) of (ps, r) \<Rightarrow> (p # ps, r)))"

definition bootFirst :: "(nat \<Rightarrow> connErr option) \<Rightarrow> (nat \<Rightarrow> bootLook) \<Rightarrow> bootPause list \<times> bootEnd" where
  "bootFirst spawn look = bootLoop spawn look 1 (maxBootstrapAttempts - 1) (spawn 1)"

text \<open>When the other connections start, by their index.\<close>

definition burstSize :: nat where "burstSize = 10"
definition burstStagger :: duration where "burstStagger = 200 * millisecond"
definition slowStagger :: duration where "slowStagger = 5 * second"

definition connDelay :: "nat \<Rightarrow> duration" where
  "connDelay connIdx =
     (if connIdx < burstSize then int connIdx * burstStagger
      else (int burstSize - 1) * burstStagger + (int connIdx - int burstSize + 1) * slowStagger)"

text \<open>
  \<open>startConnections\<close>: the other connections to launch, a captcha to publish, or an error. With a captcha the
  tunnel counts as started.
\<close>

datatype startEnd = Launch "(nat \<times> duration) list" | AwaitCaptcha captchaRequired | StartError string | StartStopped

definition startConnections :: "int \<Rightarrow> (nat \<Rightarrow> connErr option) \<Rightarrow> (nat \<Rightarrow> bootLook) \<Rightarrow> bootPause list \<times> startEnd" where
  "startConnections numConns spawn look =
     (case bootFirst spawn look of
        (ps, BootReady) \<Rightarrow> (ps, Launch (map (\<lambda>i. (i, connDelay i)) [1..<nat numConns]))
      | (ps, BootFailed (ErrCaptcha c)) \<Rightarrow> (ps, AwaitCaptcha c)
      | (ps, BootFailed (ErrOther m)) \<Rightarrow> (ps, StartError (''first connection failed: '' @ m))
      | (ps, BootStopped) \<Rightarrow> (ps, StartStopped))"

section \<open>Keeping one connection alive\<close>

text \<open>
  One session as \<open>runConnection\<close> sees it: its error if it ended with one, how long it took, whether it had
  signalled, and how the pause after it ends.
\<close>

datatype pauseEnd = TimedOut | SlotSignal | Cancelled

record sessionRun =
  srErr :: "connErr option"
  srDuration :: duration
  srSignaled :: bool
  srRandom :: nat
  srPause :: pauseEnd

datatype connAction = Again | Dormant duration | Pause duration | GiveUp connErr | CtxDone

definition countShort :: "nat \<Rightarrow> connErr \<Rightarrow> duration \<Rightarrow> nat" where
  "countShort shortFailures e d = (case e of ErrCaptcha _ \<Rightarrow> 0
     | ErrOther _ \<Rightarrow> if d > 5 * minute then 0 else Suc shortFailures)"

text \<open>The random part of a pause is below 30 s for a dormancy and below 5 s otherwise.\<close>

fun connLoop :: "bool \<Rightarrow> nat \<Rightarrow> sessionRun list \<Rightarrow> connAction list" where
  "connLoop hasReady shortFailures [] = []"
| "connLoop hasReady shortFailures (s # ss) =
     (case srErr s of
        None \<Rightarrow> Again # connLoop hasReady shortFailures ss
      | Some e \<Rightarrow>
          if \<not> srSignaled s \<and> hasReady then [GiveUp e]
          else
            let k = countShort shortFailures e (srDuration s) in
            if k \<ge> 3 then
              Dormant (int (30 + srRandom s mod 30) * second)
                # (if srPause s = Cancelled then [CtxDone] else connLoop hasReady 0 ss)
            else
              Pause (int (2000 + srRandom s mod 5000) * millisecond)
                # (if srPause s = Cancelled then [CtxDone] else connLoop hasReady k ss))"

section \<open>Filling the pool in the background\<close>

record growState =
  coldStartMet :: bool
  growInterval :: duration

definition growInit :: growState where
  "growInit = \<lparr>coldStartMet = False, growInterval = 2 * second\<rparr>"

definition coldStartSlots :: "int \<Rightarrow> int" where
  "coldStartSlots numConns = (let n = go_quot (numConns + 9) 10 in if n < 1 then 1 else n)"

text \<open>
  One round once the interval has passed. \<open>pick\<close> is the slot the pool offers, \<open>avail1\<close> and \<open>avail2\<close> the available
  slots before and after the fill, \<open>rnd\<close> the random number below 180 s. The fill is the slot with its abort guard.
\<close>

definition growRound :: "int \<Rightarrow> bool \<Rightarrow> int \<Rightarrow> nat \<Rightarrow> nat \<Rightarrow> nat \<Rightarrow> growState \<Rightarrow> growState \<times> (int \<times> int) option" where
  "growRound numConns captchaPending pick avail1 avail2 rnd g =
     (if captchaPending then (g\<lparr>growInterval := 30 * second\<rparr>, None)
      else if pick < 0 then (g\<lparr>growInterval := 30 * second\<rparr>, None)
      else
        let target = coldStartSlots numConns;
            met1 = (coldStartMet g \<or> int avail1 \<ge> target);
            guard = (if met1 then 0 else target);
            met2 = (met1 \<or> int avail2 \<ge> target)
        in (\<lparr>coldStartMet = met2, growInterval = (if met2 then 120 * second + int (rnd mod 180000000000) else 2 * second)\<rparr>,
            Some (pick, guard)))"

end
