(* ===== verification/BootProps.thy ===== *)
theory BootProps
  imports Boot
begin

text \<open>
  Bringing the tunnel up: every waiter for the bootstrap gets the first signal, the attempts for the first
  connection and their pauses, and when a connection goes dormant.
\<close>

section \<open>The bootstrap signal\<close>

text \<open>The copies of the value that are around: in the channel and with waiters.\<close>

definition circulating :: "'e bootSignal \<Rightarrow> 'e list" where
  "circulating s = (case bsCh s of None \<Rightarrow> [] | Some e \<Rightarrow> [e]) @ bsHeld s"

definition signalled :: "'e \<Rightarrow> 'e bootSignal \<Rightarrow> bool" where
  "signalled e s \<longleftrightarrow> bsOnce s \<and> circulating s = [e] \<and> set (bsDone s) \<subseteq> {e}"

lemma signalled_step: "bootStep s t \<Longrightarrow> signalled e s \<Longrightarrow> signalled e t"
proof (induction rule: bootStep.induct)
  case (signal s e')
  then show ?case by (simp add: signalled_def signalBootstrapDone_def)
next
  case (receive s t)
  then show ?case by (auto simp: signalled_def waitReceive_def circulating_def split: option.splits)
next
  case (replay i s t)
  then show ?case by (cases i) (auto simp: signalled_def waitReplay_def circulating_def split: option.splits if_splits)
qed

lemma unsignalled_step: "bootStep s t \<Longrightarrow> s = bootSignalInit \<Longrightarrow> t = bootSignalInit \<or> (\<exists>e. signalled e t)"
proof (induction rule: bootStep.induct)
  case (signal s e)
  then have "signalled e (signalBootstrapDone e s)"
    by (simp add: signalled_def signalBootstrapDone_def circulating_def bootSignalInit_def)
  then show ?case by blast
next
  case (receive s t)
  then show ?case by (simp add: waitReceive_def bootSignalInit_def)
next
  case (replay i s t)
  then show ?case by (simp add: waitReplay_def bootSignalInit_def)
qed

interpretation boot_signal: invariant_system "\<lambda>s. s = bootSignalInit" bootStep "\<lambda>s. s = bootSignalInit \<or> (\<exists>e. signalled e s)"
proof unfold_locales
  fix s t :: "'a bootSignal" assume "s = bootSignalInit \<or> (\<exists>e. signalled e s)" "bootStep s t"
  then show "t = bootSignalInit \<or> (\<exists>e. signalled e t)" by (elim disjE exE) (metis unsignalled_step, metis signalled_step)
qed simp

text \<open>
  C30. Whatever signals are sent and however the waiters' steps interleave: nobody returns before the first
  signal, and from then on exactly one copy of that first value exists, in the channel or with a waiter who is
  about to put it back; every waiter that returned got it, and no later step changes it.
\<close>

theorem bootstrap_signal_replayed:
  assumes "reach (\<lambda>s. s = bootSignalInit) bootStep s"
  shows "if bsOnce s
    then \<exists>e. (bsCh s = Some e \<and> bsHeld s = [] \<or> bsCh s = None \<and> bsHeld s = [e]) \<and> set (bsDone s) \<subseteq> {e}
       \<and> (\<forall>t. bootStep s t \<longrightarrow> circulating t = [e] \<and> set (bsDone t) \<subseteq> {e})
    else s = bootSignalInit"
proof (cases "bsOnce s")
  case False
  then show ?thesis using boot_signal.inv_reach [OF assms] by (auto simp: signalled_def)
next
  case True
  then obtain e where e: "signalled e s" using boot_signal.inv_reach [OF assms] by (auto simp: bootSignalInit_def)
  then have "bsCh s = Some e \<and> bsHeld s = [] \<or> bsCh s = None \<and> bsHeld s = [e]"
    by (simp add: signalled_def circulating_def split: option.splits)
  moreover have "circulating t = [e] \<and> set (bsDone t) \<subseteq> {e}" if "bootStep s t" for t
    using signalled_step [OF that e] by (simp add: signalled_def)
  ultimately show ?thesis using e True unfolding signalled_def by (intro if_P [THEN iffD2] exI [of _ e]) blast+
qed

section \<open>The attempts\<close>

lemma bootLoop_trace:
  assumes "bootLoop spawn look attempt left e = (ps, r)" "spawn attempt = e"
  shows "length ps \<le> left
    \<and> (\<forall>k < length ps. ps ! k = pauseFor (attempt + k) (look (attempt + k)) \<and> (\<exists>m. spawn (attempt + k) = Some (ErrOther m))
         \<and> (Suc k < length ps \<longrightarrow> \<not> lookStopped (look (attempt + k))))
    \<and> (case r of BootReady \<Rightarrow> spawn (attempt + length ps) = None
       | BootFailed x \<Rightarrow> spawn (attempt + length ps) = Some x \<and> (length ps = left \<or> (\<exists>c. x = ErrCaptcha c))
       | BootStopped \<Rightarrow> ps \<noteq> [] \<and> lookStopped (look (attempt + length ps - 1)))"
  using assms
proof (induction spawn look attempt left e arbitrary: ps rule: bootLoop.induct)
  case (4 spawn look attempt left m)
  show ?case
  proof (cases "lookStopped (look attempt)")
    case True
    then have "ps = [pauseFor attempt (look attempt)]" "r = BootStopped" using "4.prems"(1) by (simp_all add: Let_def)
    then show ?thesis using "4.prems"(2) True by simp
  next
    case False
    obtain qs where q: "bootLoop spawn look (Suc attempt) left (spawn (Suc attempt)) = (qs, r)"
      "ps = pauseFor attempt (look attempt) # qs"
      using "4.prems"(1) False by (auto simp: Let_def split: prod.splits)
    note ih = "4.IH" [OF refl False q(1) refl]
    have k: "ps ! k = pauseFor (attempt + k) (look (attempt + k)) \<and> (\<exists>m. spawn (attempt + k) = Some (ErrOther m))
        \<and> (Suc k < length ps \<longrightarrow> \<not> lookStopped (look (attempt + k)))" if "k < length ps" for k
    proof (cases k)
      case 0
      then show ?thesis using q(2) "4.prems"(2) False by simp
    next
      case (Suc j)
      then show ?thesis using ih q(2) that by auto
    qed
    show ?thesis using ih q(2) k by (auto split: bootEnd.splits)
  qed
qed auto

definition backoffSum :: "bootPause list \<Rightarrow> duration" where
  "backoffSum ps = sum_list (map (\<lambda>p. case p of Backoff d \<Rightarrow> d | SlotWait _ \<Rightarrow> 0) ps)"

lemma sum_upt_six:
  assumes "n \<le> 6"
  shows "sum_list (map (\<lambda>k. int (Suc k) * 10 * second) [0..<n]) \<le> 210 * second"
proof -
  have "n = 0 \<or> n = 1 \<or> n = 2 \<or> n = 3 \<or> n = 4 \<or> n = 5 \<or> n = 6" using assms by arith
  then show ?thesis by (elim disjE) (simp_all add: second_def upt_rec_numeral upt_conv_Cons)
qed

lemma backoff_bound:
  assumes "length ps \<le> 6" "\<forall>k < length ps. ps ! k = pauseFor (1 + k) (look (1 + k))"
  shows "backoffSum ps \<le> 210 * second"
proof -
  let ?f = "\<lambda>p. case p of Backoff d \<Rightarrow> d | SlotWait _ \<Rightarrow> 0"
  have "map ?f ps = map (\<lambda>k. ?f (pauseFor (1 + k) (look (1 + k)))) [0..<length ps]"
    by (rule nth_equalityI) (use assms(2) in simp_all)
  then have "backoffSum ps = sum_list (map (\<lambda>k. ?f (pauseFor (1 + k) (look (1 + k)))) [0..<length ps])"
    unfolding backoffSum_def by simp
  also have "\<dots> \<le> sum_list (map (\<lambda>k. int (Suc k) * 10 * second) [0..<length ps])"
    by (intro sum_list_mono) (simp add: pauseFor_def bootstrapBackoff_def second_def split: if_splits)
  finally show ?thesis using sum_upt_six [OF assms(1)] by simp
qed

lemma connDelay_gap:
  assumes "1 \<le> i" "i < j"
  shows "connDelay j - connDelay i \<ge> (if burstSize \<le> j then 5 else 1) * (if burstSize \<le> j then second else burstStagger)"
  using assms by (auto simp: connDelay_def burstSize_def burstStagger_def slowStagger_def second_def millisecond_def)


theorem bootstrap_signal_replayed_witness:
  "\<exists>e. bsCh \<lparr>bsOnce = True, bsCh = Some (7::nat), bsHeld = [], bsDone = [7]\<rparr> = Some e \<and> e = 7"
proof -
  let ?a = "\<lparr>bsOnce = True, bsCh = Some (7::nat), bsHeld = [], bsDone = []\<rparr>"
  let ?b = "\<lparr>bsOnce = True, bsCh = None, bsHeld = [7::nat], bsDone = []\<rparr>"
  let ?c = "\<lparr>bsOnce = True, bsCh = Some (7::nat), bsHeld = [], bsDone = [7]\<rparr>"
  have a: "bootStep bootSignalInit ?a"
    using bootStep.signal [of bootSignalInit "7::nat"] by (simp add: signalBootstrapDone_def bootSignalInit_def)
  have b: "bootStep ?a ?b" by (rule bootStep.receive) (simp add: waitReceive_def)
  have c: "bootStep ?b ?c" by (rule bootStep.replay [of 0]) (simp add: waitReplay_def)
  have "reach (\<lambda>s. s = bootSignalInit) bootStep bootSignalInit" by (rule reach_init) (rule refl)
  then have "reach (\<lambda>s. s = bootSignalInit) bootStep ?a" using a by (rule reach_step)
  then have "reach (\<lambda>s. s = bootSignalInit) bootStep ?b" using b by (rule reach_step)
  then have "reach (\<lambda>s. s = bootSignalInit) bootStep ?c" using c by (rule reach_step)
  from bootstrap_signal_replayed [OF this] show ?thesis by auto
qed

text \<open>Two starts fail; after the second no slot is left.\<close>

definition exSpawn :: "nat \<Rightarrow> connErr option" where
  "exSpawn n = (if n = 3 then None else Some (ErrOther ''dial''))"

definition exLook :: "nat \<Rightarrow> bootLook" where
  "exLook n = \<lparr>lookSaturated = 1, lookTotal = 2, lookLongest = second, lookAvailable = (if n = 2 then 0 else 1),
     lookWoken = True, lookStopped = False\<rparr>"


section \<open>Dormancy\<close>

definition shortRun :: "sessionRun \<Rightarrow> bool" where
  "shortRun s \<longleftrightarrow> (case srErr s of Some (ErrOther _) \<Rightarrow> srDuration s \<le> 5 * minute | _ \<Rightarrow> False)"

text \<open>The short failures at the end of a run of sessions; sessions that ended without an error do not count.\<close>

definition streak :: "sessionRun list \<Rightarrow> nat" where
  "streak ss = length (takeWhile shortRun (rev (filter (\<lambda>s. srErr s \<noteq> None) ss)))"

lemma streak_nil [simp]: "streak [] = 0"
  by (simp add: streak_def)

lemma streak_snoc: "streak (ss @ [s]) = (if srErr s = None then streak ss else if shortRun s then Suc (streak ss) else 0)"
  by (simp add: streak_def)

lemma countShort_streak:
  assumes "srErr s = Some e" "k = streak h mod 3" "k < 3"
  shows "countShort k e (srDuration s) = (if shortRun s then Suc k else 0)"
    and "countShort k e (srDuration s) \<ge> 3 \<longleftrightarrow> streak (h @ [s]) > 0 \<and> 3 dvd streak (h @ [s])"
proof -
  show c: "countShort k e (srDuration s) = (if shortRun s then Suc k else 0)"
    using assms(1) by (auto simp: countShort_def shortRun_def split: connErr.splits)
  show "countShort k e (srDuration s) \<ge> 3 \<longleftrightarrow> streak (h @ [s]) > 0 \<and> 3 dvd streak (h @ [s])"
    unfolding c streak_snoc using assms by (simp add: assms(2)) presburger
qed

definition actionOK :: "bool \<Rightarrow> sessionRun list \<Rightarrow> nat \<Rightarrow> nat \<Rightarrow> connAction \<Rightarrow> bool" where
  "actionOK hasReady ss n i a = (case a of
     Again \<Rightarrow> srErr (ss ! i) = None
   | Dormant d \<Rightarrow> 30 * second \<le> d \<and> d < 60 * second \<and> srErr (ss ! i) \<noteq> None
       \<and> streak (take (Suc i) ss) > 0 \<and> 3 dvd streak (take (Suc i) ss)
   | Pause d \<Rightarrow> 2 * second \<le> d \<and> d < 7 * second \<and> srErr (ss ! i) \<noteq> None
       \<and> \<not> (streak (take (Suc i) ss) > 0 \<and> 3 dvd streak (take (Suc i) ss))
   | GiveUp e \<Rightarrow> Suc i = n \<and> hasReady \<and> \<not> srSignaled (ss ! i) \<and> srErr (ss ! i) = Some e
   | CtxDone \<Rightarrow> Suc i = n \<and> 0 < i \<and> srPause (ss ! (i - 1)) = Cancelled)"

text \<open>An action followed by a pause: either the pause is cancelled, or the rest of the loop follows.\<close>

lemma actions_after:
  assumes "\<And>i. i < length L \<Longrightarrow> actionOK hasReady ((h @ [s]) @ ss) (length (h @ [s]) + length L) (length (h @ [s]) + i) (L ! i)"
    and "\<And>n. actionOK hasReady (h @ s # ss) n (length h) a"
    and "i < length (a # (if srPause s = Cancelled then [CtxDone] else L))"
  shows "actionOK hasReady (h @ s # ss) (length h + length (a # (if srPause s = Cancelled then [CtxDone] else L)))
    (length h + i) ((a # (if srPause s = Cancelled then [CtxDone] else L)) ! i)"
proof (cases i)
  case 0
  then show ?thesis using assms(2) by simp
next
  case (Suc j)
  show ?thesis
  proof (cases "srPause s = Cancelled")
    case True
    then show ?thesis using Suc assms(3) by (simp add: actionOK_def)
  next
    case False
    then show ?thesis using Suc assms(1) [of j] assms(3) by simp
  qed
qed

lemma connLoop_ok:
  assumes "k = streak h mod 3" "i < length (connLoop hasReady k ss)"
  shows "actionOK hasReady (h @ ss) (length h + length (connLoop hasReady k ss)) (length h + i) (connLoop hasReady k ss ! i)"
  using assms
proof (induction ss arbitrary: h k i)
  case (Cons s ss)
  have k3: "k < 3" using Cons.prems(1) by simp
  have t: "take (Suc (length h)) (h @ s # ss) = h @ [s]" by simp
  show ?case
  proof (cases "srErr s")
    case None
    then have k: "k = streak (h @ [s]) mod 3" using Cons.prems(1) by (simp add: streak_snoc)
    show ?thesis using None Cons.prems(2) Cons.IH [OF k] by (cases i) (simp_all add: actionOK_def)
  next
    case (Some e)
    note c = countShort_streak [OF Some Cons.prems(1) k3]
    let ?c = "countShort k e (srDuration s)"
    show ?thesis
    proof (cases "\<not> srSignaled s \<and> hasReady")
      case True
      then show ?thesis using Some Cons.prems(2) by (simp add: actionOK_def)
    next
      case go: False
      show ?thesis
      proof (cases "?c \<ge> 3")
        case True
        then have z: "0 = streak (h @ [s]) mod 3" using c(2) by presburger
        have eq: "connLoop hasReady k (s # ss) = Dormant (int (30 + srRandom s mod 30) * second) # (if srPause s = Cancelled then [CtxDone] else connLoop hasReady 0 ss)"
          using Some go True by (auto simp: Let_def)
        have "actionOK hasReady (h @ s # ss) n (length h) (Dormant (int (30 + srRandom s mod 30) * second))" for n
          using Some True c(2) t by (simp add: actionOK_def second_def)
        from actions_after [OF Cons.IH [OF z] this] show ?thesis using Cons.prems(2) unfolding eq by blast
      next
        case False
        then have z: "?c = streak (h @ [s]) mod 3"
          using c Cons.prems(1) Some by (auto simp: streak_snoc mod_Suc split: if_splits)
        have eq: "connLoop hasReady k (s # ss) = Pause (int (2000 + srRandom s mod 5000) * millisecond) # (if srPause s = Cancelled then [CtxDone] else connLoop hasReady ?c ss)"
          using Some go False by (auto simp: Let_def)
        have "actionOK hasReady (h @ s # ss) n (length h) (Pause (int (2000 + srRandom s mod 5000) * millisecond))" for n
          using Some False c(2) t by (simp add: actionOK_def second_def millisecond_def)
        from actions_after [OF Cons.IH [OF z] this] show ?thesis using Cons.prems(2) unfolding eq by blast
      qed
    qed
  qed
qed simp


end
