(* ===== verification/Sessions.thy ===== *)
theory Sessions
  imports Boot
begin

text \<open>
  Sessions of the tunnel, from \<open>proxy.go\<close>: pausing and resuming, the captcha that is waited for, the watchdog and
  the check on wake-up. A session context is a position in a list that says whether it is cancelled; the last one
  is the proxy's \<open>sessCtx\<close>.
\<close>

record proxyState =
  captchaImageURL :: string
  lastCap :: lastCaptcha
  captchaCh :: "string option"
  captchaWaiterActive :: bool
  waiters :: nat
  probeEvery :: duration
  lastRefresh :: int
  sessCancelled :: "bool list"
  ctxDone :: bool
  starting :: nat
  launched :: "nat list"
  pionTransientErrors :: int
  firstPionErrorTime :: int
  lastRecvTime :: int
  reconnects :: int
  txBytes :: int
  lastWakeTxBytes :: int
  lastWatchdogTxBytes :: int
  activeConns :: int
  credPoolOf :: credPool

section \<open>Session contexts\<close>

definition cancelSession :: "proxyState \<Rightarrow> proxyState" where
  "cancelSession p = p\<lparr>sessCancelled := list_update (sessCancelled p) (length (sessCancelled p) - 1) True\<rparr>"

text \<open>A child of a context that is done is done.\<close>

definition newSession :: "proxyState \<Rightarrow> proxyState" where
  "newSession p = (let q = cancelSession p in q\<lparr>sessCancelled := sessCancelled q @ [ctxDone q]\<rparr>)"

text \<open>\<open>startConnections\<close> is started on a goroutine and reads the session when it runs.\<close>

definition goStart :: "proxyState \<Rightarrow> proxyState" where
  "goStart p = p\<lparr>starting := Suc (starting p)\<rparr>"

definition startReads :: "proxyState \<Rightarrow> proxyState option" where
  "startReads p = (if starting p = 0 then None
     else Some (p\<lparr>starting := starting p - 1, launched := launched p @ [length (sessCancelled p) - 1]\<rparr>))"

definition Pause' :: "proxyState \<Rightarrow> proxyState" where
  "Pause' p = (let q = cancelSession p in q\<lparr>credPoolOf := invalidate (credPoolOf q)\<rparr>)"

definition Resume' :: "proxyState \<Rightarrow> proxyState" where
  "Resume' p =
     (if captchaImageURL p \<noteq> [] then p
      else let q = newSession p in goStart (q\<lparr>credPoolOf := invalidate (credPoolOf q)\<rparr>))"

definition ForceReconnect :: "gotime \<Rightarrow> proxyState \<Rightarrow> proxyState" where
  "ForceReconnect now p =
     (if captchaImageURL p \<noteq> [] then p
      else goStart ((newSession p)\<lparr>pionTransientErrors := 0, firstPionErrorTime := 0, lastRecvTime := unix_of now,
             reconnects := reconnects p + 1\<rparr>))"

text \<open>Stopping: the proxy's context is done, and with it every session.\<close>

definition Stop' :: "proxyState \<Rightarrow> proxyState" where
  "Stop' p = p\<lparr>ctxDone := True, sessCancelled := map (\<lambda>_. True) (sessCancelled p)\<rparr>"

section \<open>Captcha\<close>

definition storeCaptcha :: "captchaRequired \<Rightarrow> proxyState \<Rightarrow> proxyState" where
  "storeCaptcha c p = p\<lparr>captchaImageURL := ImageURL c,
     lastCap := (lastCap p)\<lparr>lcSID := SID c, lcTs := CaptchaTs c, lcAttempt := CaptchaAttempt c, lcToken1 := Token1 c\<rparr>\<rparr>"

text \<open>
  A captcha at the start: it is published, and one goroutine waits for it. It drops an answer that is still in
  the channel when it starts to run.
\<close>

definition awaitCaptcha :: "captchaRequired \<Rightarrow> proxyState \<Rightarrow> proxyState" where
  "awaitCaptcha c p =
     (let q = storeCaptcha c p in
      if captchaWaiterActive q then q
      else q\<lparr>captchaWaiterActive := True, waiters := Suc (waiters q), probeEvery := 2 * minute, captchaCh := None\<rparr>)"

definition waiterReturns :: "proxyState \<Rightarrow> proxyState" where
  "waiterReturns p = p\<lparr>captchaWaiterActive := False, waiters := waiters p - 1\<rparr>"

definition waiterAnswer :: "proxyState \<Rightarrow> proxyState option" where
  "waiterAnswer p =
     (if waiters p = 0 then None
      else case captchaCh p of None \<Rightarrow> None
        | Some answer \<Rightarrow>
            let q = p\<lparr>captchaCh := None, captchaImageURL := []\<rparr>;
                r = (if answer \<noteq> [] then q\<lparr>lastCap := (lastCap q)\<lparr>lcKey := answer\<rparr>\<rparr> else q)
            in Some (waiterReturns (Resume' r)))"

text \<open>
  The probe after two or ten minutes: the credential it acquired is released, the rest of the pool is kept. \<open>probe\<close> is
  the result of \<open>resolveTURNAddr\<close> with the pool it leaves.
\<close>

definition waiterProbe :: "gotime \<Rightarrow> (credPool \<Rightarrow> credPool \<times> (connErr + int)) \<Rightarrow> proxyState \<Rightarrow> proxyState option" where
  "waiterProbe now probe p =
     (if waiters p = 0 then None
      else if lastRefresh p > 0 \<and> now - time_Unix (lastRefresh p) < 10 * minute then Some p
      else Some (case probe (credPoolOf p) of
          (cp, Inr slot) \<Rightarrow> waiterReturns (Resume' (p\<lparr>credPoolOf := release now slot cp, captchaImageURL := []\<rparr>))
        | (cp, Inl (ErrCaptcha c)) \<Rightarrow>
            (storeCaptcha c (p\<lparr>credPoolOf := cp\<rparr>))\<lparr>probeEvery := (if IsRateLimit c then 10 * minute else 2 * minute)\<rparr>
        | (cp, Inl (ErrOther m)) \<Rightarrow> p\<lparr>credPoolOf := cp\<rparr>))"

definition waiterStops :: "proxyState \<Rightarrow> proxyState option" where
  "waiterStops p = (if waiters p = 0 \<or> \<not> ctxDone p then None
     else Some (waiterReturns (p\<lparr>captchaImageURL := [], lastCap := (lastCap p)\<lparr>lcSID := []\<rparr>\<rparr>)))"

text \<open>The answer from the user: sent if the channel has room. After 15 seconds connections are resumed if none is active.\<close>

definition SolveCaptcha :: "string \<Rightarrow> proxyState \<Rightarrow> proxyState" where
  "SolveCaptcha answer p =
     (let q = (if answer \<noteq> [] then p\<lparr>lastCap := (lastCap p)\<lparr>lcKey := answer\<rparr>\<rparr> else p) in
      q\<lparr>captchaImageURL := [], captchaCh := (case captchaCh q of None \<Rightarrow> Some answer | Some a \<Rightarrow> Some a)\<rparr>)"

definition solveLater :: "proxyState \<Rightarrow> proxyState" where
  "solveLater p = (if activeConns p = 0 then Resume' p else p)"

text \<open>
  A fresh captcha for the user. \<open>answer\<close> is the second response, or nothing if a request before it failed or the
  link is not known; \<open>token1\<close> is the first token.
\<close>

definition RefreshCaptchaURL :: "gotime \<Rightarrow> string \<Rightarrow> jobj option \<Rightarrow> proxyState \<Rightarrow> proxyState \<times> string" where
  "RefreshCaptchaURL now token1 answer p =
     (let q = p\<lparr>lastRefresh := unix_of now\<rparr> in
      case answer of None \<Rightarrow> (q, [])
      | Some resp \<Rightarrow>
          let c = extractCaptcha resp in
          if cSID c = [] then (q, [])
          else (q\<lparr>captchaImageURL := cURL c,
                  lastCap := (lastCap q)\<lparr>lcSID := cSID c, lcTs := cTs c, lcAttempt := cAttempt c, lcToken1 := token1\<rparr>\<rparr>, cURL c))"

section \<open>The check on wake-up\<close>

definition WakeHealthCheck :: "gotime \<Rightarrow> proxyState \<Rightarrow> proxyState" where
  "WakeHealthCheck now p =
     (if captchaImageURL p \<noteq> [] then p
      else
        let q = (if pionTransientErrors p > 0 then p\<lparr>pionTransientErrors := 0, firstPionErrorTime := 0\<rparr> else p);
            txDelta = txBytes q - lastWakeTxBytes q;
            r = q\<lparr>lastWakeTxBytes := txBytes q\<rparr>
        in if txDelta > 4096 \<and> lastRecvTime r > 0 \<and> now - time_Unix (lastRecvTime r) > 90 * second
           then ForceReconnect now r else r)"

section \<open>The watchdog\<close>

text \<open>Its own variables: since when no connection is active (0 for never), and the last tick.\<close>

record watchdog =
  zeroConnSince :: gotime
  lastTickAt :: gotime

definition watchdogTick :: "gotime \<Rightarrow> watchdog \<times> proxyState \<Rightarrow> watchdog \<times> proxyState" where
  "watchdogTick now s =
     (case s of (w, p) \<Rightarrow>
        if now - lastTickAt w > 90 * second
        then (w\<lparr>lastTickAt := now\<rparr>, p\<lparr>lastRecvTime := unix_of now, pionTransientErrors := 0, firstPionErrorTime := 0\<rparr>)
        else
          let w1 = w\<lparr>lastTickAt := now\<rparr> in
          if captchaImageURL p \<noteq> [] then (w1, p)
          else
            let txDelta = txBytes p - lastWatchdogTxBytes p;
                q = p\<lparr>lastWatchdogTxBytes := txBytes p\<rparr>
            in if txDelta > 4096 \<and> lastRecvTime q > 0 \<and> activeConns q > 0 \<and> now - time_Unix (lastRecvTime q) > 2 * minute
               then (w1, ForceReconnect now q)
               else if activeConns q = 0 then
                 (if zeroConnSince w1 = 0 then (w1\<lparr>zeroConnSince := now\<rparr>, q)
                  else if now - zeroConnSince w1 > 5 * minute then (w1\<lparr>zeroConnSince := 0\<rparr>, ForceReconnect now q)
                  else (w1, q))
               else (w1\<lparr>zeroConnSince := 0\<rparr>, q))"

section \<open>Everything that can happen\<close>

text \<open>
  The steps of the proxy, in any order and at any time. Traffic and connections change the counters and clocks freely.
\<close>

inductive lifeStep :: "proxyState \<Rightarrow> proxyState \<Rightarrow> bool" where
  pause: "lifeStep p (Pause' p)"
| resume: "lifeStep p (Resume' p)"
| force: "lifeStep p (ForceReconnect now p)"
| stop: "lifeStep p (Stop' p)"
| reads: "startReads p = Some q \<Longrightarrow> lifeStep p q"
| captcha: "lifeStep p (awaitCaptcha c p)"
| answered: "waiterAnswer p = Some q \<Longrightarrow> lifeStep p q"
| probed: "waiterProbe now probe p = Some q \<Longrightarrow> lifeStep p q"
| stops: "waiterStops p = Some q \<Longrightarrow> lifeStep p q"
| solve: "lifeStep p (SolveCaptcha answer p)"
| solved: "lifeStep p (solveLater p)"
| refresh: "lifeStep p (fst (RefreshCaptchaURL now token1 resp p))"
| wake: "lifeStep p (WakeHealthCheck now p)"
| tick: "lifeStep p (snd (watchdogTick now (w, p)))"
| traffic: "lifeStep p (p\<lparr>txBytes := tx, lastRecvTime := r, activeConns := a, pionTransientErrors := e,
     firstPionErrorTime := f, credPoolOf := cp\<rparr>)"

text \<open>\<open>NewProxy\<close> has one session; \<open>Start\<close> launches it.\<close>

definition newProxyState :: "credPool \<Rightarrow> proxyState" where
  "newProxyState cp = \<lparr>captchaImageURL = [], lastCap = \<lparr>lcSID = [], lcKey = [], lcTs = 0, lcAttempt = 0, lcToken1 = []\<rparr>,
     captchaCh = None, captchaWaiterActive = False, waiters = 0, probeEvery = 2 * minute, lastRefresh = 0,
     sessCancelled = [False], ctxDone = False, starting = 0, launched = [], pionTransientErrors = 0,
     firstPionErrorTime = 0, lastRecvTime = 0, reconnects = 0, txBytes = 0, lastWakeTxBytes = 0,
     lastWatchdogTxBytes = 0, activeConns = 0, credPoolOf = cp\<rparr>"

definition lifeInit :: "proxyState \<Rightarrow> bool" where
  "lifeInit p \<longleftrightarrow> (\<exists>cp. p = goStart (newProxyState cp))"

end
