(* ===== verification/SessionsProps.thy ===== *)
theory SessionsProps
  imports Sessions
begin

text \<open>
  Sessions: at most one is alive, a cancelled one stays cancelled, one goroutine at most waits for a captcha; and
  for which reasons, and how often, the watchdog starts the connections again.
\<close>

section \<open>Session contexts\<close>

definition sessOK :: "proxyState \<Rightarrow> bool" where
  "sessOK p \<longleftrightarrow> sessCancelled p \<noteq> [] \<and> (\<forall>i. Suc i < length (sessCancelled p) \<longrightarrow> sessCancelled p ! i)
     \<and> (ctxDone p \<longrightarrow> (\<forall>i < length (sessCancelled p). sessCancelled p ! i))
     \<and> (\<forall>i \<in> set (launched p). i < length (sessCancelled p))
     \<and> waiters p = (if captchaWaiterActive p then 1 else 0)"

text \<open>Session contexts from one state to the next: cancelled ones stay so, new ones are added at the end.\<close>

definition sessLater :: "proxyState \<Rightarrow> proxyState \<Rightarrow> bool" where
  "sessLater p q \<longleftrightarrow> length (sessCancelled p) \<le> length (sessCancelled q)
     \<and> (\<forall>i < length (sessCancelled p). sessCancelled p ! i \<longrightarrow> sessCancelled q ! i)
     \<and> (ctxDone p \<longrightarrow> ctxDone q)"

definition kept :: "proxyState \<Rightarrow> proxyState \<Rightarrow> bool" where
  "kept p q \<longleftrightarrow> sessOK q \<and> sessLater p q"

lemma kept_refl: "sessOK p \<Longrightarrow> kept p p"
  by (simp add: kept_def sessLater_def)

lemma kept_frame:
  assumes "kept o' p" "sessCancelled q = sessCancelled p" "ctxDone q = ctxDone p" "launched q = launched p"
    "waiters q = waiters p" "captchaWaiterActive q = captchaWaiterActive p"
  shows "kept o' q"
  using assms by (simp add: kept_def sessOK_def sessLater_def)

lemma cancelSession_all:
  assumes "sessOK p"
  shows "\<forall>i < length (sessCancelled p). sessCancelled (cancelSession p) ! i"
  using assms by (auto simp: sessOK_def cancelSession_def nth_list_update)

lemma cancelSession_frame [simp]:
  "length (sessCancelled (cancelSession p)) = length (sessCancelled p)"
  "sessCancelled (cancelSession p) = [] \<longleftrightarrow> sessCancelled p = []" "ctxDone (cancelSession p) = ctxDone p"
  "launched (cancelSession p) = launched p" "waiters (cancelSession p) = waiters p"
  "captchaWaiterActive (cancelSession p) = captchaWaiterActive p" "captchaImageURL (cancelSession p) = captchaImageURL p"
  "starting (cancelSession p) = starting p" "credPoolOf (cancelSession p) = credPoolOf p"
  by (simp_all add: cancelSession_def)

lemma kept_cancel: "kept o' p \<Longrightarrow> kept o' (cancelSession p)"
  using cancelSession_all [of p] by (auto simp: kept_def sessOK_def sessLater_def)

lemma newSession_frame [simp]:
  "sessCancelled (newSession p) = sessCancelled (cancelSession p) @ [ctxDone p]" "ctxDone (newSession p) = ctxDone p"
  "launched (newSession p) = launched p" "waiters (newSession p) = waiters p"
  "captchaWaiterActive (newSession p) = captchaWaiterActive p" "captchaImageURL (newSession p) = captchaImageURL p"
  "starting (newSession p) = starting p"
  by (simp_all add: newSession_def Let_def)

lemma kept_new:
  assumes "kept o' p"
  shows "kept o' (newSession p)"
proof -
  have c: "\<forall>i < length (sessCancelled p). sessCancelled (cancelSession p) ! i" using assms cancelSession_all by (simp add: kept_def)
  then have "sessOK (newSession p)" using assms by (auto simp: kept_def sessOK_def nth_append less_Suc_eq)
  moreover have "sessLater o' (newSession p)" using assms c by (auto simp: kept_def sessLater_def nth_append)
  ultimately show ?thesis by (simp add: kept_def)
qed

lemma goStart_frame [simp]:
  "sessCancelled (goStart p) = sessCancelled p" "ctxDone (goStart p) = ctxDone p" "launched (goStart p) = launched p"
  "waiters (goStart p) = waiters p" "captchaWaiterActive (goStart p) = captchaWaiterActive p"
  "captchaImageURL (goStart p) = captchaImageURL p" "starting (goStart p) = Suc (starting p)"
  "lastRecvTime (goStart p) = lastRecvTime p"
  by (simp_all add: goStart_def)

lemma kept_Resume:
  assumes "kept o' p"
  shows "kept o' (Resume' p)"
proof (cases "captchaImageURL p = []")
  case True
  from kept_new [OF assms] have "kept o' (goStart ((newSession p)\<lparr>credPoolOf := invalidate (credPoolOf (newSession p))\<rparr>))"
    by (rule kept_frame) simp_all
  then show ?thesis using True by (simp add: Resume'_def Let_def)
qed (use assms in \<open>simp add: Resume'_def\<close>)

lemma kept_Force:
  assumes "kept o' p"
  shows "kept o' (ForceReconnect now p)"
proof (cases "captchaImageURL p = []")
  case True
  from kept_new [OF assms] have "kept o' (goStart ((newSession p)\<lparr>pionTransientErrors := 0, firstPionErrorTime := 0,
      lastRecvTime := unix_of now, reconnects := reconnects p + 1\<rparr>))"
    by (rule kept_frame) simp_all
  then show ?thesis using True by (simp add: ForceReconnect_def)
qed (use assms in \<open>simp add: ForceReconnect_def\<close>)

lemma kept_Pause:
  assumes "kept o' p"
  shows "kept o' (Pause' p)"
proof -
  from kept_cancel [OF assms] have "kept o' ((cancelSession p)\<lparr>credPoolOf := invalidate (credPoolOf (cancelSession p))\<rparr>)"
    by (rule kept_frame) simp_all
  then show ?thesis by (simp add: Pause'_def Let_def)
qed

lemma kept_waiterReturns: "kept o' p \<Longrightarrow> waiters p \<noteq> 0 \<Longrightarrow> kept o' (waiterReturns p)"
  by (simp add: kept_def sessOK_def sessLater_def waiterReturns_def split: if_splits)

lemma storeCaptcha_frame [simp]:
  "sessCancelled (storeCaptcha c p) = sessCancelled p" "ctxDone (storeCaptcha c p) = ctxDone p"
  "launched (storeCaptcha c p) = launched p" "waiters (storeCaptcha c p) = waiters p"
  "captchaWaiterActive (storeCaptcha c p) = captchaWaiterActive p" "starting (storeCaptcha c p) = starting p"
  by (simp_all add: storeCaptcha_def)

lemma kept_awaitCaptcha:
  assumes "kept o' p"
  shows "kept o' (awaitCaptcha c p)"
proof (cases "captchaWaiterActive p")
  case True
  have "kept o' (storeCaptcha c p)" by (rule kept_frame [OF assms]) simp_all
  then show ?thesis using True by (simp add: awaitCaptcha_def Let_def)
next
  case False
  then show ?thesis using assms by (simp add: kept_def sessOK_def sessLater_def awaitCaptcha_def Let_def)
qed

lemma Resume_waiters [simp]: "waiters (Resume' p) = waiters p"
  by (simp add: Resume'_def Let_def)

lemma kept_waiterAnswer:
  assumes "waiterAnswer p = Some q" "kept o' p"
  shows "kept o' q"
proof -
  obtain a where a: "captchaCh p = Some a" "waiters p \<noteq> 0" using assms(1) by (auto simp: waiterAnswer_def split: if_splits option.splits)
  let ?q = "p\<lparr>captchaCh := None, captchaImageURL := []\<rparr>"
  let ?r = "if a \<noteq> [] then ?q\<lparr>lastCap := (lastCap ?q)\<lparr>lcKey := a\<rparr>\<rparr> else ?q"
  have "kept o' ?r" by (rule kept_frame [OF assms(2)]) simp_all
  then have "kept o' (waiterReturns (Resume' ?r))" using a(2) by (intro kept_waiterReturns kept_Resume) simp_all
  moreover have "q = waiterReturns (Resume' ?r)" using assms(1) a by (simp add: waiterAnswer_def Let_def split: if_splits)
  ultimately show ?thesis by simp
qed

lemma kept_waiterProbe:
  assumes "waiterProbe now probe p = Some q" "kept o' p"
  shows "kept o' q"
proof -
  have w: "waiters p \<noteq> 0" using assms(1) by (simp add: waiterProbe_def split: if_splits)
  obtain cp r where r: "probe (credPoolOf p) = (cp, r)" by fastforce
  show ?thesis
  proof (cases "lastRefresh p > 0 \<and> now - time_Unix (lastRefresh p) < 10 * minute")
    case True
    then show ?thesis using assms w by (simp add: waiterProbe_def)
  next
    case probing: False
    show ?thesis
    proof (cases r)
      case (Inr slot)
      have "kept o' (p\<lparr>credPoolOf := release now slot cp, captchaImageURL := []\<rparr>)" by (rule kept_frame [OF assms(2)]) simp_all
      then have "kept o' (waiterReturns (Resume' (p\<lparr>credPoolOf := release now slot cp, captchaImageURL := []\<rparr>)))"
        using w by (intro kept_waiterReturns kept_Resume) simp_all
      then show ?thesis using assms(1) probing w r Inr by (auto simp: waiterProbe_def split: if_splits)
    next
      case (Inl e)
      have "kept o' q"
      proof (rule kept_frame [OF assms(2)])
        show "sessCancelled q = sessCancelled p" "ctxDone q = ctxDone p" "launched q = launched p" "waiters q = waiters p"
          "captchaWaiterActive q = captchaWaiterActive p"
          using assms(1) probing w r Inl by (cases e; auto simp: waiterProbe_def split: if_splits)+
      qed
      then show ?thesis .
    qed
  qed
qed

lemma kept_waiterStops: "waiterStops p = Some q \<Longrightarrow> kept o' p \<Longrightarrow> kept o' q"
  by (auto simp: waiterStops_def kept_def sessOK_def sessLater_def waiterReturns_def split: if_splits)

lemma kept_WakeHealthCheck:
  assumes "kept o' p"
  shows "kept o' (WakeHealthCheck now p)"
proof -
  let ?q = "if pionTransientErrors p > 0 then p\<lparr>pionTransientErrors := 0, firstPionErrorTime := 0\<rparr> else p"
  have k: "kept o' (?q\<lparr>lastWakeTxBytes := txBytes ?q\<rparr>)" by (rule kept_frame [OF assms]) simp_all
  from k kept_Force [OF k] assms show ?thesis by (simp add: WakeHealthCheck_def Let_def)
qed

lemma kept_watchdogTick:
  assumes "kept o' p"
  shows "kept o' (snd (watchdogTick now (w, p)))"
proof -
  have k: "kept o' (p\<lparr>lastWatchdogTxBytes := txBytes p\<rparr>)"
    "kept o' (p\<lparr>lastRecvTime := unix_of now, pionTransientErrors := 0, firstPionErrorTime := 0\<rparr>)"
    by (rule kept_frame [OF assms]; simp)+
  from k kept_Force [OF k(1)] assms show ?thesis by (simp add: watchdogTick_def Let_def)
qed

lemma kept_startReads: "startReads p = Some q \<Longrightarrow> kept o' p \<Longrightarrow> kept o' q"
  by (auto simp: startReads_def kept_def sessOK_def sessLater_def split: if_splits)

lemma kept_Stop: "kept o' p \<Longrightarrow> kept o' (Stop' p)"
  by (auto simp: Stop'_def kept_def sessOK_def sessLater_def)

lemma lifeStep_kept:
  assumes "lifeStep p q" "sessOK p"
  shows "kept p q"
  using assms(1)
proof cases
  case (solve answer)
  show ?thesis unfolding solve by (rule kept_frame [OF kept_refl [OF assms(2)]]) (simp_all add: SolveCaptcha_def Let_def)
next
  case solved
  then show ?thesis using kept_refl [OF assms(2)] kept_Resume by (simp add: solveLater_def)
next
  case (refresh now token1 resp)
  show ?thesis unfolding refresh
    by (rule kept_frame [OF kept_refl [OF assms(2)]]) (simp_all add: RefreshCaptchaURL_def Let_def split: option.splits)
next
  case (traffic tx r a e f cp)
  show ?thesis unfolding traffic by (rule kept_frame [OF kept_refl [OF assms(2)]]) simp_all
qed (use kept_refl [OF assms(2)] in \<open>blast intro: kept_Pause kept_Resume kept_Force kept_Stop kept_startReads kept_awaitCaptcha
    kept_waiterAnswer kept_waiterProbe kept_waiterStops kept_WakeHealthCheck kept_watchdogTick\<close>)+

interpretation sessions: invariant_system lifeInit lifeStep sessOK
proof unfold_locales
  fix p assume "lifeInit p"
  then show "sessOK p" by (auto simp: lifeInit_def newProxyState_def goStart_def sessOK_def)
next
  fix p q assume "sessOK p" "lifeStep p q"
  then show "sessOK q" using lifeStep_kept by (simp add: kept_def)
qed

text \<open>
  C33. However pausing, resuming, forced reconnects, captchas, their answers and probes, wake-ups and watchdog
  ticks follow each other: at most one session context is alive, the proxy's current one; a context that was
  cancelled is never alive again; connections are only ever launched on a context that exists; at most one goroutine
  waits for a captcha; and after a stop nothing is alive.
\<close>

theorem sessions_exclusive:
  assumes "reach lifeInit lifeStep p"
  shows "(\<forall>i < length (sessCancelled p). \<not> sessCancelled p ! i \<longrightarrow> Suc i = length (sessCancelled p) \<and> \<not> ctxDone p)
    \<and> (\<forall>i \<in> set (launched p). i < length (sessCancelled p))
    \<and> waiters p = (if captchaWaiterActive p then 1 else 0)
    \<and> (\<forall>q. lifeStep p q \<longrightarrow> (\<forall>i < length (sessCancelled p). sessCancelled p ! i \<longrightarrow> sessCancelled q ! i))"
proof -
  have ok: "sessOK p" by (rule sessions.inv_reach [OF assms])
  have "\<forall>i < length (sessCancelled p). sessCancelled p ! i \<longrightarrow> sessCancelled q ! i" if "lifeStep p q" for q
    using lifeStep_kept [OF that ok] by (simp add: kept_def sessLater_def)
  moreover have "Suc i = length (sessCancelled p) \<and> \<not> ctxDone p" if "i < length (sessCancelled p)" "\<not> sessCancelled p ! i" for i
    using ok that unfolding sessOK_def by (metis Suc_lessI)
  ultimately show ?thesis using ok unfolding sessOK_def by blast
qed

section \<open>The watchdog over time\<close>

text \<open>What happened since the tick before: the time, whether a captcha is pending, connections, bytes sent, last packet.\<close>

record tickObs =
  toNow :: gotime
  toCaptcha :: bool
  toActive :: int
  toTx :: int
  toRecv :: int

definition seen :: "tickObs \<Rightarrow> proxyState \<Rightarrow> proxyState" where
  "seen ob p = p\<lparr>captchaImageURL := (if toCaptcha ob then ''u'' else []), activeConns := toActive ob, txBytes := toTx ob,
     lastRecvTime := max (lastRecvTime p) (toRecv ob)\<rparr>"

text \<open>For every tick, whether it starts the connections again.\<close>

fun wdRun :: "watchdog \<times> proxyState \<Rightarrow> tickObs list \<Rightarrow> bool list" where
  "wdRun s [] = []"
| "wdRun s (ob # obs) =
     (let t = watchdogTick (toNow ob) (fst s, seen ob (snd s)) in (starting (snd s) < starting (snd t)) # wdRun t obs)"

lemma length_wdRun [simp]: "length (wdRun s obs) = length obs"
  by (induction obs arbitrary: s) (simp_all add: Let_def)

text \<open>
  A tick that does not look at the number of connections: after a freeze, with a captcha pending, or because it
  started the connections for another reason.
\<close>

definition tickAt :: "gotime \<Rightarrow> tickObs list \<Rightarrow> nat \<Rightarrow> gotime" where
  "tickAt t0 obs i = (if i = 0 then t0 else toNow (obs ! (i - 1)))"

definition skips :: "gotime \<Rightarrow> tickObs list \<Rightarrow> bool list \<Rightarrow> nat \<Rightarrow> bool" where
  "skips t0 obs fs i \<longleftrightarrow> toNow (obs ! i) - tickAt t0 obs i > 90 * second \<or> toCaptcha (obs ! i) \<or> fs ! i"

text \<open>The two reasons.\<close>

definition silentTunnel :: "tickObs list \<Rightarrow> bool list \<Rightarrow> nat \<Rightarrow> bool" where
  "silentTunnel obs fs i \<longleftrightarrow> toActive (obs ! i) > 0
     \<and> (\<forall>k \<le> i. toNow (obs ! i) - time_Unix (toRecv (obs ! k)) > 2 * minute)
     \<and> (\<forall>k < i. fs ! k \<longrightarrow> toNow (obs ! i) - time_Unix (unix_of (toNow (obs ! k))) > 2 * minute)"

definition noConns :: "gotime \<Rightarrow> tickObs list \<Rightarrow> bool list \<Rightarrow> nat \<Rightarrow> bool" where
  "noConns t0 obs fs i \<longleftrightarrow> toActive (obs ! i) = 0
     \<and> (\<exists>j < i. toActive (obs ! j) = 0 \<and> \<not> skips t0 obs fs j \<and> toNow (obs ! i) - toNow (obs ! j) > 5 * minute
          \<and> (\<forall>k. j < k \<and> k < i \<and> \<not> skips t0 obs fs k \<longrightarrow> toActive (obs ! k) = 0))"

text \<open>The state before each tick.\<close>

definition wdTick :: "watchdog \<times> proxyState \<Rightarrow> tickObs \<Rightarrow> watchdog \<times> proxyState" where
  "wdTick s ob = watchdogTick (toNow ob) (fst s, seen ob (snd s))"

definition wdAt :: "watchdog \<times> proxyState \<Rightarrow> tickObs list \<Rightarrow> nat \<Rightarrow> watchdog \<times> proxyState" where
  "wdAt s obs n = foldl wdTick s (take n obs)"

lemma wdAt_Suc: "n < length obs \<Longrightarrow> wdAt s obs (Suc n) = wdTick (wdAt s obs n) (obs ! n)"
  by (simp add: wdAt_def take_Suc_conv_app_nth)

lemma wdRun_nth:
  "n < length obs \<Longrightarrow> wdRun s obs ! n \<longleftrightarrow> starting (snd (wdAt s obs n)) < starting (snd (wdAt s obs (Suc n)))"
proof (induction obs arbitrary: s n)
  case (Cons ob obs)
  then show ?case by (cases n) (simp_all add: wdAt_def Let_def wdTick_def [symmetric])
qed simp

text \<open>What the watchdog remembers before tick \<open>n\<close>.\<close>

definition wdKnows :: "gotime \<Rightarrow> tickObs list \<Rightarrow> bool list \<Rightarrow> nat \<Rightarrow> watchdog \<times> proxyState \<Rightarrow> bool" where
  "wdKnows t0 obs fs n s \<longleftrightarrow> lastTickAt (fst s) = tickAt t0 obs n \<and> lastRecvTime (snd s) \<le> unix_of (tickAt t0 obs n)
     \<and> (\<forall>k < n. toRecv (obs ! k) \<le> lastRecvTime (snd s) \<and> (fs ! k \<longrightarrow> unix_of (toNow (obs ! k)) \<le> lastRecvTime (snd s)))
     \<and> (zeroConnSince (fst s) \<noteq> 0 \<longrightarrow> (\<exists>j < n. toNow (obs ! j) = zeroConnSince (fst s) \<and> toActive (obs ! j) = 0 \<and> \<not> skips t0 obs fs j
          \<and> (\<forall>k. j < k \<and> k < n \<and> \<not> skips t0 obs fs k \<longrightarrow> toActive (obs ! k) = 0)))"

text \<open>The outcomes of one tick.\<close>

lemma tick_cases:
  assumes "watchdogTick now (w, p) = (w', q)"
  obtains (Frozen) "now - lastTickAt w > 90 * second" "w' = w\<lparr>lastTickAt := now\<rparr>" "starting q = starting p" "lastRecvTime q = unix_of now"
  | (Pending) "now - lastTickAt w \<le> 90 * second" "captchaImageURL p \<noteq> []" "w' = w\<lparr>lastTickAt := now\<rparr>" "q = p"
  | (Silent) "now - lastTickAt w \<le> 90 * second" "captchaImageURL p = []" "activeConns p > 0" "now - time_Unix (lastRecvTime p) > 2 * minute"
      "w' = w\<lparr>lastTickAt := now\<rparr>" "starting q = Suc (starting p)" "lastRecvTime q = unix_of now"
  | (First) "now - lastTickAt w \<le> 90 * second" "captchaImageURL p = []" "activeConns p = 0" "zeroConnSince w = 0"
      "w' = w\<lparr>lastTickAt := now, zeroConnSince := now\<rparr>" "starting q = starting p" "lastRecvTime q = lastRecvTime p"
  | (Dead) "now - lastTickAt w \<le> 90 * second" "captchaImageURL p = []" "activeConns p = 0" "zeroConnSince w \<noteq> 0"
      "now - zeroConnSince w > 5 * minute"
      "w' = w\<lparr>lastTickAt := now, zeroConnSince := 0\<rparr>" "starting q = Suc (starting p)" "lastRecvTime q = unix_of now"
  | (Still) "now - lastTickAt w \<le> 90 * second" "captchaImageURL p = []" "activeConns p = 0" "zeroConnSince w \<noteq> 0"
      "w' = w\<lparr>lastTickAt := now\<rparr>" "starting q = starting p" "lastRecvTime q = lastRecvTime p"
  | (Alive) "now - lastTickAt w \<le> 90 * second" "captchaImageURL p = []" "activeConns p \<noteq> 0"
      "w' = w\<lparr>lastTickAt := now, zeroConnSince := 0\<rparr>" "starting q = starting p" "lastRecvTime q = lastRecvTime p"
  using assms by (auto simp: watchdogTick_def ForceReconnect_def Let_def split: if_splits)

text \<open>Observations made by a clock that does not go back.\<close>

definition clockOK :: "gotime \<Rightarrow> tickObs list \<Rightarrow> bool" where
  "clockOK t0 obs \<longleftrightarrow> 0 \<le> t0 \<and> (\<forall>n < length obs. tickAt t0 obs n \<le> toNow (obs ! n) \<and> 0 < toNow (obs ! n)
     \<and> toNow (obs ! n) < 2 ^ 63 * second \<and> 0 \<le> toRecv (obs ! n) \<and> toRecv (obs ! n) \<le> unix_of (toNow (obs ! n)))"

lemma unix_of_mono: "a \<le> b \<Longrightarrow> unix_of a \<le> unix_of b"
  by (simp add: unix_of_def zdiv_mono1)

lemma wd_step:
  assumes clock: "clockOK t0 obs" and n: "n < length obs" and fs: "fs = wdRun s0 obs"
    and k: "wdKnows t0 obs fs n (wdAt s0 obs n)"
  shows "wdKnows t0 obs fs (Suc n) (wdAt s0 obs (Suc n)) \<and> (fs ! n \<longrightarrow> silentTunnel obs fs n \<or> noConns t0 obs fs n)"
proof -
  obtain w p where s: "wdAt s0 obs n = (w, p)" by (cases "wdAt s0 obs n")
  let ?ob = "obs ! n" let ?p = "seen ?ob p"
  obtain w' q where t: "watchdogTick (toNow ?ob) (w, ?p) = (w', q)" by fastforce
  have at: "wdAt s0 obs (Suc n) = (w', q)" using wdAt_Suc [OF n] s t by (simp add: wdTick_def)
  have f: "fs ! n \<longleftrightarrow> starting ?p < starting q" using wdRun_nth [OF n, of s0] fs s at by (simp add: seen_def)
  have p: "captchaImageURL ?p \<noteq> [] \<longleftrightarrow> toCaptcha ?ob" "activeConns ?p = toActive ?ob" "lastRecvTime ?p = max (lastRecvTime p) (toRecv ?ob)"
    by (simp_all add: seen_def)
  have last: "lastTickAt w = tickAt t0 obs n" "lastRecvTime p \<le> unix_of (tickAt t0 obs n)"
    using k by (simp_all add: wdKnows_def s)
  have c: "tickAt t0 obs n \<le> toNow ?ob" "0 < toNow ?ob" "toNow ?ob < 2 ^ 63 * second" "0 \<le> toRecv ?ob" "toRecv ?ob \<le> unix_of (toNow ?ob)"
    using clock n by (simp_all add: clockOK_def)
  have next_at: "tickAt t0 obs (Suc n) = toNow ?ob" by (simp add: tickAt_def)
  have recv: "lastRecvTime ?p \<le> unix_of (toNow ?ob)"
    using p(3) last(2) unix_of_mono [OF c(1)] c(5) by simp
  have past: "\<forall>k < n. toRecv (obs ! k) \<le> lastRecvTime p \<and> (fs ! k \<longrightarrow> unix_of (toNow (obs ! k)) \<le> lastRecvTime p)"
    using k by (simp add: wdKnows_def s)
  have kept: "\<forall>k < Suc n. toRecv (obs ! k) \<le> lastRecvTime q \<and> (fs ! k \<longrightarrow> unix_of (toNow (obs ! k)) \<le> lastRecvTime q)"
    if "lastRecvTime ?p \<le> lastRecvTime q" "fs ! n \<longrightarrow> lastRecvTime q = unix_of (toNow ?ob)"
    using past that p(3) by (auto simp: less_Suc_eq)
  have skip: "skips t0 obs fs n \<longleftrightarrow> toNow ?ob - lastTickAt w > 90 * second \<or> toCaptcha ?ob \<or> fs ! n"
    by (simp add: skips_def last)
  have zero: "zeroConnSince w \<noteq> 0 \<longrightarrow> (\<exists>j < n. toNow (obs ! j) = zeroConnSince w \<and> toActive (obs ! j) = 0 \<and> \<not> skips t0 obs fs j
      \<and> (\<forall>k. j < k \<and> k < n \<and> \<not> skips t0 obs fs k \<longrightarrow> toActive (obs ! k) = 0))"
    using k by (simp add: wdKnows_def s)
  have more: "zeroConnSince w \<noteq> 0 \<longrightarrow> (\<exists>j < Suc n. toNow (obs ! j) = zeroConnSince w \<and> toActive (obs ! j) = 0 \<and> \<not> skips t0 obs fs j
      \<and> (\<forall>k. j < k \<and> k < Suc n \<and> \<not> skips t0 obs fs k \<longrightarrow> toActive (obs ! k) = 0))"
    if "\<not> skips t0 obs fs n \<Longrightarrow> toActive ?ob = 0"
    using zero that by (metis less_Suc_eq)
  from t show ?thesis
  proof (cases rule: tick_cases)
    case Frozen
    then have "skips t0 obs fs n" "\<not> fs ! n" using skip f by auto
    then show ?thesis using Frozen kept recv more unfolding at wdKnows_def next_at by simp
  next
    case Pending
    then have "skips t0 obs fs n" "\<not> fs ! n" using skip f p(1) by auto
    then show ?thesis using Pending kept recv more unfolding at wdKnows_def next_at by simp
  next
    case Silent
    then have fn: "fs ! n" "skips t0 obs fs n" using skip f by auto
    have old: "toNow ?ob - time_Unix x > 2 * minute" if "x \<le> lastRecvTime ?p" "0 \<le> x + unixToInternal" for x
    proof -
      have "lastRecvTime ?p + unixToInternal < 2 ^ 63" using recv c(3) by (simp add: unix_of_def second_def)
      then have "time_Unix x \<le> time_Unix (lastRecvTime ?p)" using that by (simp add: time_Unix_def wrap64_id second_def)
      then show ?thesis using Silent(4) by simp
    qed
    have "silentTunnel obs fs n" unfolding silentTunnel_def
    proof (intro conjI allI impI)
      show "0 < toActive ?ob" using Silent(3) p(2) by simp
      fix k
      show "toNow ?ob - time_Unix (toRecv (obs ! k)) > 2 * minute" if "k \<le> n"
      proof (rule old)
        show "toRecv (obs ! k) \<le> lastRecvTime ?p" using past that p(3) by (auto simp: le_less)
        show "0 \<le> toRecv (obs ! k) + unixToInternal" using clock that n by (simp add: clockOK_def unixToInternal_def)
      qed
      show "toNow ?ob - time_Unix (unix_of (toNow (obs ! k))) > 2 * minute" if "k < n" "fs ! k"
      proof (rule old)
        show "unix_of (toNow (obs ! k)) \<le> lastRecvTime ?p" using past that p(3) by auto
        have "0 < toNow (obs ! k)" using clock that n by (simp add: clockOK_def)
        then show "0 \<le> unix_of (toNow (obs ! k)) + unixToInternal" by (simp add: unix_of_def pos_imp_zdiv_nonneg_iff)
      qed
    qed
    then show ?thesis using Silent kept recv more fn unfolding at wdKnows_def next_at by simp
  next
    case First
    then have "\<not> fs ! n" "\<not> skips t0 obs fs n" using skip f p(1) by auto
    moreover have "\<exists>j < Suc n. toNow (obs ! j) = toNow ?ob \<and> toActive (obs ! j) = 0 \<and> \<not> skips t0 obs fs j
        \<and> (\<forall>k. j < k \<and> k < Suc n \<and> \<not> skips t0 obs fs k \<longrightarrow> toActive (obs ! k) = 0)"
      using calculation First(3) p(2) by (intro exI [of _ n]) simp
    ultimately show ?thesis using First kept recv unfolding at wdKnows_def next_at by simp
  next
    case Dead
    then have fn: "fs ! n" using f by auto
    have "noConns t0 obs fs n" using zero Dead(3,4,5) p(2) unfolding noConns_def by auto
    then show ?thesis using Dead kept recv fn unfolding at wdKnows_def next_at by simp
  next
    case Still
    then have "\<not> fs ! n" using f by auto
    then show ?thesis using Still kept recv more p(2) unfolding at wdKnows_def next_at by simp
  next
    case Alive
    then have "\<not> fs ! n" using f by auto
    then show ?thesis using Alive kept recv unfolding at wdKnows_def next_at by simp
  qed
qed


section \<open>Examples\<close>

text \<open>Two calls of \<open>Resume\<close> before the goroutines of either run: three starts on the same, live context.\<close>

theorem sessions_exclusive_witness:
  "\<forall>cp. \<exists>p. reach lifeInit lifeStep p \<and> launched p = [2, 2, 2] \<and> sessCancelled p = [True, True, False]"
proof
  fix cp
  let ?p0 = "goStart (newProxyState cp)"
  define p2 where "p2 = Resume' (Resume' ?p0)"
  have p2: "sessCancelled p2 = [True, True, False]" "starting p2 = 3" "launched p2 = []"
    by (simp_all add: p2_def Resume'_def newSession_def cancelSession_def goStart_def newProxyState_def Let_def)
  define p3 where "p3 = p2\<lparr>starting := 2, launched := [2]\<rparr>"
  define p4 where "p4 = p2\<lparr>starting := 1, launched := [2, 2]\<rparr>"
  define p5 where "p5 = p2\<lparr>starting := 0, launched := [2, 2, 2]\<rparr>"
  have "reach lifeInit lifeStep ?p0" by (rule reach_init) (auto simp: lifeInit_def)
  then have "reach lifeInit lifeStep (Resume' ?p0)" by (rule reach_step) (rule lifeStep.resume)
  then have "reach lifeInit lifeStep p2" unfolding p2_def by (rule reach_step) (rule lifeStep.resume)
  then have "reach lifeInit lifeStep p3" by (rule reach_step) (rule lifeStep.reads, simp add: startReads_def p2 p3_def)
  then have "reach lifeInit lifeStep p4" by (rule reach_step) (rule lifeStep.reads, simp add: startReads_def p2 p3_def p4_def)
  then have r: "reach lifeInit lifeStep p5" by (rule reach_step) (rule lifeStep.reads, simp add: startReads_def p2 p4_def p5_def)
  from sessions_exclusive [OF r] have "(\<forall>i \<in> set (launched p5). i < length (sessCancelled p5))" by blast
  then show "\<exists>p. reach lifeInit lifeStep p \<and> launched p = [2, 2, 2] \<and> sessCancelled p = [True, True, False]"
    using r p2 by (intro exI [of _ p5]) (simp add: p5_def)
qed

text \<open>
  One tick without connections, then three with five connections while a captcha is pending, then one tick
  without: the last starts the connections again, although they were only missing at that tick.
\<close>

definition exT0 :: gotime where "exT0 = 62135596800000000000"

definition exObs :: "tickObs list" where
  "exObs = map (\<lambda>i. \<lparr>toNow = exT0 + int i * 85000000000, toCaptcha = (1 < i \<and> i < 5), toActive = (if 1 < i \<and> i < 5 then 5 else 0),
     toTx = 0, toRecv = 0\<rparr>) [1..<6]"


end
