(* ===== verification/Probe.thy ===== *)
theory Probe
  imports Bytes CredPool Boot
begin

text \<open>
  The life of one session after its handshake, from \<open>runDTLSSession\<close>, \<open>runSRTPSession\<close> and \<open>runWrapASession\<close> of
  \<open>proxy.go\<close>: the liveness probe and the receive loop; and what happens before, when the relay is set up: which
  resources are open, and what an error does to the slot the credential came from.
\<close>

section \<open>Probe packets\<close>

definition probePingMagic :: bytes where "probePingMagic = [0xff, 0x50, 0x4e, 0x47]"

definition isProbePacket :: "bytes \<Rightarrow> bool" where
  "isProbePacket buf \<longleftrightarrow> length probePingMagic \<le> length buf \<and> take (length probePingMagic) buf = probePingMagic"

definition pingPkt :: "64 word \<Rightarrow> bytes" where
  "pingPkt n = probePingMagic @ PutUint64 n"

definition probeInterval :: duration where "probeInterval = 30 * second"
definition probeStaleThreshold :: duration where "probeStaleThreshold = 120 * second"

section \<open>One connection\<close>

text \<open>
  The proxy's fields for the connection, which outlive a session, then the variables of the probe goroutine: the
  number sent last, the last tick, the number an active probe waits for with its deadline, whether the
  goroutine has ended and whether it cancelled the session. \<open>sent\<close> and \<open>delivered\<close> are the pings written and the
  packets handed to WireGuard. The tunnel's \<open>lastRecvTime\<close> is in \<open>Sessions\<close>.
\<close>

record probeState =
  serverProbeable :: bool
  lastPongTime :: int
  lastPingSeq :: "64 word"
  lastPongSeq :: "64 word"
  firstPingAt :: int
  firstPongAt :: int
  lastActiveProbeAt :: int
  lastTxAt :: int
  lastRxAt :: int
  pSeq :: "64 word"
  pLastTick :: gotime
  pWaiting :: "(64 word \<times> gotime) option"
  pEnded :: bool
  pKilled :: bool
  sent :: "bytes list"
  delivered :: "bytes list"

definition startProbe :: "gotime \<Rightarrow> probeState \<Rightarrow> probeState" where
  "startProbe now s = s\<lparr>lastPongTime := unix_of now, pSeq := 0, pLastTick := now, pWaiting := None, pEnded := False,
     pKilled := False, sent := [], delivered := []\<rparr>"

definition unixNano :: "gotime \<Rightarrow> int" where "unixNano t = t - unixToInternal * second"

text \<open>\<open>CompareAndSwap(0, v)\<close>.\<close>

definition casZero :: "int \<Rightarrow> int \<Rightarrow> int" where "casZero old v = (if old = 0 then v else old)"

text \<open>A ping: it is numbered and written; if the write fails the goroutine ends.\<close>

definition sendPing :: "gotime \<Rightarrow> bool \<Rightarrow> probeState \<Rightarrow> probeState" where
  "sendPing now writeOK s =
     (let s1 = s\<lparr>pSeq := pSeq s + 1\<rparr> in
      if \<not> writeOK then s1\<lparr>pEnded := True\<rparr>
      else s1\<lparr>sent := sent s1 @ [pingPkt (pSeq s1)], lastPingSeq := pSeq s1, firstPingAt := casZero (firstPingAt s1) (unix_of now)\<rparr>)"

definition killConn :: "probeState \<Rightarrow> probeState" where "killConn s = s\<lparr>pKilled := True, pEnded := True\<rparr>"

definition probeTick :: "gotime \<Rightarrow> bool \<Rightarrow> probeState \<Rightarrow> probeState" where
  "probeTick now writeOK s =
     (if now - pLastTick s > 90 * second then s\<lparr>lastPongTime := unix_of now, pLastTick := now\<rparr>
      else
        let s1 = sendPing now writeOK (s\<lparr>pLastTick := now\<rparr>) in
        if pEnded s1 then s1
        else if serverProbeable s1 \<and> now - time_Unix (lastPongTime s1) > probeStaleThreshold then killConn s1
        else s1)"

text \<open>
  A wake-up at \<open>now\<close>; the ping is sent at \<open>later\<close>, after a random pause below 300 ms.
\<close>

definition wakeProbes :: "gotime \<Rightarrow> probeState \<Rightarrow> bool" where
  "wakeProbes now s \<longleftrightarrow> serverProbeable s
     \<and> \<not> (lastActiveProbeAt s > 0 \<and> now - time_Unix (lastActiveProbeAt s) < 30 * second)
     \<and> \<not> (lastTxAt s > unixNano now - 5 * second \<or> lastRxAt s > unixNano now - 5 * second)"

definition probeWake :: "gotime \<Rightarrow> gotime \<Rightarrow> bool \<Rightarrow> probeState \<Rightarrow> probeState" where
  "probeWake now later writeOK s =
     (if \<not> wakeProbes now s then s
      else
        let s1 = sendPing later writeOK (s\<lparr>lastActiveProbeAt := unix_of later\<rparr>) in
        if pEnded s1 then s1 else s1\<lparr>pWaiting := Some (pSeq s1, later + 30 * second)\<rparr>)"

definition probePoll :: "gotime \<Rightarrow> probeState \<Rightarrow> probeState" where
  "probePoll now s =
     (case pWaiting s of None \<Rightarrow> s
      | Some (sentSeq, deadline) \<Rightarrow>
          if now < deadline then (if lastPongSeq s \<ge> sentSeq then s\<lparr>pWaiting := None, pLastTick := now\<rparr> else s)
          else killConn s)"

text \<open>The receive loop on a packet: a probe is counted and kept from WireGuard.\<close>

definition recvPacket :: "gotime \<Rightarrow> bytes \<Rightarrow> probeState \<Rightarrow> probeState" where
  "recvPacket now buf s =
     (if isProbePacket buf then
        s\<lparr>serverProbeable := True, lastPongTime := unix_of now,
          lastPongSeq := (if length buf \<ge> length probePingMagic + 8 then Uint64 (take 8 (drop (length probePingMagic) buf)) else lastPongSeq s),
          firstPongAt := casZero (firstPongAt s) (unix_of now)\<rparr>
      else s\<lparr>lastRxAt := unixNano now, delivered := delivered s @ [buf]\<rparr>)"

datatype probeEv = Tick gotime bool | Wake gotime gotime bool | Poll gotime | Recv gotime bytes | Sent gotime

text \<open>While an active probe waits, the goroutine takes neither ticks nor wake-ups.\<close>

fun probeEvent :: "probeEv \<Rightarrow> probeState \<Rightarrow> probeState" where
  "probeEvent (Tick now ok) s = (if pEnded s \<or> pWaiting s \<noteq> None then s else probeTick now ok s)"
| "probeEvent (Wake now later ok) s = (if pEnded s \<or> pWaiting s \<noteq> None then s else probeWake now later ok s)"
| "probeEvent (Poll now) s = (if pEnded s then s else probePoll now s)"
| "probeEvent (Recv now buf) s = recvPacket now buf s"
| "probeEvent (Sent now) s = s\<lparr>lastTxAt := unixNano now\<rparr>"

section \<open>Read errors\<close>

text \<open>
  What a failed read does: the loop goes on, if the tunnel as a whole received something in the last three minutes or the
  process was frozen; otherwise it ends. The result says whether the tunnel's clock is reset.
\<close>

datatype readEnd = ReadOn | ReadOnReset | ReadStop

definition onReadError :: "bool \<Rightarrow> string \<Rightarrow> duration \<Rightarrow> int \<Rightarrow> gotime \<Rightarrow> readEnd" where
  "onReadError connDone err elapsed lastRecv now =
     (if connDone then ReadStop
      else if Contains err ''timeout'' \<or> Contains err ''deadline exceeded'' then
        (if elapsed > 90 * second then ReadOnReset
         else if lastRecv > 0 \<and> now - time_Unix lastRecv < 3 * minute then ReadOn else ReadStop)
      else ReadStop)"

section \<open>Errors of the relay\<close>

definition isAuthError :: "string option \<Rightarrow> bool" where
  "isAuthError err = (case err of None \<Rightarrow> False | Some s \<Rightarrow> Contains s ''error 401:'' \<or> Contains s ''error 403:'')"

definition isQuotaError :: "string option \<Rightarrow> bool" where
  "isQuotaError err = (case err of None \<Rightarrow> False | Some s \<Rightarrow> Contains s ''error 486:'')"

text \<open>A quota error saturates the slot, an authentication error drops its credential.\<close>

definition attributeError :: "gotime \<Rightarrow> bool \<Rightarrow> int \<Rightarrow> string option \<Rightarrow> credPool \<Rightarrow> credPool" where
  "attributeError now wr slot err cp =
     (if isQuotaError err then fst (markSaturated now slot cp)
      else if isAuthError err then invalidateEntry now wr slot cp
      else cp)"

text \<open>What the logger of the TURN client counts.\<close>

definition flagsAuth :: "string \<Rightarrow> bool" where
  "flagsAuth msg \<longleftrightarrow> Contains msg ''Unauthorized'' \<or> Contains msg ''Forbidden'' \<or> Contains msg ''error 401:'' \<or> Contains msg ''error 403:''"

definition countsTransient :: "string \<Rightarrow> bool" where
  "countsTransient msg \<longleftrightarrow> Contains msg ''error response''
     \<and> (Contains msg ''Fail to refresh permissions'' \<or> Contains msg ''Failed to bind channel'')"

section \<open>Setting up a relay\<close>

text \<open>
  \<open>setupSRTPSession\<close> with the control connection over TCP: the steps that may fail, in order, with what each opens. Closing the TURN client does not close the
  control connection.
\<close>

datatype resource = CtlConn | TurnClient | RelayConn | SrtpConn

datatype setupStep = DialCtl | NewClient | Listen | Allocate | Permission | Handshake

fun opens :: "setupStep \<Rightarrow> resource option" where
  "opens DialCtl = Some CtlConn"
| "opens NewClient = Some TurnClient"
| "opens Listen = None"
| "opens Allocate = Some RelayConn"
| "opens Permission = None"
| "opens Handshake = Some SrtpConn"

text \<open>What the code closes when a step fails.\<close>

fun closesOnFailure :: "setupStep \<Rightarrow> resource list" where
  "closesOnFailure DialCtl = []"
| "closesOnFailure NewClient = [CtlConn]"
| "closesOnFailure Listen = [TurnClient, CtlConn]"
| "closesOnFailure Allocate = [TurnClient, CtlConn]"
| "closesOnFailure Permission = [RelayConn, TurnClient, CtlConn]"
| "closesOnFailure Handshake = [RelayConn, TurnClient, CtlConn]"

fun errorPrefix :: "setupStep \<Rightarrow> string" where
  "errorPrefix DialCtl = ''dial tcp to relay: ''"
| "errorPrefix NewClient = ''turn.NewClient: ''"
| "errorPrefix Listen = ''turn listen: ''"
| "errorPrefix Allocate = ''turn allocate: ''"
| "errorPrefix Permission = ''turn create permission: ''"
| "errorPrefix Handshake = ''srtp handshake: ''"

fun runSetup :: "(setupStep \<Rightarrow> string option) \<Rightarrow> setupStep list \<Rightarrow> resource list \<Rightarrow> string option \<times> resource list" where
  "runSetup fails [] open' = (None, open')"
| "runSetup fails (st # sts) open' =
     (case fails st of
        Some e \<Rightarrow> (Some (errorPrefix st @ e), filter (\<lambda>r. r \<notin> set (closesOnFailure st)) open')
      | None \<Rightarrow> runSetup fails sts (case opens st of None \<Rightarrow> open' | Some r \<Rightarrow> open' @ [r]))"

definition setupSRTPSession :: "(setupStep \<Rightarrow> string option) \<Rightarrow> string option \<times> resource list" where
  "setupSRTPSession fails = runSetup fails [DialCtl, NewClient, Listen, Allocate, Permission, Handshake] []"

text \<open>\<open>srtpSessionConn.Close\<close>: once, in this order, with the first error returned; the client's close returns none.\<close>

record srtpConn =
  closedOnce :: bool
  closeLog :: "resource list"

definition closeSrtpSession :: "(resource \<Rightarrow> string option) \<Rightarrow> srtpConn \<Rightarrow> srtpConn \<times> string option" where
  "closeSrtpSession closeErr s =
     (if closedOnce s then (s, None)
      else (\<lparr>closedOnce = True, closeLog = closeLog s @ [SrtpConn, RelayConn, TurnClient, CtlConn]\<rparr>,
        case closeErr SrtpConn of Some e \<Rightarrow> Some e
        | None \<Rightarrow> (case closeErr RelayConn of Some e \<Rightarrow> Some e | None \<Rightarrow> closeErr CtlConn)))"

section \<open>An SRTP session\<close>

text \<open>
  \<open>runSRTPSession\<close> seen from the pool: a slot is acquired, the relay is set up, an error is attributed to that slot, and
  on every way out the slot is released. \<open>acquired\<close> is the result of the pool's \<open>get\<close>; \<open>later\<close> is the time of the release
  and \<open>run\<close> what others do to the pool while the session lives.
\<close>

definition runSRTPSession ::
  "gotime \<Rightarrow> gotime \<Rightarrow> bool \<Rightarrow> (credPool \<times> (connErr + int)) \<Rightarrow> (setupStep \<Rightarrow> string option) \<Rightarrow> (credPool \<Rightarrow> credPool)
    \<Rightarrow> credPool \<times> connErr option" where
  "runSRTPSession now later wr acquired fails run =
     (case acquired of
        (cp, Inl e) \<Rightarrow> (cp, Some e)
      | (cp, Inr slot) \<Rightarrow>
          (case fst (setupSRTPSession fails) of
             Some e \<Rightarrow> (release later slot (attributeError now wr slot (Some e) cp), Some (ErrOther (''SRTP setup: '' @ e)))
           | None \<Rightarrow> (release later slot (run cp), None)))"

end
