(* ===== verification/ProbeProps.thy ===== *)
theory ProbeProps
  imports Probe
begin

text \<open>
  When the liveness probe cancels a connection, what the receive loop passes on, and that setting up a relay leaves
  nothing open and no slot held.
\<close>

section \<open>Runs of one session\<close>

definition probeAt :: "probeState \<Rightarrow> probeEv list \<Rightarrow> nat \<Rightarrow> probeState" where
  "probeAt s evs n = foldl (\<lambda>s e. probeEvent e s) s (take n evs)"

lemma probeAt_0 [simp]: "probeAt s evs 0 = s"
  by (simp add: probeAt_def)

lemma probeAt_Suc: "n < length evs \<Longrightarrow> probeAt s evs (Suc n) = probeEvent (evs ! n) (probeAt s evs n)"
  by (simp add: probeAt_def take_Suc_conv_app_nth)

fun evTime :: "probeEv \<Rightarrow> gotime" where
  "evTime (Tick now ok) = now"
| "evTime (Wake now later ok) = later"
| "evTime (Poll now) = now"
| "evTime (Recv now buf) = now"
| "evTime (Sent now) = now"

definition timeAt :: "gotime \<Rightarrow> probeEv list \<Rightarrow> nat \<Rightarrow> gotime" where
  "timeAt t0 evs n = (if n = 0 then t0 else evTime (evs ! (n - 1)))"

text \<open>The events are in the order of time, after the session's start; Go's clock stays far below \<open>2 ^ 63\<close> seconds.\<close>

definition inOrder :: "gotime \<Rightarrow> probeEv list \<Rightarrow> bool" where
  "inOrder t0 evs \<longleftrightarrow> 0 \<le> t0 \<and> (\<forall>n \<le> length evs. timeAt t0 evs n < 2 ^ 63 * second)
     \<and> (\<forall>n < length evs. timeAt t0 evs n \<le> timeAt t0 evs (Suc n))"

lemma inOrder_le:
  assumes "inOrder t0 evs" "i \<le> n" "n \<le> length evs"
  shows "timeAt t0 evs i \<le> timeAt t0 evs n"
  using assms(2,3)
proof (induction n)
  case (Suc n)
  then show ?case using assms(1) unfolding inOrder_def by (metis Suc_le_eq le_Suc_eq less_imp_le order.trans order_refl)
qed simp

text \<open>A clock value in whole seconds is not later than the clock.\<close>

lemma time_of_unix:
  assumes "0 \<le> t" "t < 2 ^ 63 * second"
  shows "time_Unix (unix_of t) = t div second * second" "time_Unix (unix_of t) \<le> t"
proof -
  have "0 \<le> t div second" "t div second < 2 ^ 63" using assms by (simp_all add: second_def)
  then show e: "time_Unix (unix_of t) = t div second * second"
    by (simp add: time_Unix_def unix_of_def wrap64_id)
  show "time_Unix (unix_of t) \<le> t" unfolding e by (simp add: second_def)
qed

lemma time_Unix_le:
  assumes "unix_of t \<le> a" "a \<le> unix_of u" "0 \<le> t" "u < 2 ^ 63 * second"
  shows "time_Unix (unix_of t) \<le> time_Unix a"
proof -
  have "0 \<le> t div second" "u div second < 2 ^ 63" using assms(3,4) by (simp_all add: second_def)
  then show ?thesis using assms(1,2) by (simp add: time_Unix_def unix_of_def wrap64_id second_def)
qed

lemma unix_of_le: "a \<le> b \<Longrightarrow> unix_of a \<le> unix_of b"
  by (simp add: unix_of_def second_def)

section \<open>The invariant of a session\<close>

definition pongBefore :: "probeEv list \<Rightarrow> nat \<Rightarrow> gotime \<Rightarrow> bool" where
  "pongBefore evs n t \<longleftrightarrow> (\<exists>k < n. \<exists>buf. evs ! k = Recv t buf \<and> isProbePacket buf)"

text \<open>The active probe that is waited for: the wake-up that sent it, and every look at the pongs since found too few.\<close>

definition probeSentAt :: "probeState \<Rightarrow> probeEv list \<Rightarrow> nat \<Rightarrow> nat \<Rightarrow> 64 word \<Rightarrow> gotime \<Rightarrow> bool" where
  "probeSentAt s evs n k q d \<longleftrightarrow> k < n \<and> (\<exists>t later. evs ! k = Wake t later True \<and> d = later + 30 * second \<and> wakeProbes t (probeAt s evs k))
     \<and> pingPkt q = last (sent (probeAt s evs (Suc k)))
     \<and> (\<forall>j t. k < j \<and> j < n \<and> evs ! j = Poll t \<longrightarrow> lastPongSeq (probeAt s evs j) < q)"

definition probeInv :: "gotime \<Rightarrow> probeState \<Rightarrow> probeEv list \<Rightarrow> nat \<Rightarrow> bool" where
  "probeInv t0 s evs n \<longleftrightarrow> (let z = probeAt s evs n in
     unix_of t0 \<le> lastPongTime z \<and> lastPongTime z \<le> unix_of (timeAt t0 evs n)
     \<and> (\<forall>t. pongBefore evs n t \<longrightarrow> unix_of t \<le> lastPongTime z)
     \<and> (\<forall>q d. pWaiting z = Some (q, d) \<and> \<not> pEnded z \<longrightarrow> serverProbeable z \<and> (\<exists>k. probeSentAt s evs n k q d)))"

lemma pongBefore_Suc: "pongBefore evs (Suc n) t \<longleftrightarrow> pongBefore evs n t \<or> (\<exists>buf. evs ! n = Recv t buf \<and> isProbePacket buf)"
  by (auto simp: pongBefore_def less_Suc_eq)

lemma pongBefore_time:
  assumes "inOrder t0 evs" "n \<le> length evs" "pongBefore evs n t"
  shows "t \<le> timeAt t0 evs n" "0 \<le> t"
proof -
  obtain k buf where k: "k < n" "evs ! k = Recv t buf" using assms(3) by (auto simp: pongBefore_def)
  then have t: "t = timeAt t0 evs (Suc k)" by (simp add: timeAt_def)
  show "t \<le> timeAt t0 evs n" unfolding t by (rule inOrder_le [OF assms(1)]) (use k assms(2) in simp_all)
  have "timeAt t0 evs 0 \<le> t" unfolding t by (rule inOrder_le [OF assms(1)]) (use k assms(2) in simp_all)
  then have "t0 \<le> t" by (simp add: timeAt_def)
  then show "0 \<le> t" using assms(1) by (simp add: inOrder_def)
qed

lemma probeSentAt_Suc:
  assumes "probeSentAt s evs n k q d" "\<forall>t. evs ! n = Poll t \<longrightarrow> lastPongSeq (probeAt s evs n) < q"
  shows "probeSentAt s evs (Suc n) k q d"
  using assms by (auto simp: probeSentAt_def less_Suc_eq)

text \<open>What one event does to the fields the invariant reads.\<close>

lemma sendPing_fields [simp]:
  "lastPongTime (sendPing now ok s) = lastPongTime s" "serverProbeable (sendPing now ok s) = serverProbeable s"
  "pWaiting (sendPing now ok s) = pWaiting s" "pKilled (sendPing now ok s) = pKilled s"
  "pEnded (sendPing now ok s) = (pEnded s \<or> \<not> ok)" "lastPongSeq (sendPing now ok s) = lastPongSeq s"
  "delivered (sendPing now ok s) = delivered s" "pSeq (sendPing now ok s) = pSeq s + 1"
  "sent (sendPing now ok s) = (if ok then sent s @ [pingPkt (pSeq s + 1)] else sent s)"
  by (simp_all add: sendPing_def Let_def)

lemma killConn_fields [simp]:
  "lastPongTime (killConn s) = lastPongTime s" "serverProbeable (killConn s) = serverProbeable s"
  "pWaiting (killConn s) = pWaiting s" "pKilled (killConn s)" "pEnded (killConn s)" "delivered (killConn s) = delivered s"
  "lastPongSeq (killConn s) = lastPongSeq s"
  by (simp_all add: killConn_def)

lemma event_pongTime:
  "lastPongTime (probeEvent e z) = lastPongTime z
   \<or> lastPongTime (probeEvent e z) = unix_of (evTime e)"
  by (cases e) (auto simp: probeTick_def probeWake_def probePoll_def recvPacket_def Let_def split: option.splits)

lemma event_pong: "isProbePacket buf \<Longrightarrow> lastPongTime (probeEvent (Recv t buf) z) = unix_of t"
  by (simp add: recvPacket_def)

lemma event_probeable: "serverProbeable z \<Longrightarrow> serverProbeable (probeEvent e z)"
  by (cases e) (auto simp: probeTick_def probeWake_def probePoll_def recvPacket_def Let_def split: option.splits)

lemma event_waiting:
  assumes "pWaiting (probeEvent e z) = Some (q, d)" "\<not> pEnded (probeEvent e z)"
  shows "(pWaiting z = Some (q, d) \<and> \<not> pEnded z \<and> (\<forall>t. e = Poll t \<longrightarrow> lastPongSeq z < q))
    \<or> (\<exists>t later. e = Wake t later True \<and> d = later + 30 * second \<and> wakeProbes t z \<and> serverProbeable z
         \<and> pingPkt q = last (sent (probeEvent e z)))"
  using assms
  by (cases e) (auto simp: probeTick_def probeWake_def probePoll_def recvPacket_def wakeProbes_def Let_def
      split: option.splits if_splits)

lemma event_kills:
  assumes "pKilled (probeEvent e z)" "\<not> pKilled z"
  shows "\<not> pEnded z \<and> ((\<exists>now. e = Tick now True \<and> serverProbeable z \<and> now - time_Unix (lastPongTime z) > probeStaleThreshold)
    \<or> (\<exists>now q d. e = Poll now \<and> pWaiting z = Some (q, d) \<and> d \<le> now))"
  using assms
  by (cases e) (auto simp: probeTick_def probeWake_def probePoll_def recvPacket_def Let_def split: option.splits if_splits)

lemma probeInv_step:
  assumes "inOrder t0 evs" "n < length evs" "probeInv t0 s evs n"
  shows "probeInv t0 s evs (Suc n)"
proof -
  define z where "z = probeAt s evs n"
  define z' where "z' = probeEvent (evs ! n) z"
  have z': "probeAt s evs (Suc n) = z'" using probeAt_Suc [OF assms(2)] by (simp add: z_def z'_def)
  have at: "evTime (evs ! n) = timeAt t0 evs (Suc n)" by (simp add: timeAt_def)
  have le: "timeAt t0 evs n \<le> timeAt t0 evs (Suc n)" using assms(1,2) by (simp add: inOrder_def)
  have I: "unix_of t0 \<le> lastPongTime z" "lastPongTime z \<le> unix_of (timeAt t0 evs n)" "\<forall>t. pongBefore evs n t \<longrightarrow> unix_of t \<le> lastPongTime z"
    "\<forall>q d. pWaiting z = Some (q, d) \<and> \<not> pEnded z \<longrightarrow> serverProbeable z \<and> (\<exists>k. probeSentAt s evs n k q d)"
    using assms(3) by (simp_all add: probeInv_def Let_def z_def)
  have up: "lastPongTime z \<le> unix_of (timeAt t0 evs (Suc n))" using I(2) unix_of_le [OF le] by simp
  have pt: "lastPongTime z' = lastPongTime z \<or> lastPongTime z' = unix_of (timeAt t0 evs (Suc n))"
    using event_pongTime [of "evs ! n" z] at by (simp add: z'_def)
  have grow: "lastPongTime z \<le> lastPongTime z'" using pt up by auto
  have "unix_of t \<le> lastPongTime z'" if pb: "pongBefore evs (Suc n) t" for t
  proof (cases "pongBefore evs n t")
    case True
    then show ?thesis using I(3) grow by (meson order.trans)
  next
    case False
    then obtain buf where "evs ! n = Recv t buf" "isProbePacket buf" using pb by (auto simp: pongBefore_Suc)
    then show ?thesis using event_pong [of buf t z] by (simp add: z'_def)
  qed
  moreover have "serverProbeable z' \<and> (\<exists>k. probeSentAt s evs (Suc n) k q d)" if w: "pWaiting z' = Some (q, d)" "\<not> pEnded z'" for q d
    using event_waiting [OF w [unfolded z'_def]]
  proof (elim disjE conjE exE)
    assume a: "pWaiting z = Some (q, d)" "\<not> pEnded z" "\<forall>t. evs ! n = Poll t \<longrightarrow> lastPongSeq z < q"
    then obtain k where "probeSentAt s evs n k q d" "serverProbeable z" using I(4) by blast
    then show ?thesis using probeSentAt_Suc [of s evs n k q d] a(3) event_probeable z_def z'_def by metis
  next
    fix t later assume a: "evs ! n = Wake t later True" "d = later + 30 * second" "wakeProbes t z" "serverProbeable z"
      "pingPkt q = last (sent (probeEvent (evs ! n) z))"
    then have "probeSentAt s evs (Suc n) n q d" using z' by (auto simp: probeSentAt_def z_def z'_def)
    then show ?thesis using a(4) event_probeable z'_def by blast
  qed
  moreover have "unix_of t0 \<le> lastPongTime z'" using I(1) grow by simp
  moreover have "lastPongTime z' \<le> unix_of (timeAt t0 evs (Suc n))" using pt up by auto
  ultimately show ?thesis unfolding probeInv_def Let_def z' by blast
qed

lemma probeInv_all:
  assumes "inOrder t0 evs" "n \<le> length evs"
  shows "probeInv t0 (startProbe t0 s) evs n"
  using assms(2)
proof (induction n)
  case 0
  then show ?case by (simp add: probeInv_def startProbe_def timeAt_def pongBefore_def)
next
  case (Suc n)
  then show ?case using probeInv_step [OF assms(1)] by simp
qed

text \<open>
  C35. In any session, whatever happens in it and whatever earlier sessions of the connection left behind: the
  probe cancels it only after the server answered some probe, and then either at a tick, with more than two minutes
  since the session started and since every answer in it, or thirty seconds after a ping sent on a wake-up,
  when no look at the answers since then saw its number or a later one.
\<close>

theorem probe_kill_reasons:
  assumes "inOrder t0 evs" "n < length evs"
    and "\<not> pKilled (probeAt (startProbe t0 s) evs n)" "pKilled (probeAt (startProbe t0 s) evs (Suc n))"
  shows "serverProbeable (probeAt (startProbe t0 s) evs n)
    \<and> ((\<exists>now. evs ! n = Tick now True \<and> now - t0 div second * second > probeStaleThreshold
         \<and> (\<forall>t. pongBefore evs n t \<longrightarrow> now - t div second * second > probeStaleThreshold))
      \<or> (\<exists>now k q d. evs ! n = Poll now \<and> d \<le> now \<and> probeSentAt (startProbe t0 s) evs n k q d))"
proof -
  let ?z = "probeAt (startProbe t0 s) evs n"
  have I: "probeInv t0 (startProbe t0 s) evs n" using probeInv_all assms(1,2) by simp
  have e: "pKilled (probeEvent (evs ! n) ?z)" using assms(2,4) by (simp add: probeAt_Suc)
  note kill = event_kills [OF e assms(3)]
  then show ?thesis
  proof (elim conjE disjE exE)
    fix now assume a: "evs ! n = Tick now True" "serverProbeable ?z" "probeStaleThreshold < now - time_Unix (lastPongTime ?z)"
    have bound: "now - t div second * second > probeStaleThreshold" if "unix_of t \<le> lastPongTime ?z" "0 \<le> t" "t < 2 ^ 63 * second" for t
    proof -
      have "lastPongTime ?z \<le> unix_of (timeAt t0 evs n)" "timeAt t0 evs n < 2 ^ 63 * second"
        using I assms(1,2) by (simp_all add: probeInv_def Let_def inOrder_def)
      then have "time_Unix (unix_of t) \<le> time_Unix (lastPongTime ?z)" using time_Unix_le that by blast
      then show ?thesis using a(3) time_of_unix(1) [OF that(2,3)] by simp
    qed
    have t0: "0 \<le> t0" "t0 < 2 ^ 63 * second" using assms(1) by (auto simp: inOrder_def timeAt_def)
    have "now - t0 div second * second > probeStaleThreshold" using bound [of t0] I t0 by (simp add: probeInv_def Let_def)
    moreover have "now - t div second * second > probeStaleThreshold" if p: "pongBefore evs n t" for t
    proof (rule bound)
      show "unix_of t \<le> lastPongTime ?z" using I p by (simp add: probeInv_def Let_def)
      have "t \<le> timeAt t0 evs n" "timeAt t0 evs n < 2 ^ 63 * second"
        using pongBefore_time [OF assms(1) _ p] assms(1,2) by (simp_all add: inOrder_def)
      then show "t < 2 ^ 63 * second" by simp
      show "0 \<le> t" using pongBefore_time [OF assms(1) _ p] assms(2) by simp
    qed
    ultimately show ?thesis using a(1,2) by blast
  next
    fix now q d assume a: "\<not> pEnded ?z" "evs ! n = Poll now" "pWaiting ?z = Some (q, d)" "d \<le> now"
    then have "serverProbeable ?z" "\<exists>k. probeSentAt (startProbe t0 s) evs n k q d"
      using I by (auto simp: probeInv_def Let_def)
    then show ?thesis using a(2,4) by blast
  qed
qed

section \<open>What WireGuard gets\<close>

text \<open>The payloads received, without the answers to probes.\<close>

fun payloads :: "probeEv list \<Rightarrow> bytes list" where
  "payloads [] = []"
| "payloads (e # es) = (case e of Recv t buf \<Rightarrow> if isProbePacket buf then payloads es else buf # payloads es | _ \<Rightarrow> payloads es)"

lemma delivered_run: "delivered (foldl (\<lambda>s e. probeEvent e s) s evs) = delivered s @ payloads evs"
proof (induction evs arbitrary: s)
  case (Cons e es)
  show ?case
    by (cases e) (auto simp: Cons.IH probeTick_def probeWake_def probePoll_def recvPacket_def Let_def split: option.splits)
qed simp

text \<open>A ping comes back as a pong with its number.\<close>

lemma pong_number: "isProbePacket (pingPkt n) \<and> lastPongSeq (recvPacket t (pingPkt n) s) = n"
  by (simp add: isProbePacket_def pingPkt_def recvPacket_def probePingMagic_def)

text \<open>
  The pong numbers of an earlier session are kept while the numbering starts again: an active probe of the new
  session is then taken for answered at once.
\<close>

lemma stale_echo_accepted:
  assumes "serverProbeable s" "lastPongSeq s = 50" "lastActiveProbeAt s = 0" "lastTxAt s = 0" "lastRxAt s = 0" "unixNano t0 \<ge> 5 * second"
  shows "let z = probeEvent (Poll (t0 + 1)) (probeEvent (Wake t0 t0 True) (startProbe t0 s))
     in pWaiting z = None \<and> \<not> pKilled z \<and> sent z = [pingPkt 1]"
  using assms by (simp add: startProbe_def probeWake_def wakeProbes_def sendPing_def probePoll_def Let_def second_def)

section \<open>Setting up a relay\<close>

text \<open>
  Setting up a relay, whichever step fails: everything that was opened is closed again, and the error names the
  step; without a failure exactly the four resources the session's close takes down are open. And a session releases
  its slot on every way out, after an error has saturated the slot, dropped its credential or left it alone.
\<close>

theorem session_setup_leaves_nothing:
  "(case setupSRTPSession fails of
      (None, open') \<Rightarrow> set open' = set (closeLog (fst (closeSrtpSession ce \<lparr>closedOnce = False, closeLog = []\<rparr>))) \<and> distinct open'
        \<and> (\<forall>st. fails st = None)
    | (Some e, open') \<Rightarrow> open' = [] \<and> (\<exists>st m. fails st = Some m \<and> e = errorPrefix st @ m))
   \<and> fst (closeSrtpSession ce (fst (closeSrtpSession ce s))) = fst (closeSrtpSession ce s)
   \<and> (case acquired of (cp, Inl e) \<Rightarrow> runSRTPSession now later wr acquired fails run = (cp, Some e)
      | (cp, Inr slot) \<Rightarrow> (\<exists>cp'. fst (runSRTPSession now later wr acquired fails run) = release later slot cp'
           \<and> (cp' = run cp \<or> cp' = cp \<or> cp' = fst (markSaturated now slot cp) \<or> cp' = invalidateEntry now wr slot cp)))"
proof -
  have steps: "P DialCtl \<Longrightarrow> P NewClient \<Longrightarrow> P Listen \<Longrightarrow> P Allocate \<Longrightarrow> P Permission \<Longrightarrow> P Handshake \<Longrightarrow> P st" for P :: "setupStep \<Rightarrow> bool" and st
    by (cases st) auto
  have a: "case setupSRTPSession fails of
      (None, open') \<Rightarrow> set open' = set (closeLog (fst (closeSrtpSession ce \<lparr>closedOnce = False, closeLog = []\<rparr>))) \<and> distinct open'
        \<and> (\<forall>st. fails st = None)
    | (Some e, open') \<Rightarrow> open' = [] \<and> (\<exists>st m. fails st = Some m \<and> e = errorPrefix st @ m)"
    by (auto simp: setupSRTPSession_def closeSrtpSession_def simp del: errorPrefix.simps split: option.splits intro: steps)
  have b: "fst (closeSrtpSession ce (fst (closeSrtpSession ce s))) = fst (closeSrtpSession ce s)"
    by (simp add: closeSrtpSession_def)
  have c: "case acquired of (cp, Inl e) \<Rightarrow> runSRTPSession now later wr acquired fails run = (cp, Some e)
      | (cp, Inr slot) \<Rightarrow> (\<exists>cp'. fst (runSRTPSession now later wr acquired fails run) = release later slot cp'
           \<and> (cp' = run cp \<or> cp' = cp \<or> cp' = fst (markSaturated now slot cp) \<or> cp' = invalidateEntry now wr slot cp))"
    by (auto simp: runSRTPSession_def attributeError_def split: prod.splits sum.splits option.splits)
  show ?thesis using a b c by blast
qed

section \<open>Example\<close>

text \<open>A connection of a proxy that has seen pongs gets none: it is cancelled at its second tick.\<close>

definition exConn :: probeState where
  "exConn = \<lparr>serverProbeable = True, lastPongTime = 0, lastPingSeq = 0, lastPongSeq = 50, firstPingAt = 0, firstPongAt = 0,
     lastActiveProbeAt = 0, lastTxAt = 0, lastRxAt = 0, pSeq = 9, pLastTick = 0, pWaiting = None, pEnded = True, pKilled = True,
     sent = [], delivered = []\<rparr>"

definition exStart :: gotime where "exStart = 62135596800000000000"

definition exEvents :: "probeEv list" where
  "exEvents = [Tick (exStart + 70000000000) True, Tick (exStart + 125000000000) True]"

theorem probe_kill_reasons_witness:
  "pKilled (probeAt (startProbe exStart exConn) exEvents 2)
   \<and> exStart + 125000000000 - exStart div second * second > probeStaleThreshold"
proof -
  have o: "inOrder exStart exEvents"
    by (auto simp: inOrder_def exEvents_def timeAt_def exStart_def second_def less_Suc_eq numeral_2_eq_2 le_Suc_eq)
  have k1: "\<not> pKilled (probeAt (startProbe exStart exConn) exEvents 1)"
    by (simp add: probeAt_def exEvents_def startProbe_def probeTick_def sendPing_def exConn_def exStart_def second_def Let_def
        time_Unix_def unix_of_def wrap64_def unixToInternal_def probeStaleThreshold_def)
  have k2: "pKilled (probeAt (startProbe exStart exConn) exEvents (Suc 1))"
    by (simp add: probeAt_def exEvents_def startProbe_def probeTick_def sendPing_def exConn_def exStart_def second_def Let_def
        time_Unix_def unix_of_def wrap64_def unixToInternal_def probeStaleThreshold_def killConn_def)
  have n: "(1 :: nat) < length exEvents" by (simp add: exEvents_def)
  from probe_kill_reasons [OF o n k1 k2]
  have "exStart + 125000000000 - exStart div second * second > probeStaleThreshold" by (auto simp: exEvents_def)
  then show ?thesis using k2 by (simp add: numeral_2_eq_2)
qed

end
