(* ===== verification/Bridge.thy ===== *)
theory Bridge
  imports VkCookie Boot Encoding
begin

text \<open>
  The functions exported to the app, from \<open>WireGuardBridge/bridge.go\<close>: the settings they take, the table of
  tunnels, and the calls that run on it at the same time. The table is protected by a lock, the entries are not:
  a call that works on an entry is a sequence of steps between which others run.
\<close>

section \<open>The WRAP key\<close>

definition keySpace :: "char \<Rightarrow> bool" where
  "keySpace c \<longleftrightarrow> (let n = (of_char c :: nat) in n = 32 \<or> n = 9 \<or> n = 10 \<or> n = 13)"

datatype wrapKeyErr = WrapKeyEmpty | WrapKeyNotHex | WrapKeyLength nat

definition decodeWrapKey :: "bool \<Rightarrow> string \<Rightarrow> wrapKeyErr + bytes" where
  "decodeWrapKey wanted hexStr =
     (if \<not> wanted then Inr []
      else let s = filter (\<lambda>c. \<not> keySpace c) hexStr in
        if s = [] then Inl WrapKeyEmpty
        else case hex_decode s of
            None \<Rightarrow> Inl WrapKeyNotHex
          | Some key \<Rightarrow> (if length key \<noteq> 32 then Inl (WrapKeyLength (length key)) else Inr key))"

section \<open>Paths\<close>

text \<open>\<open>filepath.Clean\<close>, \<open>Dir\<close> and \<open>Join\<close> on Unix.\<close>

fun cleanParts :: "bool \<Rightarrow> string list \<Rightarrow> string list \<Rightarrow> string list" where
  "cleanParts rooted acc [] = rev acc"
| "cleanParts rooted acc (p # ps) =
     (if p = [] \<or> p = ''.'' then cleanParts rooted acc ps
      else if p = ''..'' then
        (case acc of [] \<Rightarrow> cleanParts rooted (if rooted then [] else [p]) ps
         | a # acc' \<Rightarrow> cleanParts rooted (if a = ''..'' then p # acc else acc') ps)
      else cleanParts rooted (p # acc) ps)"

definition CleanPath :: "string \<Rightarrow> string" where
  "CleanPath path =
     (let rooted = (path \<noteq> [] \<and> hd path = CHR ''/''); out = Join ''/'' (cleanParts rooted [] (Split CHR ''/'' path)) in
      if rooted then ''/'' @ out else if out = [] then ''.'' else out)"

definition DirPath :: "string \<Rightarrow> string" where
  "DirPath path = CleanPath (rev (dropWhile (\<lambda>c. c \<noteq> CHR ''/'') (rev path)))"

definition credCachePathOf :: "string \<Rightarrow> string" where
  "credCachePathOf logFilePath =
     (if logFilePath = [] then [] else CleanPath (DirPath logFilePath @ ''/'' @ ''creds-pool.json''))"

section \<open>Settings\<close>

text \<open>The JSON the app sends, decoded.\<close>

record bridgeConfig =
  bcVKLink :: string
  bcPeerAddr :: string
  bcTurnServer :: string
  bcTurnPort :: string
  bcUseDTLS :: bool
  bcUseUDP :: bool
  bcUseWrap :: bool
  bcWrapKeyHex :: string
  bcUseSrtp :: bool
  bcNumConns :: int
  bcCooldownSeconds :: int
  bcVKHostIPs :: "(string \<times> string list) list"
  bcSeededTURN :: "(string \<times> string \<times> string) option"
  bcForceLegacyCaptcha :: bool
  bcUseCookieAuth :: bool
  bcUseWrapA :: bool
  bcWrapAPassword :: string
  bcDeviceID :: string

text \<open>\<open>proxy.Config\<close>; the fields that \<open>checkTransport\<close> looks at are a \<open>transportCfg\<close>.\<close>

record proxyConfig =
  cfPeerAddr :: string
  cfTurnServer :: string
  cfTurnPort :: string
  cfVKLink :: string
  cfUseDTLS :: bool
  cfUseUDP :: bool
  cfTransport :: transportCfg
  cfUseSrtp :: bool
  cfNumConns :: int
  cfCooldown :: duration
  cfSeededTURN :: "(string \<times> string \<times> string) option"
  cfCredCachePath :: string

definition proxyConfigOf :: "bridgeConfig \<Rightarrow> (string \<times> string \<times> string) option \<Rightarrow> string \<Rightarrow> proxyConfig" where
  "proxyConfigOf pc seed path =
     (let (withWrap, k) = (case decodeWrapKey (bcUseWrap pc) (bcWrapKeyHex pc) of
            Inl _ \<Rightarrow> (False, []) | Inr k \<Rightarrow> (bcUseWrap pc, k)) in
      \<lparr>cfPeerAddr = bcPeerAddr pc, cfTurnServer = bcTurnServer pc, cfTurnPort = bcTurnPort pc, cfVKLink = bcVKLink pc,
       cfUseDTLS = bcUseDTLS pc, cfUseUDP = bcUseUDP pc,
       cfTransport = \<lparr>useWrap = withWrap, wrapKey = k, useWrapA = bcUseWrapA pc, wrapAPassword = bcWrapAPassword pc,
         deviceId = bcDeviceID pc\<rparr>,
       cfUseSrtp = bcUseSrtp pc, cfNumConns = (if bcNumConns pc \<le> 0 then 1 else bcNumConns pc),
       cfCooldown = wrap64 (bcCooldownSeconds pc * second), cfSeededTURN = seed, cfCredCachePath = path\<rparr>)"

definition seededOf :: "bridgeConfig \<Rightarrow> (string \<times> string \<times> string) option" where
  "seededOf pc = (case bcSeededTURN pc of None \<Rightarrow> None
     | Some (address, username, password) \<Rightarrow> (if address = [] then None else Some (address, username, password)))"

section \<open>The table of tunnels\<close>

text \<open>
  Proxies and devices are numbered in the order of their creation; how often each was stopped or closed is kept
  for the statements. A proxy is always set in an entry, a device only after \<open>wgAttachWireGuard\<close>.
\<close>

record tunnelEntry =
  entProxy :: nat
  entDevice :: "nat option"

text \<open>How the set-up of a device goes: the copy of the descriptor, the TUN, the configuration, bringing it up.\<close>

datatype setupOutcome = DupFails | CreateTUNFails | IpcSetFails | UpFails | SetupOk

datatype bridgeCall =
    AttachLooked nat
  | AttachSetup nat
  | AttachUp nat nat
  | AttachRaced nat
  | OffRemoved nat
  | OffStopping nat bool
  | OffClosing nat bool
  | Returned int

record bridge =
  tunnels :: "32 word \<Rightarrow> nat option"
  nextID :: "32 word"
  entries :: "nat \<Rightarrow> tunnelEntry"
  nEntries :: nat
  proxies :: "nat \<Rightarrow> proxyConfig option"
  nProxies :: nat
  startsAfter :: "nat \<Rightarrow> duration option"
  nDevices :: nat
  stops :: "nat \<Rightarrow> nat"
  closes :: "nat \<Rightarrow> nat"
  calls :: "nat \<Rightarrow> bridgeCall"
  nCalls :: nat
  logFilePath :: string
  hostIPs :: "string \<Rightarrow> string list option"
  forceLegacyCaptcha :: bool
  cookies :: cookieState

definition bridgeInit :: "string \<Rightarrow> cookieState \<Rightarrow> bridge" where
  "bridgeInit logPath cs =
     \<lparr>tunnels = (\<lambda>_. None), nextID = 1, entries = (\<lambda>_. \<lparr>entProxy = 0, entDevice = None\<rparr>), nEntries = 0,
      proxies = (\<lambda>_. None), nProxies = 0, startsAfter = (\<lambda>_. None), nDevices = 0, stops = (\<lambda>_. 0), closes = (\<lambda>_. 0), calls = (\<lambda>_. Returned 0),
      nCalls = 0, logFilePath = logPath, hostIPs = (\<lambda>_. None), forceLegacyCaptcha = False, cookies = cs\<rparr>"

definition SetVKHostIPs :: "(string \<times> string list) list \<Rightarrow> bridge \<Rightarrow> bridge" where
  "SetVKHostIPs m b = b\<lparr>hostIPs := map_of m\<rparr>"

text \<open>The settings of the process that a start changes before it creates the proxy.\<close>

definition applyGlobals :: "bridgeConfig \<Rightarrow> bridge \<Rightarrow> bridge" where
  "applyGlobals pc b =
     (let b1 = (if bcVKHostIPs pc \<noteq> [] then SetVKHostIPs (bcVKHostIPs pc) b else b);
          b2 = b1\<lparr>forceLegacyCaptcha := bcForceLegacyCaptcha pc\<rparr>
      in if bcUseCookieAuth pc then b2 else b2\<lparr>cookies := SetVKCookieAuth False [] [] (cookies b2)\<rparr>)"

text \<open>A new proxy, with the pause after which a goroutine starts it, if one does.\<close>

definition newProxy :: "proxyConfig \<Rightarrow> duration option \<Rightarrow> bridge \<Rightarrow> bridge" where
  "newProxy cfg start b = b\<lparr>proxies := (proxies b)(nProxies b := Some cfg),
     startsAfter := (startsAfter b)(nProxies b := start), nProxies := Suc (nProxies b)\<rparr>"

definition newDevice :: "bridge \<Rightarrow> bridge" where
  "newDevice b = b\<lparr>nDevices := Suc (nDevices b)\<rparr>"

definition closeDevice :: "nat \<Rightarrow> bridge \<Rightarrow> bridge" where
  "closeDevice d b = b\<lparr>closes := (closes b)(d := Suc (closes b d))\<rparr>"

definition stopProxy :: "nat \<Rightarrow> bridge \<Rightarrow> bridge" where
  "stopProxy p b = b\<lparr>stops := (stops b)(p := Suc (stops b p))\<rparr>"

text \<open>The new entry goes into the table under the next number; the result is that handle.\<close>

definition addTunnel :: "tunnelEntry \<Rightarrow> bridge \<Rightarrow> bridge \<times> 32 word" where
  "addTunnel ent b =
     (b\<lparr>entries := (entries b)(nEntries b := ent), nEntries := Suc (nEntries b),
        tunnels := (tunnels b)(nextID b := Some (nEntries b)), nextID := nextID b + 1\<rparr>, nextID b)"

section \<open>Starting\<close>

definition wgStartVKBootstrap :: "bridgeConfig option \<Rightarrow> bridge \<Rightarrow> bridge \<times> 32 word" where
  "wgStartVKBootstrap parsed b =
     (case parsed of None \<Rightarrow> (b, - 1)
      | Some pc \<Rightarrow>
          let b1 = applyGlobals pc b;
              b2 = newProxy (proxyConfigOf pc (seededOf pc) (credCachePathOf (logFilePath b1)))
                (Some (if seededOf pc = None then 0 else 1500 * millisecond)) b1
          in addTunnel \<lparr>entProxy = nProxies b1, entDevice = None\<rparr> b2)"

text \<open>The older entry point does everything in one call. A failed step closes the device, if there is one, and nothing else.\<close>

definition wgTurnOnWithTURN :: "bridgeConfig option \<Rightarrow> setupOutcome \<Rightarrow> bridge \<Rightarrow> bridge \<times> 32 word" where
  "wgTurnOnWithTURN parsed outcome b =
     (case parsed of None \<Rightarrow> (b, - 1)
      | Some pc \<Rightarrow>
          let b1 = applyGlobals pc b; b2 = newProxy (proxyConfigOf pc None []) None b1 in
          (case outcome of
             DupFails \<Rightarrow> (b2, - 2)
           | CreateTUNFails \<Rightarrow> (b2, - 5)
           | IpcSetFails \<Rightarrow> (closeDevice (nDevices b2) (newDevice b2), - 3)
           | UpFails \<Rightarrow> (closeDevice (nDevices b2) (newDevice b2), - 4)
           | SetupOk \<Rightarrow> addTunnel \<lparr>entProxy = nProxies b1, entDevice = Some (nDevices b2)\<rparr> (newDevice b2)))"

section \<open>Attaching a device\<close>

definition newCall :: "bridgeCall \<Rightarrow> bridge \<Rightarrow> bridge" where
  "newCall c b = b\<lparr>calls := (calls b)(nCalls b := c), nCalls := Suc (nCalls b)\<rparr>"

definition setCall :: "nat \<Rightarrow> bridgeCall \<Rightarrow> bridge \<Rightarrow> bridge" where
  "setCall i c b = b\<lparr>calls := (calls b)(i := c)\<rparr>"

text \<open>The first part of \<open>wgAttachWireGuard\<close>: the entry is looked up under the lock.\<close>

definition attachBegin :: "32 word \<Rightarrow> bridge \<Rightarrow> bridge" where
  "attachBegin h b = newCall (case tunnels b h of None \<Rightarrow> Returned (- 1) | Some e \<Rightarrow> AttachLooked e) b"

definition attachChecks :: "nat \<Rightarrow> nat \<Rightarrow> bridge \<Rightarrow> bridge" where
  "attachChecks i e b = setCall i (if entDevice (entries b e) \<noteq> None then Returned (- 2) else AttachSetup e) b"

definition attachSetup :: "nat \<Rightarrow> nat \<Rightarrow> setupOutcome \<Rightarrow> bridge \<Rightarrow> bridge" where
  "attachSetup i e outcome b =
     (case outcome of
        DupFails \<Rightarrow> setCall i (Returned (- 3)) b
      | CreateTUNFails \<Rightarrow> setCall i (Returned (- 4)) b
      | IpcSetFails \<Rightarrow> setCall i (Returned (- 5)) (closeDevice (nDevices b) (newDevice b))
      | UpFails \<Rightarrow> setCall i (Returned (- 6)) (closeDevice (nDevices b) (newDevice b))
      | SetupOk \<Rightarrow> setCall i (AttachUp e (nDevices b)) (newDevice b))"

text \<open>The last part, under the lock: a device that another call attached meanwhile stays.\<close>

definition attachCommit :: "nat \<Rightarrow> nat \<Rightarrow> nat \<Rightarrow> bridge \<Rightarrow> bridge" where
  "attachCommit i e d b =
     (if entDevice (entries b e) \<noteq> None then setCall i (AttachRaced d) b
      else setCall i (Returned 1) (b\<lparr>entries := (entries b)(e := (entries b e)\<lparr>entDevice := Some d\<rparr>)\<rparr>))"

section \<open>Turning off\<close>

definition offBegin :: "32 word \<Rightarrow> bridge \<Rightarrow> bridge" where
  "offBegin h b = newCall (case tunnels b h of None \<Rightarrow> Returned 0 | Some e \<Rightarrow> OffRemoved e)
     (b\<lparr>tunnels := (tunnels b)(h := None)\<rparr>)"

definition offCloses :: "nat \<Rightarrow> nat \<Rightarrow> bool \<Rightarrow> bridge \<Rightarrow> bridge" where
  "offCloses i e hasDevice b =
     setCall i (Returned 0)
       (case (hasDevice, entDevice (entries b e)) of (True, Some d) \<Rightarrow> closeDevice d b | _ \<Rightarrow> b)"

text \<open>One step of a call; the set-up of a device ends as given.\<close>

definition callStep :: "nat \<Rightarrow> setupOutcome \<Rightarrow> bridge \<Rightarrow> bridge" where
  "callStep i outcome b =
     (case calls b i of
        AttachLooked e \<Rightarrow> attachChecks i e b
      | AttachSetup e \<Rightarrow> attachSetup i e outcome b
      | AttachUp e d \<Rightarrow> attachCommit i e d b
      | AttachRaced d \<Rightarrow> setCall i (Returned (- 2)) (closeDevice d b)
      | OffRemoved e \<Rightarrow> setCall i (OffStopping e (entDevice (entries b e) \<noteq> None)) b
      | OffStopping e hasDevice \<Rightarrow> setCall i (OffClosing e hasDevice) (stopProxy (entProxy (entries b e)) b)
      | OffClosing e hasDevice \<Rightarrow> offCloses i e hasDevice b
      | Returned r \<Rightarrow> b)"

datatype bridgeEvent =
    StartBootstrap "bridgeConfig option"
  | TurnOn "bridgeConfig option" setupOutcome
  | Attach "32 word"
  | TurnOff "32 word"
  | CallStep nat setupOutcome

fun bridgeExec :: "bridgeEvent \<Rightarrow> bridge \<Rightarrow> bridge" where
  "bridgeExec (StartBootstrap parsed) b = fst (wgStartVKBootstrap parsed b)"
| "bridgeExec (TurnOn parsed outcome) b = fst (wgTurnOnWithTURN parsed outcome b)"
| "bridgeExec (Attach h) b = attachBegin h b"
| "bridgeExec (TurnOff h) b = offBegin h b"
| "bridgeExec (CallStep i outcome) b = callStep i outcome b"

fun bridgeRun :: "bridgeEvent list \<Rightarrow> bridge \<Rightarrow> bridge" where
  "bridgeRun [] b = b"
| "bridgeRun (ev # evs) b = bridgeRun evs (bridgeExec ev b)"

section \<open>Calls that only look an entry up\<close>

text \<open>\<open>wgWaitBootstrapReady\<close> on what \<open>WaitBootstrap\<close> returns, and \<open>wgSetConfig\<close> on what the device answers.\<close>

definition wgWaitBootstrapReady :: "32 word \<Rightarrow> (nat \<Rightarrow> string option) \<Rightarrow> bridge \<Rightarrow> int" where
  "wgWaitBootstrapReady h waitBootstrap b =
     (case tunnels b h of None \<Rightarrow> - 1
      | Some e \<Rightarrow> (case waitBootstrap (entProxy (entries b e)) of
            None \<Rightarrow> 1
          | Some err \<Rightarrow> (if Contains err ''bootstrap timeout'' then 0 else - 1)))"

definition wgSetConfig :: "32 word \<Rightarrow> (nat \<Rightarrow> bool) \<Rightarrow> bridge \<Rightarrow> int" where
  "wgSetConfig h ipcSetOk b =
     (case tunnels b h of None \<Rightarrow> - 1
      | Some e \<Rightarrow> (case entDevice (entries b e) of None \<Rightarrow> - 3 | Some d \<Rightarrow> (if ipcSetOk d then 0 else - 2)))"

definition wgGetConfig :: "32 word \<Rightarrow> (nat \<Rightarrow> string option) \<Rightarrow> bridge \<Rightarrow> string" where
  "wgGetConfig h ipcGet b =
     (case tunnels b h of None \<Rightarrow> []
      | Some e \<Rightarrow> (case entDevice (entries b e) of None \<Rightarrow> []
          | Some d \<Rightarrow> (case ipcGet d of None \<Rightarrow> [] | Some settings \<Rightarrow> settings)))"

end
