(* ===== verification/BridgeProps.thy ===== *)
theory BridgeProps
  imports Bridge Systems
begin

text \<open>
  The table of tunnels under every interleaving of the exported calls: what a handle leads to is alive, nothing is
  stopped or closed twice, and proxies and devices have an owner as long as no tunnel is turned off while a device
  is being attached to it.
\<close>

section \<open>What the calls in flight hold\<close>

fun offEntry :: "bridgeCall \<Rightarrow> nat option" where
  "offEntry (OffRemoved e) = Some e"
| "offEntry (OffStopping e hv) = Some e"
| "offEntry (OffClosing e hv) = Some e"
| "offEntry _ = None"

fun stillRuns :: "bridgeCall \<Rightarrow> nat option" where
  "stillRuns (OffRemoved e) = Some e"
| "stillRuns (OffStopping e hv) = Some e"
| "stillRuns _ = None"

fun willClose :: "bridgeCall \<Rightarrow> nat option" where
  "willClose (OffRemoved e) = Some e"
| "willClose (OffStopping e hv) = (if hv then Some e else None)"
| "willClose (OffClosing e hv) = (if hv then Some e else None)"
| "willClose _ = None"

fun attEntry :: "bridgeCall \<Rightarrow> nat option" where
  "attEntry (AttachLooked e) = Some e"
| "attEntry (AttachSetup e) = Some e"
| "attEntry (AttachUp e d) = Some e"
| "attEntry _ = None"

fun heldDev :: "bridgeCall \<Rightarrow> nat option" where
  "heldDev (AttachUp e d) = Some d"
| "heldDev (AttachRaced d) = Some d"
| "heldDev _ = None"

lemmas call_kinds = offEntry.simps stillRuns.simps willClose.simps attEntry.simps heldDev.simps

lemma stillRuns_off: "stillRuns c = Some e \<Longrightarrow> offEntry c = Some e"
  by (cases c) auto

lemma willClose_off: "willClose c = Some e \<Longrightarrow> offEntry c = Some e"
  by (cases c) (auto split: if_splits)

section \<open>The invariant of every interleaving\<close>

definition tableOK :: "bridge \<Rightarrow> bool" where
  "tableOK b \<longleftrightarrow> nextID b = of_nat (Suc (nEntries b))
     \<and> (\<forall>h e. tunnels b h = Some e \<longrightarrow> e < nEntries b \<and> h = of_nat (Suc e))"

definition entriesOK :: "bridge \<Rightarrow> bool" where
  "entriesOK b \<longleftrightarrow>
     (\<forall>e < nEntries b. entProxy (entries b e) < nProxies b)
     \<and> (\<forall>e < nEntries b. \<forall>d. entDevice (entries b e) = Some d \<longrightarrow> d < nDevices b)
     \<and> (\<forall>e < nEntries b. \<forall>e' < nEntries b. entProxy (entries b e) = entProxy (entries b e') \<longrightarrow> e = e')
     \<and> (\<forall>e < nEntries b. \<forall>e' < nEntries b. \<forall>d. entDevice (entries b e) = Some d \<longrightarrow> entDevice (entries b e') = Some d
         \<longrightarrow> e = e')"

definition callsOK :: "bridge \<Rightarrow> bool" where
  "callsOK b \<longleftrightarrow>
     (\<forall>i \<ge> nCalls b. calls b i = Returned 0)
     \<and> (\<forall>i e. offEntry (calls b i) = Some e \<longrightarrow> e < nEntries b \<and> (\<forall>h. tunnels b h \<noteq> Some e))
     \<and> (\<forall>i j e. offEntry (calls b i) = Some e \<longrightarrow> offEntry (calls b j) = Some e \<longrightarrow> i = j)
     \<and> (\<forall>i e. attEntry (calls b i) = Some e \<longrightarrow> e < nEntries b)
     \<and> (\<forall>i d. heldDev (calls b i) = Some d \<longrightarrow> d < nDevices b \<and> closes b d = 0
         \<and> (\<forall>e < nEntries b. entDevice (entries b e) \<noteq> Some d))
     \<and> (\<forall>i j d. heldDev (calls b i) = Some d \<longrightarrow> heldDev (calls b j) = Some d \<longrightarrow> i = j)"

definition countsOK :: "bridge \<Rightarrow> bool" where
  "countsOK b \<longleftrightarrow>
     (\<forall>p \<ge> nProxies b. stops b p = 0) \<and> (\<forall>d \<ge> nDevices b. closes b d = 0)
     \<and> (\<forall>p. stops b p \<le> 1) \<and> (\<forall>d. closes b d \<le> 1)
     \<and> (\<forall>h e. tunnels b h = Some e \<longrightarrow> stops b (entProxy (entries b e)) = 0)
     \<and> (\<forall>h e d. tunnels b h = Some e \<longrightarrow> entDevice (entries b e) = Some d \<longrightarrow> closes b d = 0)
     \<and> (\<forall>i e. stillRuns (calls b i) = Some e \<longrightarrow> stops b (entProxy (entries b e)) = 0)
     \<and> (\<forall>i e hv. calls b i = OffClosing e hv \<longrightarrow> stops b (entProxy (entries b e)) = 1)
     \<and> (\<forall>i e d. offEntry (calls b i) = Some e \<longrightarrow> entDevice (entries b e) = Some d \<longrightarrow> closes b d = 0)
     \<and> (\<forall>e < nEntries b. \<forall>d. entDevice (entries b e) = Some d \<longrightarrow> closes b d = 1 \<longrightarrow> stops b (entProxy (entries b e)) = 1)"

definition bridgeOK :: "bridge \<Rightarrow> bool" where
  "bridgeOK b \<longleftrightarrow> tableOK b \<and> entriesOK b \<and> callsOK b \<and> countsOK b"

lemmas bridge_inv = tableOK_def entriesOK_def callsOK_def countsOK_def

lemma bridgeOK_init: "bridgeOK (bridgeInit l cs)"
  by (simp add: bridgeOK_def bridge_inv bridgeInit_def)

text \<open>The fields the table is made of.\<close>

definition sameTable :: "bridge \<Rightarrow> bridge \<Rightarrow> bool" where
  "sameTable b c \<longleftrightarrow> tunnels c = tunnels b \<and> nextID c = nextID b \<and> entries c = entries b \<and> nEntries c = nEntries b
     \<and> nDevices c = nDevices b \<and> stops c = stops b \<and> closes c = closes b \<and> calls c = calls b \<and> nCalls c = nCalls b"

lemma applyGlobals_frame:
  "sameTable b (applyGlobals pc b)" "nProxies (applyGlobals pc b) = nProxies b" "logFilePath (applyGlobals pc b) = logFilePath b"
  by (simp_all add: sameTable_def applyGlobals_def SetVKHostIPs_def Let_def)

lemma newProxy_frame: "sameTable b (newProxy cfg start b)" "nProxies (newProxy cfg start b) = Suc (nProxies b)"
  by (simp_all add: sameTable_def newProxy_def)

lemma sameTable_trans: "sameTable a b \<Longrightarrow> sameTable b c \<Longrightarrow> sameTable a c"
  by (simp add: sameTable_def)

lemma bridgeOK_frame:
  assumes "bridgeOK b" "sameTable b c" "nProxies b \<le> nProxies c"
  shows "bridgeOK c"
proof -
  note same = assms(2) [unfolded sameTable_def]
  have "tableOK c" "callsOK c" using assms(1) same by (simp_all add: bridgeOK_def tableOK_def callsOK_def)
  moreover have "entriesOK c" using assms(1,3) same unfolding bridgeOK_def entriesOK_def by (auto intro: less_le_trans)
  moreover have "countsOK c" using assms(1,3) same unfolding bridgeOK_def countsOK_def by simp
  ultimately show ?thesis by (simp add: bridgeOK_def)
qed

text \<open>The invariant as rules.\<close>

lemma bridge_table:
  assumes "bridgeOK b"
  shows "nextID b = of_nat (Suc (nEntries b))" "tunnels b h = Some e \<Longrightarrow> e < nEntries b"
    "tunnels b h = Some e \<Longrightarrow> h = of_nat (Suc e)"
  using assms unfolding bridgeOK_def tableOK_def by blast+

lemma bridge_entry:
  assumes "bridgeOK b"
  shows "e < nEntries b \<Longrightarrow> entProxy (entries b e) < nProxies b"
    "e < nEntries b \<Longrightarrow> entDevice (entries b e) = Some d \<Longrightarrow> d < nDevices b"
    "e < nEntries b \<Longrightarrow> e' < nEntries b \<Longrightarrow> entProxy (entries b e) = entProxy (entries b e') \<Longrightarrow> e = e'"
    "e < nEntries b \<Longrightarrow> e' < nEntries b \<Longrightarrow> entDevice (entries b e) = Some d \<Longrightarrow> entDevice (entries b e') = Some d \<Longrightarrow> e = e'"
  using assms unfolding bridgeOK_def entriesOK_def by blast+

lemma bridge_call:
  assumes "bridgeOK b"
  shows "nCalls b \<le> i \<Longrightarrow> calls b i = Returned 0"
    "offEntry (calls b i) = Some e \<Longrightarrow> e < nEntries b" "offEntry (calls b i) = Some e \<Longrightarrow> tunnels b h \<noteq> Some e"
    "offEntry (calls b i) = Some e \<Longrightarrow> offEntry (calls b j) = Some e \<Longrightarrow> i = j"
    "attEntry (calls b i) = Some e \<Longrightarrow> e < nEntries b"
    "heldDev (calls b i) = Some d \<Longrightarrow> d < nDevices b" "heldDev (calls b i) = Some d \<Longrightarrow> closes b d = 0"
    "heldDev (calls b i) = Some d \<Longrightarrow> e < nEntries b \<Longrightarrow> entDevice (entries b e) \<noteq> Some d"
    "heldDev (calls b i) = Some d \<Longrightarrow> heldDev (calls b j) = Some d \<Longrightarrow> i = j"
  using assms unfolding bridgeOK_def callsOK_def by blast+

lemma bridge_count:
  assumes "bridgeOK b"
  shows "nProxies b \<le> p \<Longrightarrow> stops b p = 0" "nDevices b \<le> d \<Longrightarrow> closes b d = 0" "stops b p \<le> 1" "closes b d \<le> 1"
    "tunnels b h = Some e \<Longrightarrow> stops b (entProxy (entries b e)) = 0"
    "tunnels b h = Some e \<Longrightarrow> entDevice (entries b e) = Some d \<Longrightarrow> closes b d = 0"
    "stillRuns (calls b i) = Some e \<Longrightarrow> stops b (entProxy (entries b e)) = 0"
    "calls b i = OffClosing e hv \<Longrightarrow> stops b (entProxy (entries b e)) = 1"
    "offEntry (calls b i) = Some e \<Longrightarrow> entDevice (entries b e) = Some d \<Longrightarrow> closes b d = 0"
    "e < nEntries b \<Longrightarrow> entDevice (entries b e) = Some d \<Longrightarrow> closes b d = 1 \<Longrightarrow> stops b (entProxy (entries b e)) = 1"
  using assms unfolding bridgeOK_def countsOK_def by blast+

lemma bridgeOK_I:
  assumes "nextID b = of_nat (Suc (nEntries b))"
    "\<And>h e. tunnels b h = Some e \<Longrightarrow> e < nEntries b \<and> h = of_nat (Suc e)"
    "\<And>e. e < nEntries b \<Longrightarrow> entProxy (entries b e) < nProxies b"
    "\<And>e d. e < nEntries b \<Longrightarrow> entDevice (entries b e) = Some d \<Longrightarrow> d < nDevices b"
    "\<And>e e'. e < nEntries b \<Longrightarrow> e' < nEntries b \<Longrightarrow> entProxy (entries b e) = entProxy (entries b e') \<Longrightarrow> e = e'"
    "\<And>e e' d. e < nEntries b \<Longrightarrow> e' < nEntries b \<Longrightarrow> entDevice (entries b e) = Some d \<Longrightarrow> entDevice (entries b e') = Some d
      \<Longrightarrow> e = e'"
    "\<And>i. nCalls b \<le> i \<Longrightarrow> calls b i = Returned 0"
    "\<And>i e. offEntry (calls b i) = Some e \<Longrightarrow> e < nEntries b \<and> (\<forall>h. tunnels b h \<noteq> Some e)"
    "\<And>i j e. offEntry (calls b i) = Some e \<Longrightarrow> offEntry (calls b j) = Some e \<Longrightarrow> i = j"
    "\<And>i e. attEntry (calls b i) = Some e \<Longrightarrow> e < nEntries b"
    "\<And>i d. heldDev (calls b i) = Some d \<Longrightarrow> d < nDevices b \<and> closes b d = 0
      \<and> (\<forall>e < nEntries b. entDevice (entries b e) \<noteq> Some d)"
    "\<And>i j d. heldDev (calls b i) = Some d \<Longrightarrow> heldDev (calls b j) = Some d \<Longrightarrow> i = j"
    "\<And>p. nProxies b \<le> p \<Longrightarrow> stops b p = 0" "\<And>d. nDevices b \<le> d \<Longrightarrow> closes b d = 0"
    "\<And>p. stops b p \<le> 1" "\<And>d. closes b d \<le> 1"
    "\<And>h e. tunnels b h = Some e \<Longrightarrow> stops b (entProxy (entries b e)) = 0"
    "\<And>h e d. tunnels b h = Some e \<Longrightarrow> entDevice (entries b e) = Some d \<Longrightarrow> closes b d = 0"
    "\<And>i e. stillRuns (calls b i) = Some e \<Longrightarrow> stops b (entProxy (entries b e)) = 0"
    "\<And>i e hv. calls b i = OffClosing e hv \<Longrightarrow> stops b (entProxy (entries b e)) = 1"
    "\<And>i e d. offEntry (calls b i) = Some e \<Longrightarrow> entDevice (entries b e) = Some d \<Longrightarrow> closes b d = 0"
    "\<And>e d. e < nEntries b \<Longrightarrow> entDevice (entries b e) = Some d \<Longrightarrow> closes b d = 1 \<Longrightarrow> stops b (entProxy (entries b e)) = 1"
  shows "bridgeOK b"
proof -
  have "tableOK b" unfolding tableOK_def using assms(1,2) by blast
  moreover have "entriesOK b" unfolding entriesOK_def using assms(3,4,5,6) by blast
  moreover have "callsOK b" unfolding callsOK_def using assms(7-12) by blast
  moreover have "countsOK b" unfolding countsOK_def using assms(13-22) by blast
  ultimately show ?thesis by (simp add: bridgeOK_def)
qed

section \<open>Every step keeps it\<close>

lemma bridgeOK_addTunnel:
  assumes ok: "bridgeOK b" and p: "\<And>e. e < nEntries b \<Longrightarrow> entProxy (entries b e) \<noteq> p" "p < nProxies b" "stops b p = 0"
    and dev: "\<And>d. dev = Some d \<Longrightarrow> d < nDevices b \<and> closes b d = 0
       \<and> (\<forall>e < nEntries b. entDevice (entries b e) \<noteq> Some d) \<and> (\<forall>i. heldDev (calls b i) \<noteq> Some d)"
  shows "bridgeOK (fst (addTunnel \<lparr>entProxy = p, entDevice = dev\<rparr> b))"
proof -
  note D = bridge_table [OF ok] bridge_entry [OF ok] bridge_call [OF ok] bridge_count [OF ok]
  have "offEntry (calls b i) \<noteq> Some (nEntries b)" "stillRuns (calls b i) \<noteq> Some (nEntries b)" "tunnels b h \<noteq> Some (nEntries b)"
    for i h using D(9) [of i "nEntries b"] D(2) [of h "nEntries b"] stillRuns_off by fastforce+
  note new = this and S = addTunnel_def less_Suc_eq
  show ?thesis
  proof (rule bridgeOK_I, goal_cases)
    case 2 then show ?case using D(1-3) by (auto simp: S split: if_splits)
  next case (4 e d) then show ?case using D(5) dev by (auto simp: S split: if_splits)
  next case (5 e e') then show ?case using D(6) p(1) by (fastforce simp: S split: if_splits)
  next case (6 e e' d) then show ?case using D(7) dev by (fastforce simp: S split: if_splits)
  next case (8 i e) then show ?case using D(9,10) new by (auto simp: S split: if_splits)
  next case (11 i d) then show ?case using D(13-15) dev by (auto simp: S split: if_splits)
  next case (17 h e) then show ?case using D(2,21) p(3) by (auto simp: S split: if_splits)
  next case (18 h e d) then show ?case using D(2,22) dev by (auto simp: S split: if_splits)
  next case (19 i e) then show ?case using D(23) new by (auto simp: S split: if_splits)
  next case (20 i e hv) then show ?case using D(24) new(1) [of i] by (auto simp: S split: if_splits)
  next case (21 i e d) then show ?case using D(25) new by (auto simp: S split: if_splits)
  next case (22 e d) then show ?case using D(26) dev by (auto simp: S split: if_splits)
  next case (9 i j e) then show ?case by (simp add: S D(11))
  next case (12 i j d) then show ?case by (simp add: S D(16))
  next case (3 e) then show ?case using D(4) p by (auto simp: S)
  qed (simp_all add: S D(1,8,12,17-20) p less_SucI del: One_nat_def)
qed

lemma bridgeOK_newDevice:
  assumes "bridgeOK b"
  shows "bridgeOK (newDevice b)"
proof -
  have "tableOK (newDevice b)" using assms by (simp add: bridgeOK_def tableOK_def newDevice_def)
  moreover have "entriesOK (newDevice b)" using assms unfolding bridgeOK_def entriesOK_def by (auto simp: newDevice_def)
  moreover have "callsOK (newDevice b)" using assms unfolding bridgeOK_def callsOK_def by (simp add: newDevice_def less_SucI)
  moreover have "countsOK (newDevice b)" using assms unfolding bridgeOK_def countsOK_def by (simp add: newDevice_def)
  ultimately show ?thesis by (simp add: bridgeOK_def)
qed

lemma bridgeOK_moreCalls: "bridgeOK b \<Longrightarrow> bridgeOK (b\<lparr>nCalls := Suc (nCalls b)\<rparr>)"
  unfolding bridgeOK_def tableOK_def entriesOK_def callsOK_def countsOK_def by simp

lemma bridgeOK_remove:
  assumes "bridgeOK b"
  shows "bridgeOK (b\<lparr>tunnels := (tunnels b)(h := None)\<rparr>)" (is "bridgeOK ?c")
proof -
  have "tableOK ?c" using assms by (simp add: bridgeOK_def tableOK_def)
  moreover have "entriesOK ?c" using assms by (simp add: bridgeOK_def entriesOK_def)
  moreover have "callsOK ?c" using assms unfolding bridgeOK_def callsOK_def by simp
  moreover have "countsOK ?c" using assms unfolding bridgeOK_def countsOK_def by simp
  ultimately show ?thesis by (simp add: bridgeOK_def)
qed

lemma bridgeOK_setCall:
  assumes ok: "bridgeOK b" and i: "i < nCalls b"
    and off: "\<And>e. offEntry c = Some e \<Longrightarrow> offEntry (calls b i) = Some e
      \<or> (e < nEntries b \<and> (\<forall>h. tunnels b h \<noteq> Some e) \<and> (\<forall>j. offEntry (calls b j) \<noteq> Some e)
         \<and> (\<forall>d. entDevice (entries b e) = Some d \<longrightarrow> closes b d = 0))"
    and run: "\<And>e. stillRuns c = Some e \<Longrightarrow> stops b (entProxy (entries b e)) = 0"
    and closing: "\<And>e hv. c = OffClosing e hv \<Longrightarrow> stops b (entProxy (entries b e)) = 1"
    and att: "\<And>e. attEntry c = Some e \<Longrightarrow> e < nEntries b"
    and held: "\<And>d. heldDev c = Some d \<Longrightarrow> heldDev (calls b i) = Some d
      \<or> (d < nDevices b \<and> closes b d = 0 \<and> (\<forall>e < nEntries b. entDevice (entries b e) \<noteq> Some d)
         \<and> (\<forall>j. heldDev (calls b j) \<noteq> Some d))"
  shows "bridgeOK (setCall i c b)"
proof -
  note D = bridge_table [OF ok] bridge_entry [OF ok] bridge_call [OF ok] bridge_count [OF ok]
  show ?thesis
  proof (rule bridgeOK_I, goal_cases)
    case (8 j e) then show ?case using D(9,10) off by (fastforce simp: setCall_def split: if_splits)
  next case (9 j k e) then show ?case using D(11) off by (fastforce simp: setCall_def split: if_splits)
  next case (10 j e) then show ?case using D(12) att by (fastforce simp: setCall_def split: if_splits)
  next case (11 j d) then show ?case using D(13-15) held by (fastforce simp: setCall_def split: if_splits)
  next case (12 j k d) then show ?case using D(16) held by (fastforce simp: setCall_def split: if_splits)
  next case (19 j e) then show ?case using D(23) run by (fastforce simp: setCall_def split: if_splits)
  next case (20 j e hv) then show ?case using D(24) closing by (fastforce simp: setCall_def split: if_splits)
  next case (21 j e d) then show ?case using D(25) off by (fastforce simp: setCall_def split: if_splits)
  next case (5 e e') then show ?case by (simp add: setCall_def D(6))
  next case (6 e e' d) then show ?case by (simp add: setCall_def D(7))
  next case (7 j) then show ?case using i by (simp add: setCall_def D(8))
  qed (simp_all add: setCall_def D(1-5,17-22,26) del: One_nat_def of_nat_Suc)
qed

lemma bridgeOK_closeDevice:
  assumes ok: "bridgeOK b" and d: "d < nDevices b" "closes b d = 0" "\<And>i. heldDev (calls b i) \<noteq> Some d"
    and owner: "\<And>e. e < nEntries b \<Longrightarrow> entDevice (entries b e) = Some d \<Longrightarrow>
      (\<forall>h. tunnels b h \<noteq> Some e) \<and> (\<forall>i. offEntry (calls b i) \<noteq> Some e) \<and> stops b (entProxy (entries b e)) = 1"
  shows "bridgeOK (closeDevice d b)"
proof -
  note D = bridge_table [OF ok] bridge_entry [OF ok] bridge_call [OF ok] bridge_count [OF ok]
  show ?thesis
  proof (rule bridgeOK_I, goal_cases)
    case (11 i d') then show ?case using D(13-15) d(3) by (auto simp: closeDevice_def)
  next case (18 h e d') then show ?case using D(2,22) owner by (fastforce simp: closeDevice_def)
  next case (21 i e d') then show ?case using D(9,25) owner by (fastforce simp: closeDevice_def)
  next case (22 e d') then show ?case using D(26) owner by (fastforce simp: closeDevice_def split: if_splits)
  next case (5 e e') then show ?case by (simp add: closeDevice_def D(6))
  next case (6 e e' d) then show ?case by (simp add: closeDevice_def D(7))
  next case (9 i j e) then show ?case by (simp add: closeDevice_def D(11))
  next case (12 i j d) then show ?case by (simp add: closeDevice_def D(16))
  next case (16 d') then show ?case using d by (simp add: closeDevice_def D(20) del: One_nat_def)
  qed (use d in \<open>simp_all add: closeDevice_def D(1-5,8-10,12,17-21,23,24) del: One_nat_def of_nat_Suc\<close>)
qed

lemma bridgeOK_failedSetup: "bridgeOK b \<Longrightarrow> bridgeOK (closeDevice (nDevices b) (newDevice b))"
proof -
  assume ok: "bridgeOK b"
  have "entDevice (entries b e) \<noteq> Some (nDevices b)" if "e < nEntries b" for e using bridge_entry(2) [OF ok that] by blast
  moreover have "heldDev (calls b i) \<noteq> Some (nDevices b)" for i using bridge_call(6) [OF ok] by blast
  ultimately show ?thesis using bridgeOK_newDevice [OF ok] bridge_count(2) [OF ok]
    by (intro bridgeOK_closeDevice) (auto simp: newDevice_def)
qed

lemma bridgeOK_newCall:
  assumes ok: "bridgeOK b"
    and "\<And>e. c = OffRemoved e \<Longrightarrow> e < nEntries b \<and> (\<forall>h. tunnels b h \<noteq> Some e) \<and> (\<forall>j. offEntry (calls b j) \<noteq> Some e)
      \<and> (\<forall>d. entDevice (entries b e) = Some d \<longrightarrow> closes b d = 0) \<and> stops b (entProxy (entries b e)) = 0"
    and "c = AttachLooked e0 \<and> e0 < nEntries b \<or> c = OffRemoved e0 \<or> c = Returned r"
  shows "bridgeOK (newCall c b)"
proof -
  have "newCall c b = setCall (nCalls b) c (b\<lparr>nCalls := Suc (nCalls b)\<rparr>)" by (simp add: newCall_def setCall_def)
  then show ?thesis using assms(2,3) bridgeOK_moreCalls [OF ok] by (auto intro!: bridgeOK_setCall)
qed

lemma bridgeOK_offBegin:
  assumes ok: "bridgeOK b"
  shows "bridgeOK (offBegin h b)"
proof (cases "tunnels b h")
  case None
  then show ?thesis using bridgeOK_remove [OF ok] by (auto simp: offBegin_def intro!: bridgeOK_newCall)
next
  case (Some e)
  have "tunnels b h' \<noteq> Some e" if "h' \<noteq> h" for h' using bridge_table(3) [OF ok] that Some by metis
  moreover have "offEntry (calls b j) \<noteq> Some e" for j using bridge_call(3) [OF ok] Some by blast
  ultimately show ?thesis
    using Some bridge_table(2) [OF ok Some] bridge_count(5) [OF ok Some] bridge_count(6) [OF ok Some] bridgeOK_remove [OF ok]
    by (auto simp: offBegin_def intro!: bridgeOK_newCall split: if_splits)
qed

lemma bridgeOK_commit:
  assumes ok: "bridgeOK b" and c: "calls b i = AttachUp e d" and none: "entDevice (entries b e) = None"
  shows "bridgeOK (setCall i (Returned 1) (b\<lparr>entries := (entries b)(e := (entries b e)\<lparr>entDevice := Some d\<rparr>)\<rparr>))"
proof -
  note D = bridge_table [OF ok] bridge_entry [OF ok] bridge_call [OF ok] bridge_count [OF ok]
  have i: "i < nCalls b" using D(8) [of i] c by (cases "i < nCalls b") auto
  have e: "e < nEntries b" and d: "d < nDevices b" "closes b d = 0" "\<And>e. e < nEntries b \<Longrightarrow> entDevice (entries b e) \<noteq> Some d"
    using D(12) [of i] D(13-15) [of i] c by auto
  have only: "j = i" if "heldDev (calls b j) = Some d" for j using D(16) [of j d i] c that by simp
  show ?thesis
  proof (rule bridgeOK_I, goal_cases)
    case (4 e' d') then show ?case using D(5) d by (auto simp: setCall_def split: if_splits)
  next case (5 e1 e2) then show ?case using D(6) [of e1 e2] by (auto simp: setCall_def split: if_splits)
  next case (6 e1 e2 d') then show ?case using D(7) [of e1 e2 d'] d(3) by (auto simp: setCall_def split: if_splits)
  next case (7 j) then show ?case using i by (simp add: setCall_def D(8))
  next case (8 j e') then show ?case by (auto simp: setCall_def D(9,10) split: if_splits)
  next case (9 j k e') then show ?case using D(11) [of j e' k] by (auto simp: setCall_def split: if_splits)
  next case (10 j e') then show ?case using D(12) [of j e'] by (auto simp: setCall_def split: if_splits)
  next case (11 j d') then show ?case using D(13-15) [of j d'] only [of j] by (auto simp: setCall_def split: if_splits)
  next case (12 j k d') then show ?case using D(16) [of j d' k] by (auto simp: setCall_def split: if_splits)
  next case (18 h e' d') then show ?case using D(22) [of h e' d'] d by (auto simp: setCall_def split: if_splits)
  next case (21 j e' d') then show ?case using D(25) [of j e' d'] d by (auto simp: setCall_def split: if_splits)
  next case (22 e' d') then show ?case using D(26) [of e' d'] d by (auto simp: setCall_def split: if_splits)
  next case (17 h e') then show ?case using D(21) [of h e'] by (auto simp: setCall_def)
  next case (19 j e') then show ?case using D(23) [of j e'] by (auto simp: setCall_def split: if_splits)
  next case (20 j e' hv) then show ?case using D(24) [of j e' hv] by (auto simp: setCall_def split: if_splits)
  qed (simp_all add: setCall_def D(1-4,17-20) del: One_nat_def of_nat_Suc)
qed

lemma bridgeOK_stopping:
  assumes ok: "bridgeOK b" and c: "calls b i = OffStopping e hv"
  shows "bridgeOK (setCall i (OffClosing e hv) (stopProxy (entProxy (entries b e)) b))"
proof -
  note D = bridge_table [OF ok] bridge_entry [OF ok] bridge_call [OF ok] bridge_count [OF ok]
  let ?p = "entProxy (entries b e)"
  have i: "i < nCalls b" using D(8) [of i] c by (cases "i < nCalls b") auto
  have e: "e < nEntries b" "\<And>h. tunnels b h \<noteq> Some e" "stops b ?p = 0" "?p < nProxies b"
    using D(9,10) [of i e] D(23) [of i e] D(4) c by auto
  have only: "j = i" if "offEntry (calls b j) = Some e" for j using D(11) [of j e i] c that by simp
  have same: "e' = e" if "e' < nEntries b" "entProxy (entries b e') = ?p" for e' using D(6) that e(1) by blast
  show ?thesis
  proof (rule bridgeOK_I, goal_cases)
    case (5 e1 e2) then show ?case by (simp add: setCall_def stopProxy_def D(6))
  next case (6 e1 e2 d') then show ?case by (simp add: setCall_def stopProxy_def D(7))
  next case (7 j) then show ?case using i by (simp add: setCall_def stopProxy_def D(8))
  next case (8 j e') then show ?case using e by (auto simp: setCall_def stopProxy_def D(9,10) split: if_splits)
  next case (9 j k e') then show ?case using only [of j] only [of k] D(11) [of j e' k]
      by (auto simp: setCall_def stopProxy_def split: if_splits)
  next case (10 j e') then show ?case using D(12) [of j e'] by (auto simp: setCall_def stopProxy_def split: if_splits)
  next case (11 j d') then show ?case using D(13-15) [of j d'] by (auto simp: setCall_def stopProxy_def split: if_splits)
  next case (12 j k d') then show ?case using D(16) [of j d' k] by (auto simp: setCall_def stopProxy_def split: if_splits)
  next case (13 p) then show ?case using e(4) D(17) [of p] by (auto simp: setCall_def stopProxy_def)
  next case (15 p) then show ?case using e(3) D(19) [of p] by (auto simp: setCall_def stopProxy_def)
  next case (17 h e') then show ?case using D(2,21) [of h e'] same [of e'] e(2) [of h] by (auto simp: setCall_def stopProxy_def)
  next case (19 j e') then show ?case using D(23) [of j e'] D(9) [of j e'] same [of e'] only [of j] stillRuns_off [of "calls b j" e']
      by (auto simp: setCall_def stopProxy_def split: if_splits)
  next case (20 j e' hv') then show ?case using D(24) [of j e' hv'] e(3) by (auto simp: setCall_def stopProxy_def split: if_splits)
  next case (21 j e' d') then show ?case using D(25) [of j e' d'] D(25) [of i e d'] c
      by (auto simp: setCall_def stopProxy_def split: if_splits)
  next case (22 e' d') then show ?case using D(26) [of e' d'] e(3) by (auto simp: setCall_def stopProxy_def)
  qed (simp_all add: setCall_def stopProxy_def D(1-5,18,20,22) del: One_nat_def of_nat_Suc)
qed

lemma bridgeOK_offCloses:
  assumes ok: "bridgeOK b" and c: "calls b i = OffClosing e hv"
  shows "bridgeOK (offCloses i e hv b)"
proof -
  have i: "i < nCalls b" using bridge_call(1) [OF ok, of i] c by (cases "i < nCalls b") auto
  have off: "offEntry (calls b i) = Some e" using c by simp
  let ?c = "setCall i (Returned 0) b"
  have ok': "bridgeOK ?c" using ok i by (rule bridgeOK_setCall) simp_all
  show ?thesis
  proof (cases "hv \<and> entDevice (entries b e) \<noteq> None")
    case False
    then have "offCloses i e hv b = ?c" by (auto simp: offCloses_def split: option.splits bool.splits)
    then show ?thesis using ok' by simp
  next
    case True
    then obtain d where d: "entDevice (entries b e) = Some d" by blast
    have e: "e < nEntries b" using bridge_call(2) [OF ok off] .
    have only: "e' = e" if "e' < nEntries b" "entDevice (entries b e') = Some d" for e'
      using bridge_entry(4) [OF ok that(1) e that(2) d] .
    have "heldDev (calls ?c j) \<noteq> Some d" for j using bridge_call(8) [OF ok, of j d e] e d by (auto simp: setCall_def)
    moreover have "offEntry (calls ?c j) \<noteq> Some e" for j using bridge_call(4) [OF ok off, of j] by (auto simp: setCall_def)
    moreover have "tunnels ?c h \<noteq> Some e" for h using bridge_call(3) [OF ok off] by (simp add: setCall_def)
    ultimately have "bridgeOK (closeDevice d ?c)"
      using bridge_entry(2) [OF ok e d] bridge_count(9) [OF ok off d] bridge_count(8) [OF ok c] only ok'
      by (intro bridgeOK_closeDevice) (auto simp: setCall_def)
    moreover have "offCloses i e hv b = closeDevice d ?c"
      using True d by (simp add: offCloses_def setCall_def closeDevice_def)
    ultimately show ?thesis by simp
  qed
qed

lemma bridgeOK_raced:
  assumes ok: "bridgeOK b" and c: "calls b i = AttachRaced d"
  shows "bridgeOK (setCall i (Returned (- 2)) (closeDevice d b))"
proof -
  have i: "i < nCalls b" using bridge_call(1) [OF ok, of i] c by (cases "i < nCalls b") auto
  have held: "heldDev (calls b i) = Some d" using c by simp
  let ?c = "setCall i (Returned (- 2)) b"
  have ok': "bridgeOK ?c" using ok i by (rule bridgeOK_setCall) simp_all
  have "heldDev (calls ?c j) \<noteq> Some d" for j using bridge_call(9) [OF ok held, of j] by (auto simp: setCall_def)
  moreover have "entDevice (entries ?c e) \<noteq> Some d" if "e < nEntries b" for e
    using bridge_call(8) [OF ok held that] by (simp add: setCall_def)
  ultimately have "bridgeOK (closeDevice d ?c)"
    using bridge_call(6,7) [OF ok held] ok' by (intro bridgeOK_closeDevice) (auto simp: setCall_def)
  moreover have "setCall i (Returned (- 2)) (closeDevice d b) = closeDevice d ?c" by (simp add: setCall_def closeDevice_def)
  ultimately show ?thesis by simp
qed

lemma bridgeOK_callStep:
  assumes ok: "bridgeOK b"
  shows "bridgeOK (callStep i outcome b)"
proof -
  have i: "i < nCalls b" if "calls b i \<noteq> Returned 0" using bridge_call(1) [OF ok, of i] that by (cases "i < nCalls b") auto
  have fin: "bridgeOK (setCall i (Returned r) b)" if "calls b i \<noteq> Returned 0" for r
    using ok i [OF that] by (rule bridgeOK_setCall) simp_all
  show ?thesis
  proof (cases "calls b i")
    case (AttachLooked e)
    have "bridgeOK (setCall i (AttachSetup e) b)" using ok i AttachLooked bridge_call(5) [OF ok, of i e]
      by (intro bridgeOK_setCall) auto
    then show ?thesis using AttachLooked fin by (simp add: callStep_def attachChecks_def)
  next
    case (AttachSetup e)
    have e: "e < nEntries b" using bridge_call(5) [OF ok, of i e] AttachSetup by simp
    have failed: "bridgeOK (setCall i (Returned r) (closeDevice (nDevices b) (newDevice b)))" for r
      using i AttachSetup bridgeOK_failedSetup [OF ok]
      by (intro bridgeOK_setCall) (auto simp: closeDevice_def newDevice_def)
    have "entDevice (entries b e') \<noteq> Some (nDevices b)" if "e' < nEntries b" for e'
      using bridge_entry(2) [OF ok that] by blast
    moreover have "heldDev (calls b j) \<noteq> Some (nDevices b)" for j using bridge_call(6) [OF ok, of j] by blast
    ultimately have "bridgeOK (setCall i (AttachUp e (nDevices b)) (newDevice b))"
      using i AttachSetup e bridgeOK_newDevice [OF ok] bridge_count(2) [OF ok]
      by (intro bridgeOK_setCall) (auto simp: newDevice_def)
    then show ?thesis using AttachSetup fin failed by (cases outcome) (simp_all add: callStep_def attachSetup_def)
  next
    case (AttachUp e d)
    have "bridgeOK (setCall i (AttachRaced d) b)" using ok i AttachUp by (intro bridgeOK_setCall) auto
    then show ?thesis using AttachUp bridgeOK_commit [OF ok AttachUp] by (auto simp: callStep_def attachCommit_def)
  next
    case (AttachRaced d)
    then show ?thesis using bridgeOK_raced [OF ok AttachRaced] by (simp add: callStep_def)
  next
    case (OffRemoved e)
    have "bridgeOK (setCall i (OffStopping e hv) b)" for hv using ok i OffRemoved bridge_count(7) [OF ok, of i e]
      by (intro bridgeOK_setCall) auto
    then show ?thesis using OffRemoved by (simp add: callStep_def)
  next
    case (OffStopping e hv)
    then show ?thesis using bridgeOK_stopping [OF ok OffStopping] by (simp add: callStep_def)
  next
    case (OffClosing e hv)
    then show ?thesis using bridgeOK_offCloses [OF ok OffClosing] by (simp add: callStep_def)
  next
    case (Returned r)
    then show ?thesis using ok by (simp add: callStep_def)
  qed
qed

lemma bridgeOK_created:
  assumes ok: "bridgeOK b"
  shows "bridgeOK (newProxy cfg start (applyGlobals pc b))" "nProxies (newProxy cfg start (applyGlobals pc b)) = Suc (nProxies b)"
    "sameTable b (newProxy cfg start (applyGlobals pc b))"
  using bridgeOK_frame [OF ok, of "newProxy cfg start (applyGlobals pc b)"] sameTable_trans [OF applyGlobals_frame(1) newProxy_frame(1)]
  by (simp_all add: applyGlobals_frame newProxy_frame)

lemma bridgeOK_start:
  assumes ok: "bridgeOK b"
  shows "bridgeOK (fst (wgStartVKBootstrap parsed b))"
proof (cases parsed)
  case None
  then show ?thesis using ok by (simp add: wgStartVKBootstrap_def)
next
  case (Some pc)
  let ?c = "newProxy (proxyConfigOf pc (seededOf pc) (credCachePathOf (logFilePath (applyGlobals pc b))))
    (Some (if seededOf pc = None then 0 else 1500 * millisecond)) (applyGlobals pc b)"
  note c = bridgeOK_created [OF ok]
  have same: "nEntries ?c = nEntries b" "entries ?c = entries b" "stops ?c = stops b"
    using c(3) by (simp_all add: sameTable_def)
  have "bridgeOK (fst (addTunnel \<lparr>entProxy = nProxies b, entDevice = None\<rparr> ?c))"
    by (rule bridgeOK_addTunnel [OF c(1)])
      (use bridge_entry(1) [OF ok] bridge_count(1) [OF ok] in \<open>fastforce simp: c(2) same\<close>)+
  then show ?thesis using Some by (simp add: wgStartVKBootstrap_def Let_def applyGlobals_frame)
qed

lemma bridgeOK_turnOn:
  assumes ok: "bridgeOK b"
  shows "bridgeOK (fst (wgTurnOnWithTURN parsed outcome b))"
proof (cases parsed)
  case None
  then show ?thesis using ok by (simp add: wgTurnOnWithTURN_def)
next
  case (Some pc)
  let ?c = "newProxy (proxyConfigOf pc None []) None (applyGlobals pc b)"
  note c = bridgeOK_created [OF ok]
  have same: "nEntries ?c = nEntries b" "entries ?c = entries b" "stops ?c = stops b" "nDevices ?c = nDevices b"
    "calls ?c = calls b" "closes ?c = closes b"
    using c(3) by (simp_all add: sameTable_def)
  have d: "nDevices b \<noteq> d" if "e < nEntries b" "entDevice (entries b e) = Some d" for e d
    using bridge_entry(2) [OF ok that] by blast
  have held: "heldDev (calls b j) \<noteq> Some (nDevices b)" for j using bridge_call(6) [OF ok, of j] by blast
  have "bridgeOK (fst (addTunnel \<lparr>entProxy = nProxies b, entDevice = Some (nDevices ?c)\<rparr> (newDevice ?c)))"
    by (rule bridgeOK_addTunnel [OF bridgeOK_newDevice [OF c(1)]])
      (use bridge_entry(1) [OF ok] bridge_count(1,2) [OF ok] d held in \<open>fastforce simp: newDevice_def c(2) same\<close>)+
  then show ?thesis using Some c(1) bridgeOK_failedSetup [OF c(1)]
    by (cases outcome) (simp_all add: wgTurnOnWithTURN_def Let_def applyGlobals_frame)
qed

lemma bridgeOK_exec: "bridgeOK b \<Longrightarrow> bridgeOK (bridgeExec ev b)"
proof (cases ev)
  case (Attach h)
  assume "bridgeOK b"
  then show ?thesis using Attach bridge_table(2)
    by (auto simp: attachBegin_def intro!: bridgeOK_newCall split: option.splits)
qed (auto simp: bridgeOK_start bridgeOK_turnOn bridgeOK_offBegin bridgeOK_callStep)

interpretation bridges: event_system "\<lambda>b. \<exists>l cs. b = bridgeInit l cs" bridgeExec bridgeOK
  by unfold_locales (auto simp: bridgeOK_init bridgeOK_exec)

lemma bridgeRun_fold: "bridgeRun evs b = fold bridgeExec evs b"
  by (induction evs arbitrary: b) simp_all

lemma bridgeOK_run: "bridgeOK (bridgeRun evs (bridgeInit l cs))"
  unfolding bridgeRun_fold by (rule bridges.inv_run) blast

section \<open>Owners\<close>

definition attachBusy :: "bridge \<Rightarrow> nat \<Rightarrow> bool" where
  "attachBusy b e \<longleftrightarrow> list_ex (\<lambda>i. attEntry (calls b i) = Some e) [0..<nCalls b]"

text \<open>
  A run in order: no tunnel is turned off while a device is being attached to it, and the older entry point succeeds.
\<close>

fun orderly :: "bridgeEvent list \<Rightarrow> bridge \<Rightarrow> bool" where
  "orderly [] b = True"
| "orderly (ev # evs) b =
     ((case ev of
         TurnOff h \<Rightarrow> (case tunnels b h of None \<Rightarrow> True | Some e \<Rightarrow> \<not> attachBusy b e)
       | TurnOn parsed outcome \<Rightarrow> parsed = None \<or> outcome = SetupOk
       | _ \<Rightarrow> True) \<and> orderly evs (bridgeExec ev b))"

definition hasHandle :: "bridge \<Rightarrow> nat \<Rightarrow> bool" where "hasHandle b e \<longleftrightarrow> (\<exists>h. tunnels b h = Some e)"
definition runsOn :: "bridge \<Rightarrow> nat \<Rightarrow> bool" where "runsOn b e \<longleftrightarrow> hasHandle b e \<or> (\<exists>i. stillRuns (calls b i) = Some e)"
definition closesLater :: "bridge \<Rightarrow> nat \<Rightarrow> bool" where
  "closesLater b e \<longleftrightarrow> hasHandle b e \<or> (\<exists>i. willClose (calls b i) = Some e)"
definition holds :: "bridge \<Rightarrow> nat \<Rightarrow> bool" where "holds b d \<longleftrightarrow> (\<exists>i. heldDev (calls b i) = Some d)"

definition owned :: "bridge \<Rightarrow> bool" where
  "owned b \<longleftrightarrow>
     (\<forall>p < nProxies b. stops b p = 0 \<longrightarrow> (\<exists>e < nEntries b. entProxy (entries b e) = p \<and> runsOn b e))
     \<and> (\<forall>d < nDevices b. closes b d = 0 \<longrightarrow> holds b d
         \<or> (\<exists>e < nEntries b. entDevice (entries b e) = Some d \<and> closesLater b e))
     \<and> (\<forall>i e. attEntry (calls b i) = Some e \<longrightarrow> hasHandle b e)
     \<and> (\<forall>i e. offEntry (calls b i) = Some e \<longrightarrow> willClose (calls b i) \<noteq> Some e \<longrightarrow> entDevice (entries b e) = None)"

lemma owned_init: "owned (bridgeInit l cs)"
  by (simp add: owned_def bridgeInit_def)

lemma owned_proxy:
  assumes "owned b" "p < nProxies b" "stops b p = 0"
  obtains e where "e < nEntries b" "entProxy (entries b e) = p" "runsOn b e"
  using assms unfolding owned_def by blast

lemma owned_device:
  assumes "owned b" "d < nDevices b" "closes b d = 0"
  obtains (Held) "holds b d" | (Entry) e where "e < nEntries b" "entDevice (entries b e) = Some d" "closesLater b e"
  using assms unfolding owned_def by blast

lemma owned_call:
  assumes "owned b"
  shows "attEntry (calls b i) = Some e \<Longrightarrow> hasHandle b e"
    "offEntry (calls b i) = Some e \<Longrightarrow> willClose (calls b i) \<noteq> Some e \<Longrightarrow> entDevice (entries b e) = None"
  using assms unfolding owned_def by blast+

lemma owned_change:
  assumes own: "owned b"
    and frame: "nEntries c = nEntries b" "nProxies c = nProxies b" "nDevices c = nDevices b"
      "\<And>e. entProxy (entries c e) = entProxy (entries b e)"
    and run: "\<And>e. e < nEntries b \<Longrightarrow> runsOn b e \<Longrightarrow> stops c (entProxy (entries b e)) = 0 \<Longrightarrow> runsOn c e"
    and stopped: "\<And>p. stops c p = 0 \<Longrightarrow> stops b p = 0" and closed: "\<And>d. closes c d = 0 \<Longrightarrow> closes b d = 0"
    and dev: "\<And>e d. e < nEntries b \<Longrightarrow> entDevice (entries b e) = Some d \<Longrightarrow> closesLater b e \<Longrightarrow> closes c d = 0 \<Longrightarrow>
      entDevice (entries c e) = Some d \<and> closesLater c e"
    and hold: "\<And>d. holds b d \<Longrightarrow> closes c d = 0 \<Longrightarrow>
      holds c d \<or> (\<exists>e < nEntries b. entDevice (entries c e) = Some d \<and> closesLater c e)"
    and att: "\<And>i e. attEntry (calls c i) = Some e \<Longrightarrow> hasHandle c e"
    and off: "\<And>i e. offEntry (calls c i) = Some e \<Longrightarrow> willClose (calls c i) \<noteq> Some e \<Longrightarrow> entDevice (entries c e) = None"
  shows "owned c"
proof -
  have "\<exists>e < nEntries b. entProxy (entries c e) = p \<and> runsOn c e" if "p < nProxies b" "stops c p = 0" for p
    using owned_proxy [OF own that(1) stopped [OF that(2)]] run that(2) frame(4) by metis
  moreover have "holds c d \<or> (\<exists>e < nEntries b. entDevice (entries c e) = Some d \<and> closesLater c e)"
    if "d < nDevices b" "closes c d = 0" for d
    using owned_device [OF own that(1) closed [OF that(2)]] dev hold that(2) by metis
  ultimately show ?thesis unfolding owned_def frame(1-3) using att off by blast
qed

lemma some_call: "\<exists>j. f (calls b j) = Some x \<Longrightarrow> (f (calls b i) = Some x \<Longrightarrow> f k = Some x) \<Longrightarrow>
    \<exists>j. f (((calls b)(i := k)) j) = Some x"
  by (metis fun_upd_other fun_upd_same)

lemma call_kept:
  assumes "calls c = (calls b)(i := k)"
  shows "runsOn b e \<Longrightarrow> (hasHandle b e \<Longrightarrow> hasHandle c e) \<Longrightarrow> (stillRuns (calls b i) = Some e \<Longrightarrow> stillRuns k = Some e)
      \<Longrightarrow> runsOn c e"
    "closesLater b e \<Longrightarrow> (hasHandle b e \<Longrightarrow> hasHandle c e) \<Longrightarrow> (willClose (calls b i) = Some e \<Longrightarrow> willClose k = Some e)
      \<Longrightarrow> closesLater c e"
    "holds b d \<Longrightarrow> (heldDev (calls b i) = Some d \<Longrightarrow> heldDev k = Some d) \<Longrightarrow> holds c d"
  unfolding runsOn_def closesLater_def holds_def assms using some_call [of stillRuns b e i k] some_call [of willClose b e i k]
    some_call [of heldDev b d i k] by blast+

lemma owned_setCall:
  assumes own: "owned b"
    and run: "\<And>e. stillRuns (calls b i) = Some e \<Longrightarrow> stillRuns c = Some e"
    and wil: "\<And>e. willClose (calls b i) = Some e \<Longrightarrow> willClose c = Some e \<or> entDevice (entries b e) = None"
    and hold: "\<And>d. heldDev (calls b i) = Some d \<Longrightarrow> heldDev c = Some d"
    and att: "\<And>e. attEntry c = Some e \<Longrightarrow> hasHandle b e"
    and off: "\<And>e. offEntry c = Some e \<Longrightarrow> willClose c \<noteq> Some e \<Longrightarrow> entDevice (entries b e) = None"
  shows "owned (setCall i c b)"
proof -
  let ?c = "setCall i c b"
  have H: "hasHandle ?c e = hasHandle b e" for e by (simp add: hasHandle_def setCall_def)
  have other: "calls ?c = (calls b)(i := c)" by (simp add: setCall_def)
  note K = call_kept [OF other]
  show ?thesis
  proof (rule owned_change [OF own], goal_cases)
    case (5 e) then show ?case using run K(1) H by blast
  next
    case (8 e d)
    then have "willClose (calls b i) = Some e \<Longrightarrow> willClose c = Some e" using wil [of e] by simp
    then have "closesLater ?c e" using 8(3) H K(2) by blast
    then show ?case using 8(2) by (simp add: setCall_def)
  next case (9 d) then show ?case using hold K(3) by blast
  next case (10 j e) then show ?case using owned_call(1) [OF own, of j e] att [of e] unfolding H by (auto simp: setCall_def split: if_splits)
  next case (11 j e) then show ?case using owned_call(2) [OF own, of j e] off [of e] by (auto simp: setCall_def split: if_splits)
  qed (simp_all add: setCall_def)
qed

lemma owned_sameTable:
  assumes "owned b" "sameTable b c" "nProxies c = nProxies b"
  shows "owned c"
  using assms unfolding owned_def sameTable_def hasHandle_def runsOn_def closesLater_def holds_def by simp

lemma owned_addTunnel:
  assumes own: "owned b" "tunnels b (nextID b) = None" and ok: "bridgeOK b"
    and c: "nEntries c = nEntries b" "entries c = entries b" "stops c = stops b" "closes c = closes b" "calls c = calls b"
      "tunnels c = tunnels b" "nextID c = nextID b" "nProxies c = Suc (nProxies b)"
      "nDevices c = (case dev of None \<Rightarrow> nDevices b | Some d \<Rightarrow> Suc (nDevices b))" "dev = None \<or> dev = Some (nDevices b)"
  shows "owned (fst (addTunnel \<lparr>entProxy = nProxies b, entDevice = dev\<rparr> c))"
proof -
  let ?c = "fst (addTunnel \<lparr>entProxy = nProxies b, entDevice = dev\<rparr> c)"
  have H: "hasHandle ?c e" if "hasHandle b e" for e
    using that own(2) c(6,7) unfolding hasHandle_def addTunnel_def by (auto simp: fun_upd_def) (metis option.distinct(1))
  have N: "hasHandle ?c (nEntries b)" using c(1,7) unfolding hasHandle_def addTunnel_def by auto
  have R: "runsOn ?c e" if "runsOn b e" for e using that H c unfolding runsOn_def by (auto simp: addTunnel_def)
  have W: "closesLater ?c e" if "closesLater b e" for e using that H c unfolding closesLater_def by (auto simp: addTunnel_def)
  have D: "holds ?c d = holds b d" for d using c by (simp add: holds_def addTunnel_def)
  have C: "nEntries ?c = Suc (nEntries b)" "stops ?c = stops b" "closes ?c = closes b" "calls ?c = calls b"
    "nProxies ?c = Suc (nProxies b)" "nDevices ?c = nDevices c"
    "entries ?c = (entries b)(nEntries b := \<lparr>entProxy = nProxies b, entDevice = dev\<rparr>)"
    using c by (simp_all add: addTunnel_def)
  have "\<exists>e < nEntries ?c. entProxy (entries ?c e) = p \<and> runsOn ?c e"
    if created: "p < nProxies ?c" and unstopped: "stops b p = 0" for p
  proof (cases "p = nProxies b")
    case True
    then show ?thesis using N unfolding C runsOn_def by auto
  next
    case False
    then have "p < nProxies b" using created C(5) by simp
    then obtain e where "e < nEntries b" "entProxy (entries b e) = p" "runsOn b e"
      using owned_proxy [OF own(1) _ unstopped] by metis
    then show ?thesis using R unfolding C by (intro exI [of _ e]) auto
  qed
  moreover have "holds ?c d \<or> (\<exists>e < nEntries ?c. entDevice (entries ?c e) = Some d \<and> closesLater ?c e)"
    if made: "d < nDevices ?c" and opened: "closes b d = 0" for d
  proof (cases "dev = Some d")
    case True
    then show ?thesis using N unfolding C closesLater_def by auto
  next
    case False
    then have "d < nDevices b" using made c(9,10) C(6) by auto
    then show ?thesis
    proof (cases rule: owned_device [OF own(1) _ opened, case_names Bound Held Entry])
      case (Entry e)
      then show ?thesis using W unfolding C by (intro disjI2 exI [of _ e]) auto
    qed (use made opened in \<open>simp_all add: D\<close>)
  qed
  moreover have "hasHandle ?c e" if "attEntry (calls b j) = Some e" for j e using H owned_call(1) [OF own(1) that] .
  moreover have "entDevice (entries ?c e) = None" if "offEntry (calls b j) = Some e" "willClose (calls b j) \<noteq> Some e" for j e
    using owned_call(2) [OF own(1) that] bridge_call(2) [OF ok that(1)] unfolding C by simp
  ultimately show ?thesis unfolding owned_def C(2-4) by blast
qed

lemma owned_failedSetup:
  assumes "owned b"
  shows "owned (closeDevice (nDevices b) (newDevice b))"
  using assms unfolding owned_def closeDevice_def newDevice_def hasHandle_def runsOn_def closesLater_def holds_def
  by (auto simp: less_Suc_eq)

lemma owned_setupOk:
  assumes own: "owned b" and c: "calls b i = AttachSetup e"
  shows "owned (setCall i (AttachUp e (nDevices b)) (newDevice b))"
proof -
  let ?c = "setCall i (AttachUp e (nDevices b)) (newDevice b)"
  let ?m = "setCall i (AttachUp e (nDevices b)) b"
  have m: "owned ?m" using own c owned_call(1) [OF own, of i e] by (intro owned_setCall) auto
  have new: "holds ?c (nDevices b)" by (auto simp: holds_def setCall_def)
  have same: "hasHandle ?c = hasHandle ?m" "runsOn ?c = runsOn ?m" "closesLater ?c = closesLater ?m" "holds ?c = holds ?m"
    by (simp_all add: fun_eq_iff hasHandle_def runsOn_def closesLater_def holds_def setCall_def newDevice_def)
  show ?thesis using m new unfolding owned_def same by (auto simp: less_Suc_eq setCall_def newDevice_def)
qed

lemma owned_raced:
  assumes own: "owned b" and c: "calls b i = AttachRaced d"
  shows "owned (setCall i (Returned (- 2)) (closeDevice d b))" (is "owned ?c")
proof -
  have H: "hasHandle ?c = hasHandle b" by (simp add: fun_eq_iff hasHandle_def setCall_def closeDevice_def)
  have other: "calls ?c = (calls b)(i := Returned (- 2))" by (simp add: setCall_def closeDevice_def)
  note K = call_kept [OF other]
  show ?thesis
  proof (rule owned_change [OF own], goal_cases)
    case (5 e) then show ?case using c K(1) H by simp
  next case (8 e d') then show ?case using c K(2) [of e] H by (simp add: setCall_def closeDevice_def)
  next case (9 d') then show ?case using c K(3) [of d'] by (auto simp: setCall_def closeDevice_def split: if_splits)
  next case (10 j e) then show ?case using owned_call(1) [OF own, of j e] unfolding H other by (auto split: if_splits)
  next case (11 j e) then show ?case using owned_call(2) [OF own, of j e] unfolding other
      by (auto simp: setCall_def closeDevice_def split: if_splits)
  qed (simp_all add: setCall_def closeDevice_def split: if_splits)
qed

lemma owned_commit:
  assumes ok: "bridgeOK b" and own: "owned b" and c: "calls b i = AttachUp e d" and none: "entDevice (entries b e) = None"
  shows "owned (setCall i (Returned 1) (b\<lparr>entries := (entries b)(e := (entries b e)\<lparr>entDevice := Some d\<rparr>)\<rparr>))" (is "owned ?c")
proof -
  have e: "e < nEntries b" "hasHandle b e" using bridge_call(5) [OF ok, of i e] owned_call(1) [OF own, of i e] c by auto
  have H: "hasHandle ?c = hasHandle b" by (simp add: fun_eq_iff hasHandle_def setCall_def)
  have other: "calls ?c = (calls b)(i := Returned 1)" by (simp add: setCall_def)
  note K = call_kept [OF other]
  have new: "closesLater ?c e" using e(2) unfolding closesLater_def H by simp
  show ?thesis
  proof (rule owned_change [OF own], goal_cases)
    case (5 e') then show ?case using c K(1) H by simp
  next case (8 e' d') then show ?case using c none K(2) [of e'] H by (auto simp: setCall_def)
  next
    case (9 d')
    then show ?case
    proof (cases "d' = d")
      case True
      then show ?thesis using e(1) new by (intro disjI2 exI [of _ e]) (simp add: setCall_def)
    next
      case False
      then show ?thesis using 9 c K(3) [of d'] by simp
    qed
  next case (10 j e') then show ?case using owned_call(1) [OF own, of j e'] unfolding H other by (auto split: if_splits)
  next case (11 j e') then show ?case using owned_call(2) [OF own, of j e'] bridge_call(3) [OF ok, of j e'] e(2) unfolding other
      by (auto simp: setCall_def hasHandle_def split: if_splits)
  qed (simp_all add: setCall_def)
qed

lemma owned_stopping:
  assumes own: "owned b" and c: "calls b i = OffStopping e hv"
  shows "owned (setCall i (OffClosing e hv) (stopProxy (entProxy (entries b e)) b))" (is "owned ?c")
proof -
  have H: "hasHandle ?c = hasHandle b" by (simp add: fun_eq_iff hasHandle_def setCall_def stopProxy_def)
  have other: "calls ?c = (calls b)(i := OffClosing e hv)" by (simp add: setCall_def stopProxy_def)
  note K = call_kept [OF other]
  show ?thesis
  proof (rule owned_change [OF own], goal_cases)
    case (5 e')
    then have "e' \<noteq> e" by (auto simp: setCall_def stopProxy_def)
    then show ?case using 5(2) c K(1) H by simp
  next case (8 e' d) then show ?case using c K(2) [of e'] H by (auto simp: setCall_def stopProxy_def)
  next case (9 d) then show ?case using c K(3) [of d] by simp
  next case (10 j e') then show ?case using owned_call(1) [OF own, of j e'] unfolding H other by (auto split: if_splits)
  next case (11 j e') then show ?case using owned_call(2) [OF own, of j e'] owned_call(2) [OF own, of i e'] c unfolding other
      by (auto simp: setCall_def stopProxy_def split: if_splits)
  qed (simp_all add: setCall_def stopProxy_def split: if_splits)
qed

lemma owned_offCloses:
  assumes own: "owned b" and c: "calls b i = OffClosing e hv"
  shows "owned (offCloses i e hv b)"
proof (cases "hv \<and> entDevice (entries b e) \<noteq> None")
  case False
  then have "offCloses i e hv b = setCall i (Returned 0) b" by (auto simp: offCloses_def split: option.splits bool.splits)
  moreover have "owned (setCall i (Returned 0) b)" using own False c by (intro owned_setCall) (auto split: if_splits)
  ultimately show ?thesis by simp
next
  case True
  then obtain d where d: "entDevice (entries b e) = Some d" by blast
  let ?c = "setCall i (Returned 0) (closeDevice d b)"
  have H: "hasHandle ?c = hasHandle b" by (simp add: fun_eq_iff hasHandle_def setCall_def closeDevice_def)
  have other: "calls ?c = (calls b)(i := Returned 0)" by (simp add: setCall_def closeDevice_def)
  note K = call_kept [OF other]
  have "owned ?c"
  proof (rule owned_change [OF own], goal_cases)
    case (5 e') then show ?case using c K(1) H by simp
  next
    case (8 e' d')
    then have "e' \<noteq> e" using d by (auto simp: setCall_def closeDevice_def)
    then have "willClose (calls b i) \<noteq> Some e'" using c by auto
    then have "closesLater ?c e'" using 8(3) H K(2) by metis
    then show ?case using 8(2) by (simp add: setCall_def closeDevice_def)
  next case (9 d') then show ?case using c K(3) [of d'] by simp
  next case (10 j e') then show ?case using owned_call(1) [OF own, of j e'] unfolding H other by (auto split: if_splits)
  next case (11 j e') then show ?case using owned_call(2) [OF own, of j e'] unfolding other
      by (auto simp: setCall_def closeDevice_def split: if_splits)
  qed (simp_all add: setCall_def closeDevice_def split: if_splits)
  then show ?thesis using True d by (simp add: offCloses_def)
qed

lemma owned_newCall: "owned b \<Longrightarrow> bridgeOK b \<Longrightarrow> (\<And>e. attEntry c = Some e \<Longrightarrow> hasHandle b e) \<Longrightarrow>
    (\<And>e. offEntry c = Some e \<Longrightarrow> willClose c = Some e) \<Longrightarrow> owned (newCall c b)"
proof -
  assume own: "owned b" and ok: "bridgeOK b" and att: "\<And>e. attEntry c = Some e \<Longrightarrow> hasHandle b e"
    and off: "\<And>e. offEntry c = Some e \<Longrightarrow> willClose c = Some e"
  have "calls b (nCalls b) = Returned 0" using bridge_call(1) [OF ok] by simp
  then have "owned (setCall (nCalls b) c b)" using own att off by (intro owned_setCall) auto
  then show ?thesis unfolding owned_def runsOn_def closesLater_def hasHandle_def holds_def newCall_def setCall_def by simp
qed

lemma attachBusy_iff: "bridgeOK b \<Longrightarrow> attachBusy b e \<longleftrightarrow> (\<exists>i. attEntry (calls b i) = Some e)"
  using bridge_call(1) [of b] by (auto simp: attachBusy_def list_ex_iff Bex_def) (metis attEntry.simps(8) linorder_not_le option.distinct(1))

lemma owned_offBegin:
  assumes ok: "bridgeOK b" and own: "owned b" and quiet: "\<And>e. tunnels b h = Some e \<Longrightarrow> \<not> attachBusy b e"
  shows "owned (offBegin h b)"
proof (cases "tunnels b h")
  case None
  then have "b\<lparr>tunnels := (tunnels b)(h := None)\<rparr> = b" by (simp add: fun_upd_idem)
  then show ?thesis using None owned_newCall [OF own ok, of "Returned 0"] by (simp add: offBegin_def)
next
  case (Some e)
  let ?c = "offBegin h b"
  have H: "hasHandle ?c e'" if "hasHandle b e'" "e' \<noteq> e" for e'
    using that Some by (auto simp: hasHandle_def offBegin_def newCall_def) (metis option.inject)
  have fresh: "calls b (nCalls b) = Returned 0" using bridge_call(1) [OF ok] by simp
  have other: "calls ?c = (calls b)(nCalls b := OffRemoved e)" using Some by (simp add: offBegin_def newCall_def)
  note K = call_kept [OF other]
  have new: "stillRuns (calls ?c (nCalls b)) = Some e" "willClose (calls ?c (nCalls b)) = Some e" by (simp_all add: other)
  show ?thesis
  proof (rule owned_change [OF own], goal_cases)
    case (5 e')
    then show ?case using new(1) H [of e'] fresh K(1) [of e'] by (cases "e' = e") (auto simp: runsOn_def)
  next
    case (8 e' d)
    then show ?case using new(2) H [of e'] fresh K(2) [of e']
      by (cases "e' = e") (auto simp: offBegin_def newCall_def closesLater_def)
  next case (9 d) then show ?case using fresh K(3) [of d] by simp
  next
    case (10 j e')
    then have "attEntry (calls b j) = Some e'" by (auto simp: other split: if_splits)
    then show ?case using owned_call(1) [OF own] H quiet [OF Some] attachBusy_iff [OF ok] by metis
  next case (11 j e') then show ?case using owned_call(2) [OF own, of j e'] unfolding other
      by (auto simp: offBegin_def newCall_def split: if_splits)
  qed (simp_all add: offBegin_def newCall_def)
qed

lemma next_free:
  assumes ok: "bridgeOK b" and "Suc (nEntries b) < 2 ^ 32"
  shows "tunnels b (nextID b) = None"
proof (rule ccontr)
  assume "tunnels b (nextID b) \<noteq> None"
  then obtain e where e: "tunnels b (nextID b) = Some e" by blast
  then have less: "e < nEntries b" and "nextID b = of_nat (Suc e)" using bridge_table [OF ok] by blast+
  then have "unat (of_nat (Suc e) :: 32 word) = unat (of_nat (Suc (nEntries b)) :: 32 word)"
    using bridge_table(1) [OF ok] by simp
  moreover have "unat (of_nat n :: 32 word) = n" if "n < 2 ^ 32" for n
    using that by (simp add: unsigned_of_nat take_bit_nat_eq_self)
  moreover have "Suc e < 2 ^ 32" using less assms(2) by linarith
  ultimately show False using less assms(2) by (metis nat.inject less_irrefl)
qed

lemma owned_callStep:
  assumes ok: "bridgeOK b" and own: "owned b"
  shows "owned (callStep i outcome b)"
proof (cases "calls b i")
  case (AttachLooked e)
  have "owned (setCall i (AttachSetup e) b)" "owned (setCall i (Returned (- 2)) b)"
    using own AttachLooked owned_call(1) [OF own, of i e] by (auto intro!: owned_setCall)
  then show ?thesis using AttachLooked by (simp add: callStep_def attachChecks_def)
next
  case (AttachSetup e)
  have "owned (setCall i (Returned r) b)" "owned (setCall i (Returned r) (closeDevice (nDevices b) (newDevice b)))" for r
    using own owned_failedSetup [OF own] AttachSetup by (auto intro!: owned_setCall simp: closeDevice_def newDevice_def)
  then show ?thesis using AttachSetup owned_setupOk [OF own AttachSetup]
    by (cases outcome) (simp_all add: callStep_def attachSetup_def)
next
  case (AttachUp e d)
  have "owned (setCall i (AttachRaced d) b)" using own AttachUp by (intro owned_setCall) auto
  then show ?thesis using AttachUp owned_commit [OF ok own AttachUp] by (auto simp: callStep_def attachCommit_def)
next
  case (AttachRaced d)
  then show ?thesis using owned_raced [OF own AttachRaced] by (simp add: callStep_def)
next
  case (OffRemoved e)
  have "owned (setCall i (OffStopping e (entDevice (entries b e) \<noteq> None)) b)" using own OffRemoved
    by (intro owned_setCall) (auto split: if_splits)
  then show ?thesis using OffRemoved by (simp add: callStep_def)
next
  case (OffStopping e hv)
  then show ?thesis using owned_stopping [OF own OffStopping] by (simp add: callStep_def)
next
  case (OffClosing e hv)
  then show ?thesis using owned_offCloses [OF own OffClosing] by (simp add: callStep_def)
next
  case (Returned r)
  then show ?thesis using own by (simp add: callStep_def)
qed

lemma newProxy_applyGlobals_same: "sameTable b (newProxy cfg start (applyGlobals pc b))"
  by (rule sameTable_trans [OF applyGlobals_frame(1) newProxy_frame(1)])

lemma owned_exec:
  assumes ok: "bridgeOK b" and own: "owned b" and room: "Suc (nEntries b) < 2 ^ 32" and ord: "orderly (ev # evs) b"
  shows "owned (bridgeExec ev b)"
proof (cases ev)
  case (StartBootstrap parsed)
  show ?thesis
  proof (cases parsed)
    case None
    then show ?thesis using StartBootstrap own by (simp add: wgStartVKBootstrap_def)
  next
    case (Some pc)
    then show ?thesis using StartBootstrap newProxy_applyGlobals_same [of b _ _ pc]
      by (simp add: wgStartVKBootstrap_def Let_def applyGlobals_frame sameTable_def newProxy_frame
          owned_addTunnel [OF own next_free [OF ok room] ok])
  qed
next
  case (TurnOn parsed outcome)
  show ?thesis
  proof (cases parsed)
    case None
    then show ?thesis using TurnOn own by (simp add: wgTurnOnWithTURN_def)
  next
    case (Some pc)
    let ?m = "newProxy (proxyConfigOf pc None []) None (applyGlobals pc b)"
    have m: "sameTable b ?m" "nProxies ?m = Suc (nProxies b)"
      by (simp_all add: newProxy_applyGlobals_same newProxy_frame applyGlobals_frame)
    have "owned (fst (addTunnel \<lparr>entProxy = nProxies b, entDevice = Some (nDevices b)\<rparr> (newDevice ?m)))"
      by (rule owned_addTunnel [OF own next_free [OF ok room] ok]) (use m in \<open>simp_all add: sameTable_def newDevice_def\<close>)
    moreover have "outcome = SetupOk" using ord TurnOn Some by simp
    ultimately show ?thesis using TurnOn Some m by (simp add: wgTurnOnWithTURN_def Let_def applyGlobals_frame sameTable_def)
  qed
next
  case (Attach h)
  then show ?thesis by (auto simp: attachBegin_def hasHandle_def intro!: owned_newCall [OF own ok] split: option.splits)
next
  case (TurnOff h)
  then show ?thesis using ord owned_offBegin [OF ok own, of h] by (simp split: option.splits)
next
  case (CallStep i outcome)
  then show ?thesis using owned_callStep [OF ok own] by simp
qed

lemma entries_grow: "nEntries (bridgeExec ev b) \<le> Suc (nEntries b)"
proof (cases ev)
  case (CallStep i outcome)
  then show ?thesis
    by (cases "calls b i"; cases outcome) (auto simp: callStep_def attachChecks_def attachSetup_def attachCommit_def offCloses_def
      setCall_def closeDevice_def newDevice_def stopProxy_def split: option.splits bool.splits)
qed (auto simp: wgStartVKBootstrap_def wgTurnOnWithTURN_def attachBegin_def offBegin_def newCall_def addTunnel_def applyGlobals_def
    newProxy_def newDevice_def closeDevice_def SetVKHostIPs_def Let_def split: option.splits setupOutcome.splits)

lemma owned_run: "bridgeOK b \<Longrightarrow> owned b \<Longrightarrow> nEntries b + length evs < 2 ^ 32 \<Longrightarrow> orderly evs b \<Longrightarrow> owned (bridgeRun evs b)"
proof (induction evs arbitrary: b)
  case (Cons ev evs)
  have "owned (bridgeExec ev b)" using owned_exec [OF Cons.prems(1,2) _ Cons.prems(4)] Cons.prems(3) by simp
  then show ?case using Cons.IH [OF bridgeOK_exec [OF Cons.prems(1)]] Cons.prems(3,4) entries_grow [of ev b] by simp
qed simp

section \<open>What holds of every run\<close>

text \<open>An entry keeps its proxy, and its device once it has one.\<close>

definition laterEntry :: "tunnelEntry \<Rightarrow> tunnelEntry \<Rightarrow> bool" where
  "laterEntry x y \<longleftrightarrow> entProxy y = entProxy x \<and> (\<forall>d. entDevice x = Some d \<longrightarrow> entDevice y = Some d)"

lemma entry_stays:
  assumes ok: "bridgeOK b" and e: "e < nEntries b"
  shows "laterEntry (entries b e) (entries (bridgeExec ev b) e) \<and> e < nEntries (bridgeExec ev b)"
proof (cases ev)
  case (CallStep i outcome)
  then show ?thesis using e
    by (cases "calls b i"; cases outcome) (auto simp: callStep_def attachChecks_def attachSetup_def attachCommit_def offCloses_def
      setCall_def closeDevice_def newDevice_def stopProxy_def laterEntry_def split: option.splits bool.splits)
qed (use e in \<open>auto simp: wgStartVKBootstrap_def wgTurnOnWithTURN_def attachBegin_def offBegin_def newCall_def addTunnel_def
    applyGlobals_def newProxy_def newDevice_def closeDevice_def SetVKHostIPs_def Let_def laterEntry_def
    split: option.splits setupOutcome.splits\<close>)

lemma entry_stays_run:
  "bridgeOK b \<Longrightarrow> e < nEntries b \<Longrightarrow>
    laterEntry (entries b e) (entries (bridgeRun evs b) e) \<and> e < nEntries (bridgeRun evs b)"
proof (induction evs arbitrary: b)
  case (Cons ev evs)
  have "laterEntry (entries b e) (entries (bridgeExec ev b) e)" "e < nEntries (bridgeExec ev b)"
    using entry_stays [OF Cons.prems] by blast+
  then show ?case using Cons.IH [OF bridgeOK_exec [OF Cons.prems(1), of ev]] by (auto simp: laterEntry_def)
qed (simp add: laterEntry_def)

definition sampleConfig :: bridgeConfig where
  "sampleConfig = \<lparr>bcVKLink = ''https://vk.com/call/join/abc'', bcPeerAddr = ''198.51.100.7:56000'', bcTurnServer = [],
     bcTurnPort = [], bcUseDTLS = True, bcUseUDP = True, bcUseWrap = False, bcWrapKeyHex = [], bcUseSrtp = False, bcNumConns = 3,
     bcCooldownSeconds = 120, bcVKHostIPs = [], bcSeededTURN = None, bcForceLegacyCaptcha = False, bcUseCookieAuth = True,
     bcUseWrapA = False, bcWrapAPassword = [], bcDeviceID = []\<rparr>"

lemmas bridge_run_defs = bridgeInit_def wgStartVKBootstrap_def wgTurnOnWithTURN_def attachBegin_def offBegin_def newCall_def addTunnel_def
  applyGlobals_def newProxy_def newDevice_def closeDevice_def Let_def callStep_def attachChecks_def attachSetup_def
  attachCommit_def offCloses_def setCall_def stopProxy_def sampleConfig_def attachBusy_def

text \<open>
  C26. In every interleaving of the exported calls: a handle in the table leads to a proxy that was not stopped
  and to no device or one that was not closed; no proxy is stopped and no device closed twice; the device of an
  entry is closed only after the proxy of that entry was stopped; and an entry keeps its proxy, and its device once it
  has one, whatever runs later.
\<close>

theorem bridge_handles_alive:
  assumes "b = bridgeRun evs (bridgeInit logPath cs)" and "b' = bridgeRun evs' b"
  shows "(\<forall>h e. tunnels b h = Some e \<longrightarrow> h = of_nat (Suc e) \<and> stops b (entProxy (entries b e)) = 0
        \<and> (\<forall>d. entDevice (entries b e) = Some d \<longrightarrow> closes b d = 0))
    \<and> (\<forall>p. stops b p \<le> 1) \<and> (\<forall>d. closes b d \<le> 1)
    \<and> (\<forall>e < nEntries b. \<forall>d. entDevice (entries b e) = Some d \<longrightarrow> closes b d = 1 \<longrightarrow> stops b (entProxy (entries b e)) = 1)
    \<and> (\<forall>e < nEntries b. laterEntry (entries b e) (entries b' e))"
proof -
  have ok: "bridgeOK b" unfolding assms(1) by (rule bridgeOK_run)
  show ?thesis unfolding assms(2)
    using bridge_table(3) [OF ok] bridge_count(3-6,10) [OF ok] entry_stays_run [OF ok] by blast
qed


theorem bridge_handles_alive_witness:
  "let b = bridgeRun [StartBootstrap (Some sampleConfig), Attach 1, CallStep 0 SetupOk, CallStep 0 SetupOk, CallStep 0 SetupOk]
       (bridgeInit [] cookieInit) in
   tunnels b 1 = Some 0 \<and> stops b 0 = 0 \<and> entDevice (entries b 0) = Some 0 \<and> closes b 0 = 0
   \<and> entDevice (entries (bridgeRun [TurnOff 1, Attach 1] b) 0) = Some 0"
proof -
  define b where "b = bridgeRun [StartBootstrap (Some sampleConfig), Attach 1, CallStep 0 SetupOk, CallStep 0 SetupOk,
    CallStep 0 SetupOk] (bridgeInit [] cookieInit)"
  have c: "tunnels b 1 = Some 0" "entDevice (entries b 0) = Some 0" "entProxy (entries b 0) = 0" "nEntries b = 1"
    unfolding b_def by (simp_all add: bridge_run_defs)
  have "stops b 0 = 0 \<and> closes b 0 = 0 \<and> entDevice (entries (bridgeRun [TurnOff 1, Attach 1] b) 0) = Some 0"
    using bridge_handles_alive [OF b_def refl, of "[TurnOff 1, Attach 1]"] c
    by (metis (no_types, lifting) laterEntry_def less_one)
  then show ?thesis using c unfolding Let_def b_def [symmetric] by simp
qed


text \<open>What the two conditions are for: a device committed after its tunnel was turned off, and a proxy whose set-up failed.\<close>

lemma attach_race_leaks:
  "let b = bridgeRun [StartBootstrap (Some sampleConfig), Attach 1, CallStep 0 SetupOk, CallStep 0 SetupOk, TurnOff 1,
       CallStep 1 SetupOk, CallStep 1 SetupOk, CallStep 1 SetupOk, CallStep 0 SetupOk] (bridgeInit [] cs) in
   calls b 0 = Returned 1 \<and> calls b 1 = Returned 0 \<and> ran (tunnels b) = {} \<and> nDevices b = 1 \<and> closes b 0 = 0"
  by (simp add: bridge_run_defs ran_def)

lemma turnOn_failure_leaks:
  "let b = bridgeRun [TurnOn (Some sampleConfig) IpcSetFails] (bridgeInit [] cs) in
   ran (tunnels b) = {} \<and> nProxies b = 1 \<and> stops b 0 = 0"
  by (simp add: bridge_run_defs ran_def)

section \<open>The WRAP key, from the text typed to the running proxy\<close>

lemma checkTransport_same:
  "wrapKey (fst (checkTransport derive uuid c)) = wrapKey c"
  "useWrap (fst (checkTransport derive uuid c)) \<longleftrightarrow> useWrap c \<and> length (wrapKey c) = 32"
  by (auto simp: checkTransport_def Let_def split: option.splits)

lemma proxyConfigOf_wrap:
  fixes pc :: bridgeConfig
  defines "s \<equiv> filter (\<lambda>c. \<not> keySpace c) (bcWrapKeyHex pc)"
  shows "useWrap (cfTransport (proxyConfigOf pc seed path)) \<longleftrightarrow> bcUseWrap pc \<and> (\<exists>k. hex_decode s = Some k \<and> length k = 32)"
    "useWrap (cfTransport (proxyConfigOf pc seed path)) \<Longrightarrow> hex_decode s = Some (wrapKey (cfTransport (proxyConfigOf pc seed path)))"
  unfolding proxyConfigOf_def decodeWrapKey_def s_def [symmetric]
  by (cases "s = []"; cases "hex_decode s"; simp add: Let_def split: sum.splits if_splits)+

text \<open>
  A proxy started by the bridge has WRAP on exactly when it was asked for and the key text, without its white
  space, is the hexadecimal form of 32 bytes; the proxy then has those bytes as its key, so that the proxy's own length check never
  fires. Any text that spells a key of 32 bytes, with white space anywhere, is accepted.
\<close>

theorem bridge_wrap_key:
  "let cfg = proxyConfigOf pc seed path; t = fst (checkTransport derive uuid (cfTransport cfg));
       decoded = hex_decode (filter (\<lambda>c. \<not> keySpace c) (bcWrapKeyHex pc)) in
   (useWrap t \<longleftrightarrow> bcUseWrap pc \<and> (\<exists>k. decoded = Some k \<and> length k = 32))
   \<and> (useWrap t \<longrightarrow> decoded = Some (wrapKey t))
   \<and> useWrap t = useWrap (cfTransport cfg)
   \<and> (\<forall>k. filter (\<lambda>c. \<not> keySpace c) (bcWrapKeyHex pc) = hex_encode k \<longrightarrow> length k = 32 \<longrightarrow> bcUseWrap pc
       \<longrightarrow> useWrap t \<and> wrapKey t = k)"
proof -
  let ?dec = "hex_decode (filter (\<lambda>c. \<not> keySpace c) (bcWrapKeyHex pc))"
  let ?c = "cfTransport (proxyConfigOf pc seed path)"
  note c = proxyConfigOf_wrap [of pc seed path]
  have "length (wrapKey ?c) = 32" if "useWrap ?c" using c that by auto
  then have t: "useWrap (fst (checkTransport derive uuid ?c)) = useWrap ?c" "wrapKey (fst (checkTransport derive uuid ?c)) = wrapKey ?c"
    unfolding checkTransport_same by blast+
  have "useWrap ?c \<and> wrapKey ?c = k"
    if "filter (\<lambda>c. \<not> keySpace c) (bcWrapKeyHex pc) = hex_encode k" "length k = 32" "bcUseWrap pc" for k
    using c that by simp
  then show ?thesis unfolding Let_def t using c by blast
qed

theorem bridge_wrap_key_witness:
  "let pc = sampleConfig\<lparr>bcUseWrap := True, bcWrapKeyHex := '' '' @ hex_encode (replicate 32 171) @ '' ''\<rparr>;
       t = fst (checkTransport (\<lambda>_. None) [] (cfTransport (proxyConfigOf pc None [])))
   in useWrap t \<and> wrapKey t = replicate 32 171"
proof -
  let ?pc = "sampleConfig\<lparr>bcUseWrap := True, bcWrapKeyHex := '' '' @ hex_encode (replicate 32 171) @ '' ''\<rparr>"
  have "filter (\<lambda>c. \<not> keySpace c) (bcWrapKeyHex ?pc) = hex_encode (replicate 32 171)" by code_simp
  then show ?thesis using bridge_wrap_key [of ?pc None "[]" "\<lambda>_. None" "[]"] by (simp add: Let_def)
qed

text \<open>The name of the credential cache, for the log files the app uses.\<close>

lemma credCachePathOf_examples:
  "credCachePathOf ''/group/Library/logs/vpn.log'' = ''/group/Library/logs/creds-pool.json''"
  "credCachePathOf [] = []" "credCachePathOf ''vpn.log'' = ''creds-pool.json''" "CleanPath ''/a/../../b/./c//'' = ''/b/c''"
  by (simp_all add: credCachePathOf_def DirPath_def CleanPath_def Let_def)

end
