(* ===== verification/CaptchaPow.thy ===== *)
theory CaptchaPow
  imports SliderSolve
begin

text \<open>
  The automatic captcha solver of \<open>captcha_pow.go\<close>: the proof of work, the form bodies and the four requests to VK,
  with the slider solver as the last resort. The captcha page, SHA-256 and VK are functions; what was read from the page
  by regular expressions is a record.
\<close>

section \<open>Forms\<close>

text \<open>\<open>url.QueryEscape\<close> and \<open>url.QueryUnescape\<close>.\<close>

definition unreserved :: "char \<Rightarrow> bool" where
  "unreserved c \<longleftrightarrow> (let n = (of_char c :: nat) in
     97 \<le> n \<and> n \<le> 122 \<or> 65 \<le> n \<and> n \<le> 90 \<or> 48 \<le> n \<and> n \<le> 57 \<or> n = 45 \<or> n = 95 \<or> n = 46 \<or> n = 126)"

definition upperHex :: "nat \<Rightarrow> char" where "upperHex n = ''0123456789ABCDEF'' ! n"

definition escapeChar :: "char \<Rightarrow> string" where
  "escapeChar c = (if c = CHR '' '' then ''+'' else if unreserved c then [c]
     else let n = (of_char c :: nat) in [CHR ''%'', upperHex (n div 16), upperHex (n mod 16)])"

definition QueryEscape :: "string \<Rightarrow> string" where "QueryEscape s = concat (map escapeChar s)"

fun QueryUnescape :: "string \<Rightarrow> string option" where
  "QueryUnescape [] = Some []"
| "QueryUnescape (c # cs) =
     (if c = CHR ''+'' then map_option ((#) (CHR '' '')) (QueryUnescape cs)
      else if c = CHR ''%'' then
        (case cs of p # q # rest \<Rightarrow>
            (case (hex_val p, hex_val q) of
               (Some i, Some j) \<Rightarrow> map_option ((#) (char_of (i * 16 + j))) (QueryUnescape rest)
             | _ \<Rightarrow> None)
         | _ \<Rightarrow> None)
      else map_option ((#) c) (QueryUnescape cs))"

text \<open>The requests: one identity is used for a whole conversation.\<close>

record powIdentity =
  piSession :: string
  piHash :: string
  piAdFp :: string
  piDebug :: string
  piBrowserFp :: string
  piDevice :: string

definition accessTokenSuffix :: string where "accessTokenSuffix = ''&access_token=''"

definition baseParams :: "string \<Rightarrow> string \<Rightarrow> string" where
  "baseParams session adFp = ''session_token='' @ QueryEscape session @ ''&domain='' @ QueryEscape ''vk.com'' @ ''&adFp='' @ QueryEscape adFp"

definition settingsBody :: "powIdentity \<Rightarrow> string" where
  "settingsBody I = baseParams (piSession I) [] @ accessTokenSuffix"

definition componentBody :: "powIdentity \<Rightarrow> string" where
  "componentBody I = baseParams (piSession I) (piAdFp I) @ ''&browser_fp='' @ piBrowserFp I @ ''&device='' @ piDevice I
     @ accessTokenSuffix"

definition checkBody :: "powIdentity \<Rightarrow> string" where
  "checkBody I = baseParams (piSession I) (piAdFp I)
     @ ''&accelerometer='' @ QueryEscape ''[]'' @ ''&gyroscope='' @ QueryEscape ''[]'' @ ''&motion='' @ QueryEscape ''[]''
     @ ''&cursor='' @ QueryEscape ''[]'' @ ''&taps='' @ QueryEscape ''[]'' @ ''&connectionRtt='' @ QueryEscape ''[]''
     @ ''&connectionDownlink='' @ QueryEscape ''[]'' @ ''&browser_fp='' @ piBrowserFp I @ ''&hash='' @ piHash I
     @ ''&answer='' @ QueryEscape (b64_encode (bytes_of_string ''{}'')) @ ''&debug_info='' @ piDebug I @ accessTokenSuffix"

definition endBody :: "powIdentity \<Rightarrow> string" where
  "endBody I = baseParams (piSession I) (piAdFp I) @ accessTokenSuffix"

section \<open>The proof of work\<close>

definition powLimit :: nat where "powLimit = 10000000"

definition powDigest :: "(bytes \<Rightarrow> bytes) \<Rightarrow> string \<Rightarrow> nat \<Rightarrow> string" where
  "powDigest sha256 powInput nonce = hex_encode (sha256 (bytes_of_string (powInput @ Itoa (int nonce))))"

function powFrom :: "(bytes \<Rightarrow> bytes) \<Rightarrow> string \<Rightarrow> nat \<Rightarrow> nat \<Rightarrow> string" where
  "powFrom sha256 powInput difficulty nonce =
     (if powLimit < nonce then []
      else let hexH = powDigest sha256 powInput nonce in
        if HasPrefix hexH (replicate difficulty CHR ''0'') then hexH
        else powFrom sha256 powInput difficulty (Suc nonce))"
  by pat_completeness auto
termination by (relation "measure (\<lambda>(_, _, _, nonce). Suc powLimit - nonce)") auto

declare powFrom.simps [simp del]

definition solvePoW :: "(bytes \<Rightarrow> bytes) \<Rightarrow> string \<Rightarrow> nat \<Rightarrow> string" where
  "solvePoW sha256 powInput difficulty = powFrom sha256 powInput difficulty 1"

section \<open>The constant from the script\<close>

definition hardcodedDebugInfo :: string where
  "hardcodedDebugInfo = ''a0ac4896e9b899f78d905fd37c5adb2b768aa955eb7b2a7bcba6ee2a44a96daf''"

text \<open>The cache by script address; \<open>extract\<close> is the value found in the script, none if it could not be fetched or holds none.\<close>

definition fetchAndCacheDebugInfo ::
  "(string \<Rightarrow> string option) \<Rightarrow> string \<Rightarrow> (string \<Rightarrow> string option) \<Rightarrow> (string \<Rightarrow> string option) \<times> string" where
  "fetchAndCacheDebugInfo extract scriptURL cache =
     (if scriptURL = [] then (cache, hardcodedDebugInfo)
      else case cache scriptURL of
          Some v \<Rightarrow> (cache, v)
        | None \<Rightarrow> (case extract scriptURL of
              None \<Rightarrow> (cache, hardcodedDebugInfo)
            | Some v \<Rightarrow> (cache(scriptURL := Some v), v)))"

section \<open>The conversation\<close>

datatype powReq = PowPost string string | SliderAsk vkRequest

type_synonym powVk = "powReq list \<Rightarrow> string + jobj"

datatype powError =
    BadRedirect string | NoSessionToken | SolveCancelled | PageFailed string | NoSolution
  | SettingsFailed string | ComponentFailed string | CheckFailed string | CheckInvalid | NoSuccessToken
  | SliderFailed "sliderError option"

record powResult =
  prSent :: "powReq list"
  prToken :: string
  prShow :: string
  prErr :: "powError option"

definition powFail :: "powReq list \<Rightarrow> string \<Rightarrow> powError \<Rightarrow> powResult" where
  "powFail h show e = \<lparr>prSent = h, prToken = [], prShow = show, prErr = Some e\<rparr>"

definition powDone :: "powReq list \<Rightarrow> string \<Rightarrow> string \<Rightarrow> powResult" where
  "powDone h token show = \<lparr>prSent = h, prToken = token, prShow = show, prErr = None\<rparr>"

definition settingsReq :: "powIdentity \<Rightarrow> powReq" where
  "settingsReq I = PowPost ''captchaNotRobot.settings'' (settingsBody I)"
definition componentReq :: "powIdentity \<Rightarrow> powReq" where
  "componentReq I = PowPost ''captchaNotRobot.componentDone'' (componentBody I)"
definition checkReq :: "powIdentity \<Rightarrow> powReq" where
  "checkReq I = PowPost ''captchaNotRobot.check'' (checkBody I)"
definition endReq :: "powIdentity \<Rightarrow> powReq" where
  "endReq I = PowPost ''captchaNotRobot.endSession'' (endBody I)"

definition htmlShowType :: "jobj option \<Rightarrow> string" where
  "htmlShowType html = (case html of None \<Rightarrow> []
     | Some o1 \<Rightarrow> (case as_obj (jget o1 ''response'') of None \<Rightarrow> []
         | Some r \<Rightarrow> str_or_empty (jget r ''show_captcha_type'')))"

text \<open>
  \<open>callCaptchaNotRobotAPI\<close>; \<open>vk\<close> answers the last request of a list. \<open>cancelled\<close> says that the context ended during the
  pause before the check. A failing \<open>endSession\<close> changes nothing.
\<close>

definition callCaptchaNotRobotAPI ::
  "(nat list \<Rightarrow> 'f :: {linorder, zero}) \<Rightarrow> (string \<Rightarrow> image option) \<Rightarrow> (json \<Rightarrow> string option)
    \<Rightarrow> (string \<Rightarrow> json list option) \<Rightarrow> powVk \<Rightarrow> bool \<Rightarrow> powIdentity \<Rightarrow> jobj option \<Rightarrow> powResult" where
  "callCaptchaNotRobotAPI textScore decodeImage marshal unmarshal vk cancelled I html =
     (let h1 = [settingsReq I]; show0 = htmlShowType html in
      case vk h1 of Inl e \<Rightarrow> powFail h1 show0 (SettingsFailed e)
      | Inr settingsResp \<Rightarrow>
      (let h2 = h1 @ [componentReq I] in
       case vk h2 of Inl e \<Rightarrow> powFail h2 show0 (ComponentFailed e)
       | Inr _ \<Rightarrow>
       (if cancelled then powFail h2 show0 SolveCancelled
        else let h3 = h2 @ [checkReq I] in
        case vk h3 of Inl e \<Rightarrow> powFail h3 show0 (CheckFailed e)
        | Inr checkResp \<Rightarrow>
        (case as_obj (jget checkResp ''response'') of None \<Rightarrow> powFail h3 show0 CheckInvalid
         | Some respObj \<Rightarrow>
         (let show1 = str_or_empty (jget respObj ''show_captcha_type'') in
          if str_or_empty (jget respObj ''status'') = ''OK'' then
            (let token = str_or_empty (jget respObj ''success_token'') in
             if token = [] then powFail h3 show1 NoSuccessToken else powDone (h3 @ [endReq I]) token show1)
          else
            (case solveSliderCaptcha textScore decodeImage marshal unmarshal
                    (\<lambda>h q. vk (h3 @ map SliderAsk (h @ [q]))) []
                    (case html of None \<Rightarrow> Some settingsResp | Some o1 \<Rightarrow> Some o1) of
               (h, Inl e) \<Rightarrow> powFail (h3 @ map SliderAsk h) show1 (SliderFailed (Some e))
             | (h, Inr token) \<Rightarrow>
                 (if token = [] then powFail (h3 @ map SliderAsk h) show1 (SliderFailed None)
                  else powDone (h3 @ map SliderAsk h @ [endReq I]) token show1)))))))"

text \<open>What the captcha page gave: the input and difficulty of the work, the script's address and the settings.\<close>

record powPage =
  ppInput :: string
  ppDifficulty :: nat
  ppScript :: string
  ppSettings :: "jobj option"

text \<open>
  \<open>solveCaptchaPoW\<close>: \<open>session\<close> is what parsing the redirect address gave, the token empty if it has none; \<open>early\<close> and \<open>late\<close>
  say that the context ended in the first pause or in the one before the check.
\<close>

definition solveCaptchaPoW ::
  "(nat list \<Rightarrow> 'f :: {linorder, zero}) \<Rightarrow> (string \<Rightarrow> image option) \<Rightarrow> (json \<Rightarrow> string option)
    \<Rightarrow> (string \<Rightarrow> json list option) \<Rightarrow> (bytes \<Rightarrow> bytes) \<Rightarrow> powVk \<Rightarrow> string + string \<Rightarrow> bool \<Rightarrow> bool \<Rightarrow> string + powPage
    \<Rightarrow> (string \<Rightarrow> string option) \<Rightarrow> (string \<Rightarrow> string option) \<Rightarrow> string \<Rightarrow> string \<Rightarrow> string
    \<Rightarrow> (string \<Rightarrow> string option) \<times> powResult" where
  "solveCaptchaPoW textScore decodeImage marshal unmarshal sha256 vk session early late page extract cache adFp browserFp device =
     (case session of Inl e \<Rightarrow> (cache, powFail [] [] (BadRedirect e))
      | Inr token \<Rightarrow>
        if token = [] then (cache, powFail [] [] NoSessionToken)
        else if early then (cache, powFail [] [] SolveCancelled)
        else case page of Inl e \<Rightarrow> (cache, powFail [] [] (PageFailed e))
        | Inr P \<Rightarrow>
          (let (cache1, debugInfo) = fetchAndCacheDebugInfo extract (ppScript P) cache;
               hash = solvePoW sha256 (ppInput P) (ppDifficulty P)
           in if hash = [] then (cache1, powFail [] [] NoSolution)
              else (cache1, callCaptchaNotRobotAPI textScore decodeImage marshal unmarshal vk late
                 \<lparr>piSession = token, piHash = hash, piAdFp = adFp, piDebug = debugInfo, piBrowserFp = browserFp,
                  piDevice = device\<rparr> (ppSettings P))))"

section \<open>Escaping is undone by unescaping\<close>

lemma upperHex_all: "list_all (\<lambda>n. hex_val (upperHex n) = Some n) [0..<16]"
  by code_simp

lemma upperHex_val [simp]: "n < 16 \<Longrightarrow> hex_val (upperHex n) = Some n"
  using upperHex_all by (auto simp: list_all_iff)

lemma upperHex_plain_all: "list_all (\<lambda>n. upperHex n \<noteq> CHR ''&'' \<and> upperHex n \<noteq> CHR ''='') [0..<16]"
  by code_simp

lemma upperHex_plain: "n < 16 \<Longrightarrow> upperHex n \<noteq> CHR ''&'' \<and> upperHex n \<noteq> CHR ''=''"
  using upperHex_plain_all by (auto simp: list_all_iff)

lemma unreserved_plain: "unreserved c \<Longrightarrow> c \<noteq> CHR ''&'' \<and> c \<noteq> CHR ''='' \<and> c \<noteq> CHR ''+'' \<and> c \<noteq> CHR ''%''"
  by (auto simp: unreserved_def Let_def)

lemma of_char_lt: "(of_char c :: nat) < 256"
  by (simp add: of_char_def) 

lemma unescape_char: "QueryUnescape (escapeChar c @ s) = map_option ((#) c) (QueryUnescape s)"
proof -
  have "(of_char c :: nat) div 16 < 16" using of_char_lt [of c] by (simp add: less_mult_imp_div_less)
  then show ?thesis using unreserved_plain [of c]
    by (auto simp: escapeChar_def Let_def)
qed

lemma QueryUnescape_escape [simp]: "QueryUnescape (QueryEscape s) = Some s"
  unfolding QueryEscape_def by (induction s) (simp_all add: unescape_char)

lemma QueryEscape_plain: "c \<in> set (QueryEscape s) \<Longrightarrow> c \<noteq> CHR ''&'' \<and> c \<noteq> CHR ''=''"
proof -
  assume "c \<in> set (QueryEscape s)"
  then obtain d where "c \<in> set (escapeChar d)" by (auto simp: QueryEscape_def)
  then show ?thesis using upperHex_plain [of "of_char d div 16"] upperHex_plain [of "of_char d mod 16"] of_char_lt [of d] unreserved_plain [of d]
    by (auto simp: escapeChar_def Let_def less_mult_imp_div_less split: if_splits)
qed

end
