(* ===== verification/CaptchaPowProps.thy ===== *)
theory CaptchaPowProps
  imports CaptchaPow
begin

text \<open>
  The automatic captcha solver: which nonce its proof of work finds, what the form bodies say to a server that
  parses them, and when the conversation ends with a token.
\<close>

section \<open>The proof of work\<close>

abbreviation goodNonce :: "(bytes \<Rightarrow> bytes) \<Rightarrow> string \<Rightarrow> nat \<Rightarrow> nat \<Rightarrow> bool" where
  "goodNonce sha256 powInput d n \<equiv> HasPrefix (powDigest sha256 powInput n) (replicate d CHR ''0'')"

lemma powFrom_first:
  assumes "n \<le> powLimit" "goodNonce f s d n" "m \<le> n" "\<And>k. m \<le> k \<Longrightarrow> k < n \<Longrightarrow> \<not> goodNonce f s d k"
  shows "powFrom f s d m = powDigest f s n"
  using assms(3,4)
proof (induction "n - m" arbitrary: m)
  case 0
  then have "m = n" by simp
  then show ?case using assms(1,2) by (subst powFrom.simps) (simp add: Let_def)
next
  case (Suc j)
  then have "\<not> goodNonce f s d m" "powFrom f s d (Suc m) = powDigest f s n" by simp_all
  then show ?case using assms(1) Suc.prems(1) by (subst powFrom.simps) (simp add: Let_def)
qed

lemma powFrom_none:
  assumes "\<And>k. m \<le> k \<Longrightarrow> k \<le> powLimit \<Longrightarrow> \<not> goodNonce f s d k"
  shows "powFrom f s d m = []"
  using assms
proof (induction "Suc powLimit - m" arbitrary: m)
  case 0
  then show ?case by (subst powFrom.simps) simp
next
  case (Suc j)
  then have "\<not> goodNonce f s d m" "powFrom f s d (Suc m) = []" by simp_all
  then show ?case by (subst powFrom.simps) (simp add: Let_def)
qed

lemma hex_encode_digits: "set (hex_encode bs) \<subseteq> set hex_digits"
proof -
  have "hex_digits ! k \<in> set hex_digits" if "k < 16" for k using that by (intro nth_mem) (simp add: hex_digits_def)
  moreover have "unat (b :: byte) div 16 < 16" "unat b mod 16 < 16" for b
    using unat_byte [of b] by (simp_all add: less_mult_imp_div_less)
  ultimately show ?thesis by (auto simp: hex_encode_def simp del: mod_less_divisor)
qed

text \<open>
  \<open>solvePoW\<close> returns the digest of the smallest nonce from 1 to ten million whose hexadecimal digest begins
  with as many zeros as the difficulty asks for, and the empty string if there is none; with digests of 32 bytes, as SHA-256 has, a
  result that is not empty is 64 lower-case hexadecimal digits that begin with the zeros, and a difficulty above 64 is never solved.
\<close>

theorem pow_reference:
  assumes "\<And>x. length (sha256 x) = 32"
  shows "(\<forall>n. 1 \<le> n \<longrightarrow> n \<le> 10000000 \<longrightarrow> goodNonce sha256 s d n \<longrightarrow> (\<forall>k. 1 \<le> k \<longrightarrow> k < n \<longrightarrow> \<not> goodNonce sha256 s d k)
        \<longrightarrow> solvePoW sha256 s d = powDigest sha256 s n)
    \<and> ((\<forall>k. 1 \<le> k \<longrightarrow> k \<le> 10000000 \<longrightarrow> \<not> goodNonce sha256 s d k) \<longrightarrow> solvePoW sha256 s d = [])
    \<and> (solvePoW sha256 s d \<noteq> [] \<longrightarrow> length (solvePoW sha256 s d) = 64 \<and> set (solvePoW sha256 s d) \<subseteq> set hex_digits
        \<and> HasPrefix (solvePoW sha256 s d) (replicate d CHR ''0''))
    \<and> (64 < d \<longrightarrow> solvePoW sha256 s d = [])"
proof -
  have first: "solvePoW sha256 s d = powDigest sha256 s n" if "1 \<le> n" "n \<le> 10000000" "goodNonce sha256 s d n"
    "\<forall>k. 1 \<le> k \<longrightarrow> k < n \<longrightarrow> \<not> goodNonce sha256 s d k" for n
    unfolding solvePoW_def using that by (intro powFrom_first) (auto simp: powLimit_def)
  have none: "solvePoW sha256 s d = []" if "\<forall>k. 1 \<le> k \<longrightarrow> k \<le> 10000000 \<longrightarrow> \<not> goodNonce sha256 s d k"
    unfolding solvePoW_def using that by (intro powFrom_none) (auto simp: powLimit_def)
  have found: "\<exists>n. solvePoW sha256 s d = powDigest sha256 s n \<and> goodNonce sha256 s d n"
    if solved: "solvePoW sha256 s d \<noteq> []"
  proof -
    define P where "P n \<longleftrightarrow> 1 \<le> n \<and> n \<le> 10000000 \<and> goodNonce sha256 s d n" for n
    obtain n where "P n" using solved none unfolding P_def by blast
    then have least: "P (LEAST n. P n)" by (rule LeastI)
    have "\<not> P k" if "k < (LEAST n. P n)" for k using that by (rule not_less_Least)
    with least obtain m where m: "P m" "\<And>k. k < m \<Longrightarrow> \<not> P k" by blast
    have "\<not> goodNonce sha256 s d k" if "1 \<le> k" "k < m" for k using m that unfolding P_def by (meson less_imp_le_nat order_trans)
    then have "solvePoW sha256 s d = powDigest sha256 s m" using first m(1) unfolding P_def by blast
    then show ?thesis using m(1) unfolding P_def by blast
  qed
  have len: "length (powDigest sha256 s n) = 64" for n by (simp add: powDigest_def assms)
  have "\<not> goodNonce sha256 s d k" if "64 < d" for k
    using that len [of k] by (auto simp: HasPrefix_def dest: prefix_length_le)
  then have "64 < d \<longrightarrow> solvePoW sha256 s d = []" using none by blast
  moreover have "length (solvePoW sha256 s d) = 64 \<and> set (solvePoW sha256 s d) \<subseteq> set hex_digits
      \<and> HasPrefix (solvePoW sha256 s d) (replicate d CHR ''0'')" if "solvePoW sha256 s d \<noteq> []"
    using found [OF that] len hex_encode_digits unfolding powDigest_def by metis
  ultimately show ?thesis using first none by blast
qed

lemma hex_encode_replicate:
  "hex_digits ! (unat b div 16) = c \<Longrightarrow> hex_digits ! (unat b mod 16) = c \<Longrightarrow> hex_encode (replicate n b) = replicate (2 * n) c"
  by (induction n) (simp_all add: hex_encode_Cons hex_encode_def [of "[]"])

text \<open>A toy digest of 32 equal bytes: the length of the text.\<close>

theorem pow_reference_witness:
  "solvePoW (\<lambda>x. replicate 32 (if last x = 50 then 0 else 255)) ''ab'' 2 = replicate 64 CHR ''0''"
proof -
  let ?f = "\<lambda>x. replicate 32 (if last x = 50 then 0 else 255) :: bytes"
  have digits: "Itoa 1 = ''1''" "Itoa 2 = ''2''" by (simp_all add: Itoa_def itoa_nat.simps [of "Suc 0"] itoa_nat.simps [of 2] char_of_def bit_Suc_0_iff)
  have "hex_encode (replicate 32 255) = replicate 64 CHR ''f''" "hex_encode (replicate 32 0) = replicate 64 CHR ''0''"
    using hex_encode_replicate [of 255 "CHR ''f''" 32] hex_encode_replicate [of 0 "CHR ''0''" 32]
    by (simp_all add: hex_digits_def)
  then have d1: "powDigest ?f ''ab'' 1 = replicate 64 CHR ''f''" and d2: "powDigest ?f ''ab'' 2 = replicate 64 CHR ''0''"
    by (simp_all add: powDigest_def digits bytes_of_string_def)
  have bad: "\<not> goodNonce ?f ''ab'' 2 1" and good: "goodNonce ?f ''ab'' 2 2"
    unfolding d1 d2 by (simp_all add: HasPrefix_def replicate_Suc numeral_eq_Suc)
  have none: "\<not> goodNonce ?f ''ab'' 2 k" if "1 \<le> k" "k < 2" for k
  proof -
    have "k = 1" using that by linarith
    then show ?thesis using bad by simp
  qed
  have "solvePoW ?f ''ab'' 2 = powDigest ?f ''ab'' 2"
    by (rule conjunct1 [OF pow_reference, rule_format]) (simp, simp, simp, rule good, erule (1) none)
  then show ?thesis using d2 by simp
qed

section \<open>Forms\<close>

text \<open>A form read back as a server does: fields at \<open>&\<close>, key and value at the first \<open>=\<close>, the value unescaped.\<close>

definition parseField :: "string \<Rightarrow> string \<times> string option" where
  "parseField f = (case Cut CHR ''='' f of None \<Rightarrow> (f, Some []) | Some (k, v) \<Rightarrow> (k, QueryUnescape v))"

definition parseForm :: "string \<Rightarrow> (string \<times> string option) list" where
  "parseForm s = map parseField (Split CHR ''&'' s)"

lemma Split_field: "c \<notin> set f \<Longrightarrow> Split c (f @ c # r) = f # Split c r" "c \<notin> set f \<Longrightarrow> Split c f = [f]"
  by (induction f) auto

lemma parseField_eq: "CHR ''='' \<notin> set k \<Longrightarrow> parseField (k @ CHR ''='' # v) = (k, QueryUnescape v)"
  by (auto simp: parseField_def Cut_def takeWhile_append dropWhile_append)

fun joinForm :: "(string \<times> string) list \<Rightarrow> string" where
  "joinForm [] = []"
| "joinForm [(k, v)] = k @ ''='' @ v"
| "joinForm ((k, v) # f # fs) = k @ ''='' @ v @ ''&'' @ joinForm (f # fs)"

definition plainForm :: "(string \<times> string) list \<Rightarrow> bool" where
  "plainForm fs \<longleftrightarrow> list_all (\<lambda>(k, v). CHR ''='' \<notin> set k \<and> CHR ''&'' \<notin> set k \<and> CHR ''&'' \<notin> set v) fs"

lemma parseForm_join: "plainForm fs \<Longrightarrow> fs \<noteq> [] \<Longrightarrow> parseForm (joinForm fs) = map (\<lambda>(k, v). (k, QueryUnescape v)) fs"
proof (induction fs rule: joinForm.induct)
  case (2 k v)
  then have "Split CHR ''&'' (k @ CHR ''='' # v) = [k @ CHR ''='' # v]" by (intro Split_field(2)) (simp add: plainForm_def)
  then show ?case using 2 by (simp add: parseForm_def parseField_eq plainForm_def)
next
  case (3 k v f fs)
  have "Split CHR ''&'' ((k @ CHR ''='' # v) @ CHR ''&'' # joinForm (f # fs)) = (k @ CHR ''='' # v) # Split CHR ''&'' (joinForm (f # fs))"
    using 3(2) by (intro Split_field(1)) (simp add: plainForm_def)
  then show ?case using 3 by (simp add: parseForm_def parseField_eq plainForm_def)
qed simp

lemma plain_escape [simp]: "CHR ''&'' \<notin> set (QueryEscape s)"
  using QueryEscape_plain by blast

lemma plainForm_simps:
  "plainForm []" "plainForm ((k, v) # fs) \<longleftrightarrow> CHR ''='' \<notin> set k \<and> CHR ''&'' \<notin> set k \<and> CHR ''&'' \<notin> set v \<and> plainForm fs"
  "plainForm (fs @ gs) \<longleftrightarrow> plainForm fs \<and> plainForm gs"
  by (simp_all add: plainForm_def)

text \<open>What the bodies say.\<close>

definition baseFields :: "string \<Rightarrow> string \<Rightarrow> (string \<times> string) list" where
  "baseFields session adFp = [(''session_token'', QueryEscape session), (''domain'', QueryEscape ''vk.com''), (''adFp'', QueryEscape adFp)]"

lemma baseFields_plain: "plainForm (baseFields t a)"
  by (simp add: baseFields_def plainForm_simps)

lemma baseFields_neq [simp]: "baseFields t a \<noteq> []"
  by (simp add: baseFields_def)

lemma baseFields_read: "map (\<lambda>(k, v). (k, QueryUnescape v)) (baseFields t a)
    = [(''session_token'', Some t), (''domain'', Some ''vk.com''), (''adFp'', Some a)]"
  by (simp add: baseFields_def)

lemma parseForm_base:
  assumes "plainForm fs"
  shows "parseForm (joinForm (baseFields t a @ fs)) =
    [(''session_token'', Some t), (''domain'', Some ''vk.com''), (''adFp'', Some a)] @ map (\<lambda>(k, v). (k, QueryUnescape v)) fs"
proof -
  have "plainForm (baseFields t a @ fs)" "baseFields t a @ fs \<noteq> []" using assms baseFields_plain by (simp_all add: plainForm_simps(3))
  from parseForm_join [OF this] show ?thesis by (simp only: map_append baseFields_read)
qed

lemma base_join: "rest \<noteq> [] \<Longrightarrow> baseParams t a @ ''&'' @ joinForm rest = joinForm (baseFields t a @ rest)"
  by (cases rest) (auto simp: baseParams_def baseFields_def)

lemma body_joins:
  "settingsBody I = joinForm (baseFields (piSession I) [] @ [(''access_token'', [])])"
  "endBody I = joinForm (baseFields (piSession I) (piAdFp I) @ [(''access_token'', [])])"
  "componentBody I = joinForm (baseFields (piSession I) (piAdFp I)
     @ [(''browser_fp'', piBrowserFp I), (''device'', piDevice I), (''access_token'', [])])"
  "checkBody I = joinForm (baseFields (piSession I) (piAdFp I)
     @ [(''accelerometer'', QueryEscape ''[]''), (''gyroscope'', QueryEscape ''[]''), (''motion'', QueryEscape ''[]''),
        (''cursor'', QueryEscape ''[]''), (''taps'', QueryEscape ''[]''), (''connectionRtt'', QueryEscape ''[]''),
        (''connectionDownlink'', QueryEscape ''[]''), (''browser_fp'', piBrowserFp I), (''hash'', piHash I),
        (''answer'', QueryEscape (b64_encode (bytes_of_string ''{}''))), (''debug_info'', piDebug I), (''access_token'', [])])"
  by (simp_all add: base_join [symmetric] settingsBody_def endBody_def componentBody_def checkBody_def accessTokenSuffix_def)

text \<open>
  A server that parses the form bodies of the captcha conversation reads exactly the intended fields, in the order of
  the browser: the session token and the fingerprint identifier whatever bytes they have, no identifier in the first request, the sensor
  arrays empty, the answer the encoded empty object, and the browser fingerprint, device, hash and script constant as they decode, as
  long as those four, which are sent as they are, hold no ampersand.
\<close>

theorem captcha_bodies:
  assumes "CHR ''&'' \<notin> set (piBrowserFp I)" "CHR ''&'' \<notin> set (piDevice I)" "CHR ''&'' \<notin> set (piHash I)" "CHR ''&'' \<notin> set (piDebug I)"
  defines "baseRead \<equiv> \<lambda>adFp. [(''session_token'', Some (piSession I)), (''domain'', Some ''vk.com''), (''adFp'', Some adFp)]"
    and "sensor \<equiv> Some ''[]''"
  shows "parseForm (settingsBody I) = baseRead [] @ [(''access_token'', Some [])]
    \<and> parseForm (componentBody I) = baseRead (piAdFp I) @ [(''browser_fp'', QueryUnescape (piBrowserFp I)),
        (''device'', QueryUnescape (piDevice I)), (''access_token'', Some [])]
    \<and> parseForm (checkBody I) = baseRead (piAdFp I) @ [(''accelerometer'', sensor), (''gyroscope'', sensor), (''motion'', sensor),
        (''cursor'', sensor), (''taps'', sensor), (''connectionRtt'', sensor), (''connectionDownlink'', sensor),
        (''browser_fp'', QueryUnescape (piBrowserFp I)), (''hash'', QueryUnescape (piHash I)), (''answer'', Some ''e30=''),
        (''debug_info'', QueryUnescape (piDebug I)), (''access_token'', Some [])]
    \<and> parseForm (endBody I) = baseRead (piAdFp I) @ [(''access_token'', Some [])]"
proof -
  have answer: "b64_encode (bytes_of_string ''{}'') = ''e30=''"
    by (simp add: bytes_of_string_def sextet_char_def alphabet_def Let_def)
  show ?thesis unfolding body_joins answer baseRead_def sensor_def using assms(1-4)
    by (intro conjI; subst parseForm_base; simp add: plainForm_simps del: QueryUnescape.simps(2))
qed

definition sampleIdentity :: powIdentity where
  "sampleIdentity = \<lparr>piSession = ''a&b=c+ %/'', piHash = ''00ff'', piAdFp = ''x_-1'', piDebug = ''a0'', piBrowserFp = ''7f'',
     piDevice = ''%7B%7D''\<rparr>"

theorem captcha_bodies_witness:
  "parseForm (componentBody sampleIdentity) = [(''session_token'', Some ''a&b=c+ %/''), (''domain'', Some ''vk.com''),
     (''adFp'', Some ''x_-1''), (''browser_fp'', Some ''7f''), (''device'', Some ''{}''), (''access_token'', Some [])]"
proof -
  have dev: "QueryUnescape ''%7B%7D'' = Some ''{}''" "QueryUnescape ''7f'' = Some ''7f''"
    by (simp_all add: hex_val_def char_of_def bit_iff_odd)
  show ?thesis using captcha_bodies [of sampleIdentity] dev by (simp add: sampleIdentity_def del: QueryUnescape.simps(2))
qed

section \<open>The conversation\<close>

text \<open>The answer to the last request of a list accepts the captcha with this token.\<close>

definition vkAccepts :: "powVk \<Rightarrow> powReq list \<Rightarrow> string \<Rightarrow> bool" where
  "vkAccepts vk h token \<longleftrightarrow> (\<exists>resp respObj. vk h = Inr resp \<and> as_obj (jget resp ''response'') = Some respObj
     \<and> str_or_empty (jget respObj ''status'') = ''OK'' \<and> str_or_empty (jget respObj ''success_token'') = token)"

lemma slider_accepted:
  fixes textS :: "nat list \<Rightarrow> 'f :: {linorder, zero}"
  assumes "solveSliderCaptcha textS dec mar unm (\<lambda>h q. vk (pre @ map SliderAsk (h @ [q]))) [] settings = (h, Inr token)"
  shows "h \<noteq> [] \<and> vkAccepts vk (pre @ map SliderAsk h) token"
proof -
  let ?v = "\<lambda>h q. vk (pre @ map SliderAsk (h @ [q]))"
  obtain h2 cs k where "tryGuesses ?v k h2 cs = (h, Inr token)"
    using assms by (auto simp: solveSliderCaptcha_def Let_def split: sum.splits prod.splits)
  from tryGuesses_trace [OF this] obtain n where n: "h = h2 @ map checkOf (take n cs)" "n \<le> length cs" "acceptedAt ?v h2 cs n token"
    by auto
  then have "0 < n" by (simp add: acceptedAt_def)
  then have "take n cs = take (n - 1) cs @ [cs ! (n - 1)]" using n(2) by (metis Suc_le_lessD Suc_pred' take_Suc_conv_app_nth)
  then have h: "h = (h2 @ map checkOf (take (n - 1) cs)) @ [checkOf (cs ! (n - 1))]" using n(1) by simp
  show ?thesis using n(3) unfolding h acceptedAt_def vkAccepts_def by (auto split: sum.splits option.splits)
qed

text \<open>How the conversation can go.\<close>

lemma captcha_ways:
  fixes textS :: "nat list \<Rightarrow> 'f :: {linorder, zero}"
  assumes run_def: "callCaptchaNotRobotAPI textS dec mar unm vk cancelled I html = run"
  obtains
    (First) e where "run = powFail [settingsReq I] (htmlShowType html) e"
  | (Second) e x1 where "vk [settingsReq I] = Inr x1" "run = powFail [settingsReq I, componentReq I] (htmlShowType html) e"
  | (Third) e x1 x2 where "vk [settingsReq I] = Inr x1" "vk [settingsReq I, componentReq I] = Inr x2"
      "\<And>resp. vk [settingsReq I, componentReq I, checkReq I] = Inr resp \<Longrightarrow> as_obj (jget resp ''response'') = None"
      "run = powFail [settingsReq I, componentReq I, checkReq I] (htmlShowType html) e"
  | (Checked) e x1 x2 resp o1 tok where "vk [settingsReq I] = Inr x1" "vk [settingsReq I, componentReq I] = Inr x2"
      "vk [settingsReq I, componentReq I, checkReq I] = Inr resp" "as_obj (jget resp ''response'') = Some o1"
      "str_or_empty (jget o1 ''status'') = ''OK''" "tok = str_or_empty (jget o1 ''success_token'')"
      "run = (if tok = [] then powFail [settingsReq I, componentReq I, checkReq I] (str_or_empty (jget o1 ''show_captcha_type'')) e
        else powDone [settingsReq I, componentReq I, checkReq I, endReq I] tok (str_or_empty (jget o1 ''show_captcha_type'')))"
  | (Slider) e x1 x2 resp o1 h tok where "vk [settingsReq I] = Inr x1" "vk [settingsReq I, componentReq I] = Inr x2"
      "vk [settingsReq I, componentReq I, checkReq I] = Inr resp" "as_obj (jget resp ''response'') = Some o1"
      "str_or_empty (jget o1 ''status'') \<noteq> ''OK''"
      "tok \<noteq> [] \<Longrightarrow> vkAccepts vk ([settingsReq I, componentReq I, checkReq I] @ map SliderAsk h) tok"
      "run = (if tok = []
        then powFail ([settingsReq I, componentReq I, checkReq I] @ map SliderAsk h) (str_or_empty (jget o1 ''show_captcha_type'')) e
        else powDone ([settingsReq I, componentReq I, checkReq I] @ map SliderAsk h @ [endReq I]) tok
          (str_or_empty (jget o1 ''show_captcha_type'')))"
proof (cases "vk [settingsReq I]")
  case (Inl e)
  then show ?thesis by (intro First) (simp add: run_def [symmetric] callCaptchaNotRobotAPI_def Let_def)
next
  case a1: (Inr x1)
  let ?h = "[settingsReq I, componentReq I, checkReq I]"
  note d = run_def [symmetric] callCaptchaNotRobotAPI_def Let_def
  show ?thesis
  proof (cases "vk [settingsReq I, componentReq I]")
    case (Inl e)
    then show ?thesis using a1 by (intro Second) (simp_all add: d)
  next
    case a2: (Inr x2)
    show ?thesis
    proof (cases "cancelled \<or> (\<forall>resp. vk ?h = Inr resp \<longrightarrow> as_obj (jget resp ''response'') = None)")
      case True
      then show ?thesis using a1 a2 Second Third
        by (cases cancelled; cases "vk ?h") (auto simp: d)
    next
      case False
      then obtain resp o1 where a3: "vk ?h = Inr resp" "as_obj (jget resp ''response'') = Some o1" "\<not> cancelled" by auto
      show ?thesis
      proof (cases "str_or_empty (jget o1 ''status'') = ''OK''")
        case True
        show ?thesis by (rule Checked [OF a1 a2 a3(1,2) True refl, of NoSuccessToken]) (use a1 a2 a3 True in \<open>auto simp: d\<close>)
      next
        case False
        obtain h q where sl: "solveSliderCaptcha textS dec mar unm (\<lambda>h q. vk (?h @ map SliderAsk (h @ [q]))) []
            (case html of None \<Rightarrow> Some x1 | Some x \<Rightarrow> Some x) = (h, q)" by force
        have run: "run = (case q of Inl e \<Rightarrow> powFail (?h @ map SliderAsk h) (str_or_empty (jget o1 ''show_captcha_type'')) (SliderFailed (Some e))
           | Inr tok \<Rightarrow> (if tok = [] then powFail (?h @ map SliderAsk h) (str_or_empty (jget o1 ''show_captcha_type'')) (SliderFailed None)
               else powDone (?h @ map SliderAsk h @ [endReq I]) tok (str_or_empty (jget o1 ''show_captcha_type''))))"
          using a1 a2 a3 False sl by (cases q) (simp_all add: d)
        have acc: "vkAccepts vk (?h @ map SliderAsk h) tok" if "q = Inr tok" for tok
          using slider_accepted [OF sl [unfolded that]] by blast
        show ?thesis
        proof (cases q)
          case (Inl e)
          show ?thesis by (rule Slider [OF a1 a2 a3(1,2) False, of "[]" h "SliderFailed (Some e)"]) (simp_all add: run Inl)
        next
          case (Inr tok)
          show ?thesis by (rule Slider [OF a1 a2 a3(1,2) False, of tok h "SliderFailed None"]) (use run Inr acc [OF Inr] in simp_all)
        qed
      qed
    qed
  qed
qed

text \<open>
  C29. The requests of the captcha conversation come in the browser's order - settings, componentDone, check, then those of the
  slider, then endSession - and stop at the first that fails. A token is returned exactly when there is no error; then the answer to
  the last request before endSession accepts the captcha with this very token, and endSession is the last request.
  Without a token endSession is never sent. The slider is asked only after a check that VK answered without accepting it.
  The show type returned is the one of the answer to the check once that was read, else the one of the page.
\<close>

theorem captcha_conversation:
  fixes textS :: "nat list \<Rightarrow> 'f :: {linorder, zero}"
  defines "start \<equiv> \<lambda>I. [settingsReq I, componentReq I, checkReq I]"
  assumes r: "callCaptchaNotRobotAPI textS dec mar unm vk cancelled I html = r"
  shows "(prErr r = None \<longleftrightarrow> prToken r \<noteq> [])
    \<and> (\<exists>n gs. prSent r = take n (start I) @ map SliderAsk gs @ (if prToken r = [] then [] else [endReq I])
        \<and> 0 < n \<and> n \<le> 3 \<and> (\<forall>k < n. 0 < k \<longrightarrow> (\<exists>resp. vk (take k (start I)) = Inr resp))
        \<and> (gs \<noteq> [] \<longrightarrow> n = 3 \<and> (\<forall>token. \<not> vkAccepts vk (start I) token))
        \<and> (prToken r \<noteq> [] \<longrightarrow> n = 3 \<and> vkAccepts vk (start I @ map SliderAsk gs) (prToken r)))
    \<and> prShow r = (case vk (start I) of Inr resp \<Rightarrow>
          (case as_obj (jget resp ''response'') of Some o1 \<Rightarrow>
              if checkReq I \<in> set (prSent r) then str_or_empty (jget o1 ''show_captcha_type'') else htmlShowType html
            | None \<Rightarrow> htmlShowType html)
        | Inl _ \<Rightarrow> htmlShowType html)"
proof -
  let ?S = "settingsReq I" and ?C = "componentReq I" and ?K = "checkReq I"
  have start: "start I = [?S, ?C, ?K]" by (simp add: start_def)
  have new: "?K \<noteq> ?S" "?K \<noteq> ?C" by (simp_all add: checkReq_def settingsReq_def componentReq_def)
  have upto: "(\<forall>k < 3. 0 < k \<longrightarrow> P k) \<longleftrightarrow> P 1 \<and> P 2" "(\<forall>k < 2. 0 < k \<longrightarrow> P k) \<longleftrightarrow> P 1" for P :: "nat \<Rightarrow> bool"
    by (auto simp: less_Suc_eq numeral_eq_Suc)
  note S = powFail_def powDone_def start new upto
  show ?thesis
  proof (cases rule: captcha_ways [OF r, case_names First Second Third Checked Slider])
    case (First e)
    then show ?thesis by (intro conjI exI [of _ 1] exI [of _ "[]"]) (auto simp: S split: sum.splits option.splits)
  next
    case (Second e x1)
    then show ?thesis by (intro conjI exI [of _ 2] exI [of _ "[]"]) (auto simp: S split: sum.splits option.splits)
  next
    case (Third e x1 x2)
    then show ?thesis by (intro conjI exI [of _ 3] exI [of _ "[]"]) (auto simp: S split: sum.splits option.splits)
  next
    case (Checked e x1 x2 resp o1 tok)
    moreover have "vkAccepts vk (start I) tok" using Checked by (simp add: vkAccepts_def start)
    ultimately show ?thesis by (intro conjI exI [of _ 3] exI [of _ "[]"]) (auto simp: S split: if_splits)
  next
    case (Slider e x1 x2 resp o1 h tok)
    moreover have "\<not> vkAccepts vk (start I) t" for t using Slider by (auto simp: vkAccepts_def start)
    ultimately show ?thesis by (intro conjI exI [of _ 3] exI [of _ h]) (auto simp: S split: if_splits)
  qed
qed

text \<open>A VK that accepts the checkbox.\<close>

definition checkboxVK :: powVk where
  "checkboxVK h = (if length h = 3 then Inr [(''response'', JObj [(''status'', JStr ''OK''), (''success_token'', JStr ''tk''),
     (''show_captcha_type'', JStr ''checkbox'')])] else Inr [])"

theorem captcha_conversation_witness:
  "let r = callCaptchaNotRobotAPI (\<lambda>_. 0 :: nat) (\<lambda>_. None) (\<lambda>_. None) (\<lambda>_. None) checkboxVK False sampleIdentity None in
   prErr r = None \<and> prToken r = ''tk'' \<and> prShow r = ''checkbox''"
proof -
  let ?r = "callCaptchaNotRobotAPI (\<lambda>_. 0 :: nat) (\<lambda>_. None) (\<lambda>_. None) (\<lambda>_. None) checkboxVK False sampleIdentity None"
  have r: "?r = powDone [settingsReq sampleIdentity, componentReq sampleIdentity, checkReq sampleIdentity, endReq sampleIdentity]
      ''tk'' ''checkbox''"
    by (simp add: callCaptchaNotRobotAPI_def Let_def checkboxVK_def jget_def str_or_empty_def)
  show ?thesis using captcha_conversation [OF r] by (simp add: powDone_def r Let_def)
qed

end
