(* ===== verification/LogWriter.thy ===== *)
theory LogWriter
  imports Prelude Systems
begin

text \<open>
  The log file of the bridge, from \<open>startLogWriter\<close>, \<open>wgSetLogFilePath\<close> and \<open>osLogWriter.Write\<close> in \<open>WireGuardBridge/bridge.go\<close>:
  writers put lines into a channel of 512 places and never wait; one goroutine takes them out, keeps up to 1000 while no
  file is set, and writes to the file otherwise. A file is the list of the lines appended to it.
\<close>

datatype logPc = LogIdle | LogDraining string

record logState =
  logChan :: "string list"
  logPath :: string
  pending :: "string list"
  logPc :: logPc
  files :: "string \<Rightarrow> string list"
  sent :: "string list"
  written :: "string list"
  lost :: nat

text \<open>The last three fields are for the statements: what was handed over, what was written to any file, how much was given up.\<close>

definition logInit :: logState where
  "logInit = \<lparr>logChan = [], logPath = [], pending = [], logPc = LogIdle, files = (\<lambda>_. []), sent = [], written = [], lost = 0\<rparr>"

definition chanCap :: nat where "chanCap = 512"
definition pendingCap :: nat where "pendingCap = 1000"

definition logWrite :: "string \<Rightarrow> logState \<Rightarrow> logState" where
  "logWrite line s = (let t = s\<lparr>sent := sent s @ [line]\<rparr> in
     if length (logChan s) < chanCap then t\<lparr>logChan := logChan s @ [line]\<rparr> else t\<lparr>lost := Suc (lost s)\<rparr>)"

definition setLogFilePath :: "string \<Rightarrow> logState \<Rightarrow> logState" where
  "setLogFilePath p s = s\<lparr>logPath := p\<rparr>"

definition appendFile :: "string \<Rightarrow> string list \<Rightarrow> logState \<Rightarrow> logState" where
  "appendFile p ls s = s\<lparr>files := (files s)(p := files s p @ ls), written := written s @ ls\<rparr>"

text \<open>
  The goroutine takes a line: it keeps it while there is no file, gives it up if it keeps a thousand already or if the file cannot be
  opened, and otherwise appends what it kept and the line, and goes on with what is queued.
\<close>

definition logTake :: "bool \<Rightarrow> logState \<Rightarrow> logState" where
  "logTake opens s =
     (case (logPc s, logChan s) of
        (LogIdle, line # rest) \<Rightarrow>
          (let t = s\<lparr>logChan := rest\<rparr> in
           if logPath s = [] then
             (if length (pending s) < pendingCap then t\<lparr>pending := pending s @ [line]\<rparr> else t\<lparr>lost := Suc (lost s)\<rparr>)
           else if \<not> opens then t\<lparr>lost := Suc (lost s)\<rparr>
           else (appendFile (logPath s) (pending s @ [line]) t)\<lparr>pending := [], logPc := LogDraining (logPath s)\<rparr>)
      | (LogDraining p, line # rest) \<Rightarrow> appendFile p [line] (s\<lparr>logChan := rest\<rparr>)
      | (LogDraining p, []) \<Rightarrow> s\<lparr>logPc := LogIdle\<rparr>
      | (LogIdle, []) \<Rightarrow> s)"

datatype logEvent = LogLine string | SetPath string | WriterStep bool

fun logExec :: "logEvent \<Rightarrow> logState \<Rightarrow> logState" where
  "logExec (LogLine line) s = logWrite line s"
| "logExec (SetPath p) s = setLogFilePath p s"
| "logExec (WriterStep opens) s = logTake opens s"

definition logRun :: "logEvent list \<Rightarrow> logState" where
  "logRun evs = fold logExec evs logInit"

text \<open>The lines handed over in a run.\<close>

fun linesOf :: "logEvent list \<Rightarrow> string list" where
  "linesOf [] = []"
| "linesOf (LogLine l # evs) = l # linesOf evs"
| "linesOf (_ # evs) = linesOf evs"

section \<open>Order and loss\<close>

definition logOK :: "logState \<Rightarrow> bool" where
  "logOK s \<longleftrightarrow> subseq (written s @ pending s @ logChan s) (sent s)
     \<and> length (written s @ pending s @ logChan s) + lost s = length (sent s)
     \<and> length (logChan s) \<le> chanCap \<and> length (pending s) \<le> pendingCap
     \<and> (\<forall>p. logPc s = LogDraining p \<longrightarrow> pending s = [])
     \<and> (\<forall>p. subseq (files s p) (written s))"

lemma logOK_init: "logOK logInit"
  by (simp add: logOK_def logInit_def)

lemma subseq_drop_middle: "subseq (a @ b @ x # c) l \<Longrightarrow> subseq (a @ b @ c) l"
proof -
  assume h: "subseq (a @ b @ x # c) l"
  have "subseq (a @ b @ c) (a @ b @ x # c)" by (intro subseq_append_iff [THEN iffD2] list_emb_append_mono) auto
  then show ?thesis using h subseq_order.trans by blast
qed

lemma subseq_snoc: "subseq a l \<Longrightarrow> subseq a (l @ [x])"
  by (rule list_emb_prefix)

lemma logOK_write: "logOK s \<Longrightarrow> logOK (logWrite l s)"
  using subseq_snoc [of "written s @ pending s @ logChan s" "sent s" l]
    list_emb_append_mono [of "(=)" "written s @ pending s @ logChan s" "sent s" "[l]" "[l]"]
  by (auto simp: logOK_def logWrite_def Let_def)

lemma logOK_take:
  assumes ok: "logOK s"
  shows "logOK (logTake opens s)"
proof (cases "logChan s")
  case Nil
  then show ?thesis using ok by (auto simp: logTake_def logOK_def split: logPc.splits)
next
  case (Cons line rest)
  have drop: "subseq (written s @ pending s @ rest) (sent s)"
    by (rule subseq_drop_middle [of _ _ line]) (use ok Cons in \<open>simp add: logOK_def\<close>)
  have grow: "subseq (files s p) (written s @ ls)" for p ls using ok unfolding logOK_def by (intro list_emb_prefix) blast
  have both: "subseq (files s p @ ls) (written s @ ls)" for p ls using ok by (simp add: logOK_def subseq_append)
  show ?thesis
  proof (cases "logPc s")
    case LogIdle
    show ?thesis
    proof (cases "logPath s = []")
      case True
      then show ?thesis using ok drop Cons LogIdle by (auto simp: logTake_def logOK_def Let_def)
    next
      case False
      then show ?thesis using ok drop grow both Cons LogIdle
        by (cases opens) (auto simp: logTake_def logOK_def Let_def appendFile_def)
    qed
  next
    case (LogDraining p)
    then show ?thesis using ok grow both Cons by (auto simp: logTake_def logOK_def appendFile_def)
  qed
qed

lemma logOK_exec: "logOK s \<Longrightarrow> logOK (logExec ev s)"
  by (cases ev) (auto simp: logOK_write logOK_take, simp add: logOK_def setLogFilePath_def)

lemma sent_exec: "sent (logExec ev s) = sent s @ linesOf [ev]"
  by (cases ev) (auto simp: logWrite_def setLogFilePath_def logTake_def Let_def appendFile_def split: list.splits logPc.splits)

lemma linesOf_append: "linesOf (ev # evs) = linesOf [ev] @ linesOf evs"
  by (cases ev) simp_all

lemma sent_run: "sent (fold logExec evs s) = sent s @ linesOf evs"
proof (induction evs arbitrary: s)
  case (Cons ev evs)
  then show ?case using linesOf_append [of ev evs] by (simp add: sent_exec)
qed simp

interpretation logs: event_system "\<lambda>s. s = logInit" logExec logOK
  by unfold_locales (auto simp: logOK_init logOK_exec)

text \<open>Everything that was written is in the one file, as long as no other file is set.\<close>

definition oneFile :: "string \<Rightarrow> logState \<Rightarrow> bool" where
  "oneFile p s \<longleftrightarrow> files s p = written s \<and> (logPath s = p \<or> logPath s = []) \<and> (\<forall>q. logPc s = LogDraining q \<longrightarrow> q = p)"

lemma oneFile_exec: "oneFile p s \<Longrightarrow> (\<And>q. ev = SetPath q \<Longrightarrow> q = p \<or> q = []) \<Longrightarrow> oneFile p (logExec ev s)"
  by (cases ev) (auto simp: oneFile_def logWrite_def setLogFilePath_def logTake_def Let_def appendFile_def split: list.splits logPc.splits)

lemma oneFile_run: "oneFile p s \<Longrightarrow> (\<And>q. SetPath q \<in> set evs \<Longrightarrow> q = p \<or> q = []) \<Longrightarrow> oneFile p (fold logExec evs s)"
  by (induction evs arbitrary: s) (simp_all add: oneFile_exec)

text \<open>
  C28. Whatever the writers, the goroutine and the setting of the file do, and whenever the file fails to open: what was written, what is
  kept and what is queued, in this order, are lines handed over, in their order and none twice; a line missing from
  them was given up and counted, so that if none was, they are all the lines handed over. Every file holds its lines in the same
  order, and if one file only is ever set it holds all that was written. The channel and the kept lines stay within their bounds.
\<close>

theorem log_lines_in_order:
  "let s = logRun evs; l = written s @ pending s @ logChan s in
   subseq l (linesOf evs) \<and> length l + lost s = length (linesOf evs) \<and> (lost s = 0 \<longrightarrow> l = linesOf evs)
   \<and> (\<forall>p. subseq (files s p) (linesOf evs))
   \<and> (\<forall>p. (\<forall>q. SetPath q \<in> set evs \<longrightarrow> q = p \<or> q = []) \<longrightarrow> files s p = written s)
   \<and> length (logChan s) \<le> 512 \<and> length (pending s) \<le> 1000"
proof -
  define s where "s = logRun evs"
  have ok: "logOK s" unfolding s_def logRun_def by (rule logs.inv_run) (rule refl)
  have sent: "sent s = linesOf evs" unfolding s_def logRun_def by (simp add: sent_run logInit_def)
  have one: "files s p = written s" if "\<forall>q. SetPath q \<in> set evs \<longrightarrow> q = p \<or> q = []" for p
    using oneFile_run [of p logInit evs] that by (simp add: s_def logRun_def oneFile_def logInit_def)
  have "subseq (files s p) (linesOf evs)" for p
    using ok unfolding logOK_def sent by (meson subseq_order.trans list_emb_append2 subseq_rev_drop_many)
  moreover have "written s @ pending s @ logChan s = linesOf evs" if "lost s = 0"
    using ok that unfolding logOK_def sent by (simp add: subseq_same_length)
  ultimately show ?thesis using ok one unfolding s_def [symmetric] Let_def logOK_def sent chanCap_def pendingCap_def by simp
qed

theorem log_lines_in_order_witness:
  "files (logRun [LogLine ''a'', WriterStep True, SetPath ''f'', LogLine ''b'', LogLine ''c'', WriterStep True, WriterStep True]) ''f''
    = [''a'', ''b'', ''c'']"
proof -
  let ?evs = "[LogLine ''a'', WriterStep True, SetPath ''f'', LogLine ''b'', LogLine ''c'', WriterStep True, WriterStep True]"
  have s: "lost (logRun ?evs) = 0" "pending (logRun ?evs) = []" "logChan (logRun ?evs) = []"
    by (simp_all add: logRun_def logInit_def logWrite_def logTake_def setLogFilePath_def appendFile_def chanCap_def pendingCap_def Let_def)
  have "\<forall>q. SetPath q \<in> set ?evs \<longrightarrow> q = ''f'' \<or> q = []" by simp
  then show ?thesis using log_lines_in_order [of ?evs] s by (simp add: Let_def)
qed

end
