(* ===== verification/Control.thy ===== *)
theory Control
  imports Sessions NetAddr
begin

text \<open>
  The control API of the command line client, from \<open>cmd/vk-turn-socks/control.go\<close>: a local HTTP server whose handlers act on the
  proxy. A request is given by what the handlers read of it; the proxy is the state of \<open>Sessions\<close>.
\<close>

section \<open>Listening\<close>

datatype listenError = BadAddress | NotLoopback | ListenFailed string

text \<open>\<open>net.ParseIP\<close> is a parameter; the server listens only if the address passes the check and the socket opens.\<close>

definition requireLoopback :: "(string \<Rightarrow> ipaddr option) \<Rightarrow> string \<Rightarrow> listenError option" where
  "requireLoopback parseIP listenAddr =
     (case SplitHostPort listenAddr of None \<Rightarrow> Some BadAddress
      | Some (host, port) \<Rightarrow>
          (case parseIP host of None \<Rightarrow> Some NotLoopback | Some ip \<Rightarrow> (if IsLoopback ip then None else Some NotLoopback)))"

definition startControlAPI :: "(string \<Rightarrow> ipaddr option) \<Rightarrow> (string \<Rightarrow> string option) \<Rightarrow> string \<Rightarrow> listenError option" where
  "startControlAPI parseIP listen listenAddr =
     (case requireLoopback parseIP listenAddr of Some e \<Rightarrow> Some e
      | None \<Rightarrow> (case listen listenAddr of Some e \<Rightarrow> Some (ListenFailed e) | None \<Rightarrow> None))"

section \<open>Requests\<close>

text \<open>\<open>rqBody\<close> is the token that decoding the body leaves, empty if the body has none.\<close>

record ctlRequest =
  rqMethod :: string
  rqPath :: string
  rqAuth :: string
  rqQuery :: string
  rqBody :: string

text \<open>What \<open>/status\<close> returns. The status code and the body of a reply.\<close>

record statusResponse =
  stRunning :: bool
  stUptimeSec :: int
  stActiveConns :: int
  stTotalConns :: int
  stPoolFilled :: int
  stPoolWithCreds :: int
  stPoolSize :: int
  stTxBytes :: int
  stRxBytes :: int
  stRelayIP :: string
  stCaptchaURL :: string
  stAuthError :: string

datatype ctlBody = NoBody | TextBody string | StatusBody statusResponse

text \<open>
  The program as the handlers see it: the proxy, what its statistics hold beside it, the error of the cookies, and whether
  \<open>controlStopCh\<close> is closed.
\<close>

record ctlState =
  ctlProxy :: proxyState
  ctlStartedAt :: gotime
  ctlTotalConns :: int
  ctlRxBytes :: int
  ctlRelayIP :: string
  ctlAuthError :: string
  ctlStopped :: bool

type_synonym ctlReply = "ctlState \<times> nat \<times> ctlBody"

definition httpError :: "ctlState \<Rightarrow> nat \<Rightarrow> string \<Rightarrow> ctlReply" where
  "httpError s code msg = (s, code, TextBody msg)"

text \<open>The counts of the pool are cut to 32 bits by \<open>GetStats\<close>; \<open>now\<close> is the clock.\<close>

definition wrap32 :: "int \<Rightarrow> int" where "wrap32 x = signed_take_bit 31 x"

definition serveStatus :: "gotime \<Rightarrow> ctlState \<Rightarrow> ctlReply" where
  "serveStatus now s =
     (let p = ctlProxy s in case snapshotSize now (credPoolOf p) of (fresh, usable, sz) \<Rightarrow>
       (s, 200, StatusBody \<lparr>stRunning = True, stUptimeSec = go_quot (now - ctlStartedAt s) second,
          stActiveConns = activeConns p, stTotalConns = ctlTotalConns s,
          stPoolFilled = wrap32 (int fresh), stPoolWithCreds = wrap32 (int usable), stPoolSize = wrap32 (int sz),
          stTxBytes = txBytes p, stRxBytes = ctlRxBytes s, stRelayIP = ctlRelayIP s,
          stCaptchaURL = captchaImageURL p, stAuthError = ctlAuthError s\<rparr>))"

definition serveSolve :: "ctlRequest \<Rightarrow> ctlState \<Rightarrow> ctlReply" where
  "serveSolve r s =
     (if rqMethod r \<noteq> ''POST'' then httpError s 405 ''POST only''
      else let token = TrimSpace (if rqQuery r = [] then rqBody r else rqQuery r) in
        if token = [] then httpError s 400 ''missing token''
        else (s\<lparr>ctlProxy := SolveCaptcha token (ctlProxy s)\<rparr>, 204, NoBody))"

text \<open>The refresh asks VK; \<open>refresh\<close> is \<open>RefreshCaptchaURL\<close> with the clock and the answers it gets.\<close>

definition serveRefresh :: "(proxyState \<Rightarrow> proxyState \<times> string) \<Rightarrow> ctlRequest \<Rightarrow> ctlState \<Rightarrow> ctlReply" where
  "serveRefresh refresh r s =
     (if rqMethod r \<noteq> ''POST'' then httpError s 405 ''POST only''
      else case refresh (ctlProxy s) of (p, url) \<Rightarrow> (s\<lparr>ctlProxy := p\<rparr>, 200, TextBody url))"

definition serveStop :: "ctlRequest \<Rightarrow> ctlState \<Rightarrow> ctlReply" where
  "serveStop r s =
     (if rqMethod r \<noteq> ''POST'' then httpError s 405 ''POST only'' else (s\<lparr>ctlStopped := True\<rparr>, 204, NoBody))"

text \<open>For clean paths; a path with \<open>..\<close> or \<open>//\<close> is redirected by \<open>net/http\<close> before any handler.\<close>

definition serveMux :: "gotime \<Rightarrow> (proxyState \<Rightarrow> proxyState \<times> string) \<Rightarrow> ctlRequest \<Rightarrow> ctlState \<Rightarrow> ctlReply" where
  "serveMux now refresh r s =
     (if rqPath r = ''/status'' then serveStatus now s
      else if rqPath r = ''/solve'' then serveSolve r s
      else if rqPath r = ''/refresh_captcha'' then serveRefresh refresh r s
      else if rqPath r = ''/stop'' then serveStop r s
      else httpError s 404 ''404 page not found'')"

definition bearerAuth :: "string \<Rightarrow> (ctlRequest \<Rightarrow> ctlState \<Rightarrow> ctlReply) \<Rightarrow> ctlRequest \<Rightarrow> ctlState \<Rightarrow> ctlReply" where
  "bearerAuth token next r s =
     (if token = [] then next r s
      else if rqAuth r \<noteq> ''Bearer '' @ token then httpError s 401 ''unauthorized''
      else next r s)"

definition serveControl :: "string \<Rightarrow> gotime \<Rightarrow> (proxyState \<Rightarrow> proxyState \<times> string) \<Rightarrow> ctlRequest \<Rightarrow> ctlState \<Rightarrow> ctlReply" where
  "serveControl token now refresh = bearerAuth token (serveMux now refresh)"

section \<open>The prompt on the terminal\<close>

text \<open>
  One tick of \<open>watchCaptchaStdin\<close>: \<open>line\<close> is the next line of the terminal, none at its end. The result is the address asked for
  last, the token submitted and whether the loop goes on.
\<close>

definition stdinTick :: "string \<Rightarrow> string option \<Rightarrow> string \<Rightarrow> string \<times> string option \<times> bool" where
  "stdinTick url line lastURL =
     (if url = [] \<or> url = lastURL then (lastURL, None, True)
      else case line of None \<Rightarrow> (url, None, False)
        | Some l \<Rightarrow> (let token = TrimSpace l in (url, if token = [] then None else Some token, True)))"

section \<open>Who can do what\<close>

text \<open>Requests one after the other, each with its time and what a refresh then gets.\<close>

type_synonym ctlEvent = "gotime \<times> (proxyState \<Rightarrow> proxyState \<times> string) \<times> ctlRequest"

definition ctlStep :: "string \<Rightarrow> ctlEvent \<Rightarrow> ctlState \<Rightarrow> ctlState" where
  "ctlStep token ev s = (case ev of (now, refresh, r) \<Rightarrow> fst (serveControl token now refresh r s))"

definition ctlRun :: "string \<Rightarrow> ctlEvent list \<Rightarrow> ctlState \<Rightarrow> ctlState" where
  "ctlRun token evs s = fold (ctlStep token) evs s"

definition effective :: "string \<Rightarrow> ctlRequest \<Rightarrow> bool" where
  "effective token r \<longleftrightarrow> (token = [] \<or> rqAuth r = ''Bearer '' @ token) \<and> rqMethod r = ''POST''"

lemma serveStatus_same: "fst (serveStatus now s) = s"
  by (simp add: serveStatus_def Let_def split: prod.split)

lemma serveMux_get: "rqMethod r \<noteq> ''POST'' \<Longrightarrow> fst (serveMux now refresh r s) = s"
  by (simp add: serveMux_def serveSolve_def serveRefresh_def serveStop_def httpError_def serveStatus_same)

lemma ctlStep_ineffective:
  "\<not> effective token (snd (snd ev)) \<Longrightarrow> ctlStep token ev s = s"
  by (cases ev) (auto simp: ctlStep_def effective_def serveControl_def bearerAuth_def httpError_def serveMux_get)

text \<open>Leaving out every request without the token, and every one that is no \<open>POST\<close>, makes no difference.\<close>

theorem ctlRun_effective:
  "ctlRun token evs s = ctlRun token (filter (\<lambda>ev. effective token (snd (snd ev))) evs) s"
  unfolding ctlRun_def by (induction evs arbitrary: s) (simp_all add: ctlStep_ineffective)

text \<open>
  The control API. The server listens only on an address whose host is a loopback address. A request without the bearer token is
  answered 401 and changes nothing, whatever it asks. A request changes the program only by \<open>POST\<close>, and only at three addresses: \<open>/solve\<close> hands the
  trimmed token, of the query or else of the body, to the proxy, and never an empty one; \<open>/stop\<close> stops the program and leaves the proxy
  alone; \<open>/refresh_captcha\<close> does what the proxy's refresh does and returns its address. \<open>/status\<close> reports
  the address of a pending captcha, and the size of the pool, as the proxy has them.
\<close>

theorem control_api_guard:
  assumes "serveControl token now refresh r s = (s', code, body)"
  shows "(startControlAPI parseIP listen listenAddr = None \<longrightarrow>
        (\<exists>host port ip. SplitHostPort listenAddr = Some (host, port) \<and> parseIP host = Some ip \<and> IsLoopback ip))
    \<and> (token \<noteq> [] \<and> rqAuth r \<noteq> ''Bearer '' @ token \<longrightarrow> s' = s \<and> code = 401)
    \<and> (s' \<noteq> s \<longrightarrow> rqMethod r = ''POST'' \<and>
        (rqPath r = ''/solve'' \<and> (\<exists>t. t \<noteq> [] \<and> t = TrimSpace (if rqQuery r = [] then rqBody r else rqQuery r)
            \<and> s' = s\<lparr>ctlProxy := SolveCaptcha t (ctlProxy s)\<rparr> \<and> code = 204)
         \<or> rqPath r = ''/refresh_captcha'' \<and> (\<exists>p url. refresh (ctlProxy s) = (p, url) \<and> s' = s\<lparr>ctlProxy := p\<rparr>
            \<and> code = 200 \<and> body = TextBody url)
         \<or> rqPath r = ''/stop'' \<and> s' = s\<lparr>ctlStopped := True\<rparr> \<and> code = 204))
    \<and> (rqMethod r = ''POST'' \<and> rqPath r = ''/stop'' \<and> (token = [] \<or> rqAuth r = ''Bearer '' @ token) \<longrightarrow> ctlStopped s')
    \<and> (rqPath r = ''/status'' \<and> (token = [] \<or> rqAuth r = ''Bearer '' @ token) \<longrightarrow>
        (\<exists>st. body = StatusBody st \<and> stCaptchaURL st = captchaImageURL (ctlProxy s)
           \<and> stPoolSize st = wrap32 (int (psize (credPoolOf (ctlProxy s))))))"
proof -
  let ?POST = "rqMethod r = ''POST''"
  have guard: "\<exists>host port ip. SplitHostPort listenAddr = Some (host, port) \<and> parseIP host = Some ip \<and> IsLoopback ip"
    if "startControlAPI parseIP listen listenAddr = None"
    using that by (auto simp: startControlAPI_def requireLoopback_def split: option.splits prod.splits if_splits)
  show ?thesis
  proof (cases "token \<noteq> [] \<and> rqAuth r \<noteq> ''Bearer '' @ token")
    case True
    then have "s' = s \<and> code = 401" using assms by (simp add: serveControl_def bearerAuth_def httpError_def)
    then show ?thesis using guard True by blast
  next
    case False
    then have mux: "serveMux now refresh r s = (s', code, body)"
      using assms by (auto simp: serveControl_def bearerAuth_def split: if_splits)
    consider "rqPath r = ''/solve''" | "rqPath r = ''/refresh_captcha''" | "rqPath r = ''/stop''"
      | "rqPath r \<notin> {''/solve'', ''/refresh_captcha'', ''/stop''}" by blast
    then show ?thesis
    proof cases
      case 1
      then have "serveSolve r s = (s', code, body)" using mux by (simp add: serveMux_def)
      then show ?thesis using guard False 1
        by (auto simp: serveSolve_def httpError_def Let_def split: if_splits)
    next
      case 2
      then have "serveRefresh refresh r s = (s', code, body)" using mux by (simp add: serveMux_def)
      then show ?thesis using guard False 2
        by (auto simp: serveRefresh_def httpError_def split: if_splits prod.splits)
    next
      case 3
      then have "serveStop r s = (s', code, body)" using mux by (simp add: serveMux_def)
      then show ?thesis using guard False 3 by (auto simp: serveStop_def httpError_def split: if_splits)
    next
      case 4
      then have "s' = s" using mux serveStatus_same [of now s] by (auto simp: serveMux_def httpError_def split: if_splits)
      then show ?thesis using guard False 4 mux
        by (auto simp: serveMux_def serveStatus_def snapshotSize_def Let_def split: if_splits)
    qed
  qed
qed

text \<open>Witness: a token posted to \<open>/solve\<close>, with spaces around it.\<close>

definition demoCtl :: ctlState where
  "demoCtl = \<lparr>ctlProxy = newProxyState (newCredPool 0 1 0 [] ReadError None), ctlStartedAt = 0, ctlTotalConns = 0,
     ctlRxBytes = 0, ctlRelayIP = [], ctlAuthError = [], ctlStopped = False\<rparr>"

definition demoSolve :: ctlRequest where
  "demoSolve = \<lparr>rqMethod = ''POST'', rqPath = ''/solve'', rqAuth = ''Bearer k'', rqQuery = [], rqBody = '' tok ''\<rparr>"

lemma demo_solve:
  "serveControl ''k'' 0 (\<lambda>p. (p, [])) demoSolve demoCtl
     = (demoCtl\<lparr>ctlProxy := SolveCaptcha ''tok'' (ctlProxy demoCtl)\<rparr>, 204, NoBody)"
proof -
  have "TrimSpace '' tok '' = ''tok''" by code_simp
  then show ?thesis
    by (simp add: serveControl_def bearerAuth_def serveMux_def serveSolve_def demoSolve_def Let_def)
qed

lemma demo_solve_changes: "demoCtl\<lparr>ctlProxy := SolveCaptcha ''tok'' (ctlProxy demoCtl)\<rparr> \<noteq> demoCtl"
proof
  assume "demoCtl\<lparr>ctlProxy := SolveCaptcha ''tok'' (ctlProxy demoCtl)\<rparr> = demoCtl"
  then have "captchaCh (ctlProxy (demoCtl\<lparr>ctlProxy := SolveCaptcha ''tok'' (ctlProxy demoCtl)\<rparr>)) = captchaCh (ctlProxy demoCtl)"
    by simp
  then show False by (simp add: demoCtl_def newProxyState_def SolveCaptcha_def Let_def)
qed

theorem control_api_guard_witness:
  "serveControl ''k'' 0 (\<lambda>p. (p, [])) demoSolve demoCtl
     = (demoCtl\<lparr>ctlProxy := SolveCaptcha ''tok'' (ctlProxy demoCtl)\<rparr>, 204, NoBody)
   \<and> rqMethod demoSolve = ''POST''
   \<and> (\<exists>t. t \<noteq> [] \<and> t = TrimSpace (if rqQuery demoSolve = [] then rqBody demoSolve else rqQuery demoSolve))"
  using demo_solve demo_solve_changes control_api_guard [OF demo_solve, of Map.empty Map.empty "[]"]
  by (auto simp: demoSolve_def)

end
