(* ===== verification/DataPath.thy ===== *)
theory DataPath
  imports Probe Systems
begin

text \<open>
  The data path: the two channels between WireGuard and the connections, from \<open>SendPacket\<close> and \<open>ReceivePacket\<close> of \<open>proxy.go\<close> and the
  sending and receiving goroutines of \<open>runDTLSSession\<close>, \<open>runSRTPSession\<close>, \<open>runDirectSession\<close> and \<open>runWrapASession\<close>; and \<open>turnbind\<close> above them. All
  connections take from one channel and put into one channel; every step between two waits is an event.
\<close>

section \<open>The goroutines of a session\<close>

datatype sessKind = KDTLS | KSRTP | KDirect | KWrapA

text \<open>A goroutine waits, or has a packet in hand, or has returned.\<close>

datatype pump = Waiting | Has bytes | Done

text \<open>
  One connection: the kind of its session, whether its context is cancelled, its two goroutines; and for the statements, over all its
  sessions, what it did with the packets it took (written, or lost with a failed write), what it read, what it did with the packets
  read for WireGuard (queued, or given up), and how many sessions have ended.
\<close>

record pumpConn =
  pcKind :: sessKind
  pcCancelled :: bool
  pcOut :: pump
  pcIn :: pump
  pcWrote :: "(bytes \<times> bool) list"
  pcRead :: "(sessKind \<times> bytes) list"
  pcQueued :: "(bytes \<times> bool) list"
  pcEnded :: nat

definition newPump :: "sessKind \<Rightarrow> pumpConn" where
  "newPump k = \<lparr>pcKind = k, pcCancelled = False, pcOut = Waiting, pcIn = Waiting, pcWrote = [], pcRead = [], pcQueued = [], pcEnded = 0\<rparr>"

text \<open>
  The proxy: \<open>sendCh\<close>, \<open>recvCh\<close>, the byte counters (those of packets are statistics), the time of the last packet, and the connections. For the statements: the packets taken
  from \<open>sendCh\<close> and put into \<open>recvCh\<close>, with their connection, the packets accepted, and what \<open>ReceivePacket\<close> copied.
\<close>

record dataPath =
  sendCh :: "bytes list"
  recvCh :: "bytes list"
  dpTxBytes :: "64 word"
  dpRxBytes :: "64 word"
  dpLastRecv :: int
  dpConns :: "pumpConn list"
  dpTaken :: "(nat \<times> bytes) list"
  dpPushed :: "(nat \<times> bytes) list"
  dpAccepted :: "bytes list"
  dpGot :: "bytes list"

definition packetCap :: nat where "packetCap = 256"
definition pumpBuf :: nat where "pumpBuf = 1600"

definition dpInit :: "sessKind list \<Rightarrow> dataPath" where
  "dpInit ks = \<lparr>sendCh = [], recvCh = [], dpTxBytes = 0, dpRxBytes = 0, dpLastRecv = 0, dpConns = map newPump ks,
     dpTaken = [], dpPushed = [], dpAccepted = [], dpGot = []\<rparr>"

section \<open>WireGuard's side\<close>

text \<open>
  \<open>SendPacket\<close> when it returns: the packet is in the channel. While the channel is full it waits, and if the proxy stops it returns the
  error of the context and leaves everything as it is.
\<close>

definition SendPacket :: "bytes \<Rightarrow> dataPath \<Rightarrow> dataPath option" where
  "SendPacket p s =
     (if length (sendCh s) < packetCap
      then Some (s\<lparr>sendCh := sendCh s @ [p], dpAccepted := dpAccepted s @ [p], dpTxBytes := dpTxBytes s + of_nat (length p)\<rparr>)
      else None)"

text \<open>\<open>ReceivePacket\<close> into a buffer of \<open>n\<close> bytes; it waits while the channel is empty.\<close>

definition ReceivePacket :: "nat \<Rightarrow> dataPath \<Rightarrow> (dataPath \<times> nat) option" where
  "ReceivePacket n s =
     (case recvCh s of [] \<Rightarrow> None
      | p # ps \<Rightarrow> let c = min n (length p) in
          Some (s\<lparr>recvCh := ps, dpGot := dpGot s @ [take n p], dpRxBytes := dpRxBytes s + of_nat c\<rparr>, c))"

section \<open>The connections' side\<close>

definition setConn :: "nat \<Rightarrow> pumpConn \<Rightarrow> dataPath \<Rightarrow> dataPath" where
  "setConn i c s = s\<lparr>dpConns := (dpConns s)[i := c]\<rparr>"

text \<open>
  The sending goroutine takes a packet (\<open>select\<close> may do so even if the context is cancelled), writes it, and returns when the write fails or
  the context is done; its return cancels the session.
\<close>

definition pumpTake :: "nat \<Rightarrow> dataPath \<Rightarrow> dataPath" where
  "pumpTake i s =
     (case (pcOut (dpConns s ! i), sendCh s) of
        (Waiting, p # ps) \<Rightarrow>
          setConn i ((dpConns s ! i)\<lparr>pcOut := Has p\<rparr>) (s\<lparr>sendCh := ps, dpTaken := dpTaken s @ [(i, p)]\<rparr>)
      | _ \<Rightarrow> s)"

definition pumpWrite :: "nat \<Rightarrow> bool \<Rightarrow> dataPath \<Rightarrow> dataPath" where
  "pumpWrite i ok s =
     (let c = dpConns s ! i in
      case pcOut c of
        Has p \<Rightarrow> setConn i (if ok then c\<lparr>pcOut := Waiting, pcWrote := pcWrote c @ [(p, True)]\<rparr>
                            else c\<lparr>pcOut := Done, pcWrote := pcWrote c @ [(p, False)], pcCancelled := True\<rparr>) s
      | _ \<Rightarrow> s)"

definition pumpQuit :: "nat \<Rightarrow> dataPath \<Rightarrow> dataPath" where
  "pumpQuit i s =
     (let c = dpConns s ! i in
      if pcOut c = Waiting \<and> pcCancelled c then setConn i (c\<lparr>pcOut := Done\<rparr>) s else s)"

text \<open>Which packets are for WireGuard: no echo of a probe, no keepalive of one byte.\<close>

fun forWireGuard :: "sessKind \<Rightarrow> bytes \<Rightarrow> bool" where
  "forWireGuard KDTLS p \<longleftrightarrow> \<not> isProbePacket p"
| "forWireGuard KSRTP p \<longleftrightarrow> \<not> isProbePacket p"
| "forWireGuard KDirect p \<longleftrightarrow> True"
| "forWireGuard KWrapA p \<longleftrightarrow> 1 < length p"

text \<open>
  The receiving goroutine reads a packet into its buffer. The time is noted first; the WRAP-A session does so only for packets
  that are no keepalive.
\<close>

definition pumpRead :: "nat \<Rightarrow> gotime \<Rightarrow> bytes \<Rightarrow> dataPath \<Rightarrow> dataPath" where
  "pumpRead i now p s =
     (let c = dpConns s ! i; k = pcKind c in
      if pcIn c = Waiting \<and> length p \<le> pumpBuf then
        (let c' = c\<lparr>pcRead := pcRead c @ [(k, p)]\<rparr>;
             s' = (if k = KWrapA \<and> length p \<le> 1 then s else s\<lparr>dpLastRecv := unix_of now\<rparr>)
         in setConn i (if forWireGuard k p then c'\<lparr>pcIn := Has p\<rparr> else c') s')
      else s)"

definition pumpPush :: "nat \<Rightarrow> dataPath \<Rightarrow> dataPath" where
  "pumpPush i s =
     (let c = dpConns s ! i in
      case pcIn c of
        Has p \<Rightarrow> (if length (recvCh s) < packetCap
          then setConn i (c\<lparr>pcIn := Waiting, pcQueued := pcQueued c @ [(p, True)]\<rparr>)
                 (s\<lparr>recvCh := recvCh s @ [p], dpPushed := dpPushed s @ [(i, p)]\<rparr>)
          else s)
      | _ \<Rightarrow> s)"

definition pumpGiveUp :: "nat \<Rightarrow> dataPath \<Rightarrow> dataPath" where
  "pumpGiveUp i s =
     (let c = dpConns s ! i in
      case pcIn c of
        Has p \<Rightarrow> (if pcCancelled c then setConn i (c\<lparr>pcIn := Done, pcQueued := pcQueued c @ [(p, False)]\<rparr>) s else s)
      | _ \<Rightarrow> s)"

text \<open>A failed read: the direct session ends on every error, the others as \<open>onReadError\<close> says.\<close>

definition pumpReadError :: "nat \<Rightarrow> string \<Rightarrow> duration \<Rightarrow> gotime \<Rightarrow> dataPath \<Rightarrow> dataPath" where
  "pumpReadError i err elapsed now s =
     (let c = dpConns s ! i; stop = setConn i (c\<lparr>pcIn := Done, pcCancelled := True\<rparr>) s in
      if pcIn c \<noteq> Waiting then s
      else if pcKind c = KDirect then stop
      else (case onReadError (pcCancelled c) err elapsed (dpLastRecv s) now of
              ReadOn \<Rightarrow> s
            | ReadOnReset \<Rightarrow> s\<lparr>dpLastRecv := unix_of now\<rparr>
            | ReadStop \<Rightarrow> stop))"

text \<open>\<open>Pause\<close>, the probe and the end of the relay cancel the session; a new one begins when both goroutines have returned.\<close>

definition pumpCancel :: "nat \<Rightarrow> dataPath \<Rightarrow> dataPath" where
  "pumpCancel i s = setConn i ((dpConns s ! i)\<lparr>pcCancelled := True\<rparr>) s"

definition pumpRestart :: "nat \<Rightarrow> sessKind \<Rightarrow> dataPath \<Rightarrow> dataPath" where
  "pumpRestart i k s =
     (let c = dpConns s ! i in
      if pcOut c = Done \<and> pcIn c = Done
      then setConn i (c\<lparr>pcKind := k, pcCancelled := False, pcOut := Waiting, pcIn := Waiting, pcEnded := Suc (pcEnded c)\<rparr>) s
      else s)"

datatype dataEvent =
  WGSend bytes | WGReceive nat | PTake nat | PWrite nat bool | PQuit nat | PRead nat gotime bytes | PPush nat | PGiveUp nat
  | PReadError nat string duration gotime | PCancel nat | PRestart nat sessKind

text \<open>Calls that wait leave the state as it is; events of connections that do not exist do nothing.\<close>

fun dataExec :: "dataEvent \<Rightarrow> dataPath \<Rightarrow> dataPath" where
  "dataExec (WGSend p) s = (case SendPacket p s of None \<Rightarrow> s | Some t \<Rightarrow> t)"
| "dataExec (WGReceive n) s = (case ReceivePacket n s of None \<Rightarrow> s | Some (t, _) \<Rightarrow> t)"
| "dataExec (PTake i) s = (if i < length (dpConns s) then pumpTake i s else s)"
| "dataExec (PWrite i ok) s = (if i < length (dpConns s) then pumpWrite i ok s else s)"
| "dataExec (PQuit i) s = (if i < length (dpConns s) then pumpQuit i s else s)"
| "dataExec (PRead i now p) s = (if i < length (dpConns s) then pumpRead i now p s else s)"
| "dataExec (PPush i) s = (if i < length (dpConns s) then pumpPush i s else s)"
| "dataExec (PGiveUp i) s = (if i < length (dpConns s) then pumpGiveUp i s else s)"
| "dataExec (PReadError i e el now) s = (if i < length (dpConns s) then pumpReadError i e el now s else s)"
| "dataExec (PCancel i) s = (if i < length (dpConns s) then pumpCancel i s else s)"
| "dataExec (PRestart i k) s = (if i < length (dpConns s) then pumpRestart i k s else s)"

definition dataRun :: "sessKind list \<Rightarrow> dataEvent list \<Rightarrow> dataPath" where
  "dataRun ks evs = fold dataExec evs (dpInit ks)"

section \<open>Where packets are\<close>

fun inHand :: "pump \<Rightarrow> bytes list" where
  "inHand (Has p) = [p]"
| "inHand Waiting = []"
| "inHand Done = []"

definition ofConn :: "nat \<Rightarrow> (nat \<times> bytes) list \<Rightarrow> bytes list" where
  "ofConn i xs = map snd (filter (\<lambda>x. fst x = i) xs)"

lemma ofConn_simps [simp]: "ofConn i [] = []" "ofConn i (xs @ ys) = ofConn i xs @ ofConn i ys"
  "ofConn i [(j, p)] = (if j = i then [p] else [])"
  by (simp_all add: ofConn_def)

definition losses :: "(bytes \<times> bool) list \<Rightarrow> nat" where
  "losses xs = length (filter (\<lambda>x. \<not> snd x) xs)"

definition keptOf :: "(bytes \<times> bool) list \<Rightarrow> bytes list" where
  "keptOf xs = map fst (filter snd xs)"

lemma losses_kept_simps [simp]: "losses [] = 0" "losses (xs @ [(p, b)]) = losses xs + (if b then 0 else 1)"
  "keptOf [] = []" "keptOf (xs @ [(p, b)]) = keptOf xs @ (if b then [p] else [])"
  by (simp_all add: losses_def keptOf_def)

definition ended :: "pump \<Rightarrow> nat" where "ended p = (if p = Done then 1 else 0)"

lemma ended_simps [simp]: "ended Done = 1" "ended Waiting = 0" "ended (Has p) = 0"
  by (simp_all add: ended_def)

text \<open>Packets read that WireGuard is to get.\<close>

definition wanted :: "(sessKind \<times> bytes) list \<Rightarrow> bytes list" where
  "wanted xs = map snd (filter (\<lambda>(k, p). forWireGuard k p) xs)"

lemma wanted_simps [simp]: "wanted [] = []" "wanted (xs @ [(k, p)]) = wanted xs @ (if forWireGuard k p then [p] else [])"
  by (simp_all add: wanted_def)

text \<open>One connection: nothing it took or read is unaccounted for, in order; and it lost at most one packet per session and direction.\<close>

definition connOK :: "(nat \<times> bytes) list \<Rightarrow> (nat \<times> bytes) list \<Rightarrow> nat \<Rightarrow> pumpConn \<Rightarrow> bool" where
  "connOK taken pushed i c \<longleftrightarrow>
     map fst (pcWrote c) @ inHand (pcOut c) = ofConn i taken
     \<and> map fst (pcQueued c) @ inHand (pcIn c) = wanted (pcRead c)
     \<and> keptOf (pcQueued c) = ofConn i pushed
     \<and> losses (pcWrote c) \<le> pcEnded c + ended (pcOut c)
     \<and> losses (pcQueued c) \<le> pcEnded c + ended (pcIn c)
     \<and> (\<forall>x \<in> set (pcRead c). length (snd x) \<le> pumpBuf)"

definition dataOK :: "nat \<Rightarrow> dataPath \<Rightarrow> bool" where
  "dataOK n s \<longleftrightarrow> length (dpConns s) = n
     \<and> (\<forall>i < n. connOK (dpTaken s) (dpPushed s) i (dpConns s ! i))
     \<and> dpAccepted s = map snd (dpTaken s) @ sendCh s
     \<and> (\<exists>out. map snd (dpPushed s) = out @ recvCh s \<and> list_all2 (\<lambda>g p. \<exists>m. g = take m p) (dpGot s) out)
     \<and> (\<forall>x \<in> set (dpTaken s) \<union> set (dpPushed s). fst x < n)
     \<and> length (sendCh s) \<le> packetCap \<and> length (recvCh s) \<le> packetCap
     \<and> dpTxBytes s = of_nat (length (concat (dpAccepted s))) \<and> dpRxBytes s = of_nat (length (concat (dpGot s)))"

lemma connOK_new: "connOK [] [] i (newPump k)"
  by (simp add: connOK_def newPump_def)

lemma dataOK_init: "dataOK (length ks) (dpInit ks)"
  by (simp add: dataOK_def dpInit_def connOK_new)

text \<open>Replacing one connection.\<close>

lemma dataOK_setConn:
  assumes "dataOK n s" "connOK (dpTaken s) (dpPushed s) i c"
  shows "dataOK n (setConn i c s)"
proof -
  have "connOK (dpTaken s) (dpPushed s) j ((dpConns s)[i := c] ! j)" if "j < n" for j
    using assms that by (cases "j = i") (simp_all add: dataOK_def)
  then show ?thesis using assms(1) by (simp add: dataOK_def setConn_def)
qed

lemma dataOK_conn: "dataOK n s \<Longrightarrow> i < length (dpConns s) \<Longrightarrow> connOK (dpTaken s) (dpPushed s) i (dpConns s ! i)"
  by (simp add: dataOK_def)

lemma dataOK_lastRecv [simp]: "dataOK n (s\<lparr>dpLastRecv := t\<rparr>) = dataOK n s"
  by (simp add: dataOK_def)

lemma connOK_other: "connOK t p i c \<Longrightarrow> j \<noteq> i \<Longrightarrow> connOK (t @ [(j, x)]) p i c \<and> connOK t (p @ [(j, x)]) i c"
  by (simp add: connOK_def)

lemma dataOK_send: "dataOK n s \<Longrightarrow> SendPacket p s = Some t \<Longrightarrow> dataOK n t"
  by (auto simp: SendPacket_def dataOK_def split: if_splits)

lemma dataOK_receive:
  assumes "dataOK n s" "ReceivePacket m s = Some (t, c)"
  shows "dataOK n t"
proof -
  obtain p ps where r: "recvCh s = p # ps" and t: "t = s\<lparr>recvCh := ps, dpGot := dpGot s @ [take m p], dpRxBytes := dpRxBytes s + of_nat (min m (length p))\<rparr>"
    using assms(2) by (auto simp: ReceivePacket_def Let_def split: list.splits)
  obtain out where o: "map snd (dpPushed s) = out @ recvCh s" "list_all2 (\<lambda>g p. \<exists>m. g = take m p) (dpGot s) out"
    using assms(1) by (auto simp: dataOK_def)
  have "list_all2 (\<lambda>g p. \<exists>m. g = take m p) (dpGot s @ [take m p]) (out @ [p])"
    using o(2) by (intro list_all2_appendI) auto
  then have "\<exists>out'. map snd (dpPushed t) = out' @ recvCh t \<and> list_all2 (\<lambda>g p. \<exists>m. g = take m p) (dpGot t) out'"
    using o(1) r t by (intro exI [of _ "out @ [p]"]) simp
  then show ?thesis using assms(1) r t by (auto simp: dataOK_def min.commute)
qed

lemma dataOK_take:
  assumes ok: "dataOK n s" and i: "i < length (dpConns s)"
  shows "dataOK n (pumpTake i s)"
proof (cases "pcOut (dpConns s ! i) = Waiting \<and> sendCh s \<noteq> []")
  case True
  then obtain p ps where q: "sendCh s = p # ps" by (cases "sendCh s") auto
  have "connOK (dpTaken s @ [(i, p)]) (dpPushed s) i ((dpConns s ! i)\<lparr>pcOut := Has p\<rparr>)"
    using dataOK_conn [OF ok i] True by (simp add: connOK_def)
  then show ?thesis using ok i True q connOK_other
    by (auto simp: pumpTake_def setConn_def dataOK_def nth_list_update)
next
  case False
  then show ?thesis using ok by (auto simp: pumpTake_def split: pump.splits list.splits)
qed

lemma dataOK_push:
  assumes ok: "dataOK n s" and i: "i < length (dpConns s)"
  shows "dataOK n (pumpPush i s)"
proof (cases "\<exists>p. pcIn (dpConns s ! i) = Has p \<and> length (recvCh s) < packetCap")
  case True
  then obtain p where q: "pcIn (dpConns s ! i) = Has p" "length (recvCh s) < packetCap" by blast
  have "connOK (dpTaken s) (dpPushed s @ [(i, p)]) i ((dpConns s ! i)\<lparr>pcIn := Waiting, pcQueued := pcQueued (dpConns s ! i) @ [(p, True)]\<rparr>)"
    using dataOK_conn [OF ok i] q by (simp add: connOK_def)
  then show ?thesis using ok i q connOK_other
    by (auto simp: pumpPush_def setConn_def dataOK_def Let_def nth_list_update)
next
  case False
  then show ?thesis using ok by (auto simp: pumpPush_def Let_def split: pump.splits)
qed

lemma dataOK_same:
  assumes ok: "dataOK n s" and i: "i < length (dpConns s)"
  shows "dataOK n (pumpWrite i b s)" "dataOK n (pumpQuit i s)" "dataOK n (pumpGiveUp i s)"
    "dataOK n (pumpCancel i s)" "dataOK n (pumpRestart i k s)" "dataOK n (pumpReadError i e el now s)"
proof -
  note c = dataOK_conn [OF ok i]
  show "dataOK n (pumpWrite i b s)"
    using c ok by (auto simp: pumpWrite_def Let_def connOK_def split: pump.splits intro!: dataOK_setConn)
  show "dataOK n (pumpQuit i s)"
    using c ok by (auto simp: pumpQuit_def Let_def connOK_def intro!: dataOK_setConn)
  show "dataOK n (pumpGiveUp i s)"
    using c ok by (auto simp: pumpGiveUp_def Let_def connOK_def split: pump.splits intro!: dataOK_setConn)
  show "dataOK n (pumpCancel i s)"
    using c ok by (auto simp: pumpCancel_def connOK_def intro!: dataOK_setConn)
  show "dataOK n (pumpRestart i k s)"
    using c ok by (auto simp: pumpRestart_def Let_def connOK_def intro!: dataOK_setConn)
  show "dataOK n (pumpReadError i e el now s)"
    using c ok by (auto simp: pumpReadError_def Let_def connOK_def split: readEnd.splits intro!: dataOK_setConn)
qed

lemma setConn_lastRecv: "setConn i c (s\<lparr>dpLastRecv := t\<rparr>) = (setConn i c s)\<lparr>dpLastRecv := t\<rparr>"
  by (simp add: setConn_def)

lemma dataOK_read:
  assumes ok: "dataOK n s" and i: "i < length (dpConns s)"
  shows "dataOK n (pumpRead i now p s)"
  using dataOK_conn [OF ok i] ok
  by (auto simp: pumpRead_def Let_def connOK_def setConn_lastRecv intro!: dataOK_setConn)

lemma dataOK_exec: "dataOK n s \<Longrightarrow> dataOK n (dataExec ev s)"
proof (cases ev)
  case (WGSend p)
  then show "dataOK n s \<Longrightarrow> dataOK n (dataExec ev s)" by (cases "SendPacket p s") (simp_all add: dataOK_send)
next
  case (WGReceive m)
  then show "dataOK n s \<Longrightarrow> dataOK n (dataExec ev s)"
    by (cases "ReceivePacket m s") (auto intro: dataOK_receive)
qed (simp_all add: dataOK_same dataOK_take dataOK_push dataOK_read)

interpretation packets: event_system "\<lambda>s. s = dpInit ks" dataExec "dataOK (length ks)" for ks
  by unfold_locales (auto simp: dataOK_init dataOK_exec)

lemma dataOK_run: "dataOK (length ks) (dataRun ks evs)"
  unfolding dataRun_def by (rule packets.inv_run) (rule refl)

section \<open>Buffers of WireGuard\<close>

lemma pushed_short:
  assumes ok: "dataOK n s" and x: "x \<in> set (dpPushed s)"
  shows "length (snd x) \<le> pumpBuf"
proof -
  define c where "c = dpConns s ! fst x"
  have c: "connOK (dpTaken s) (dpPushed s) (fst x) c" using ok x by (simp add: dataOK_def c_def)
  have "snd x \<in> set (ofConn (fst x) (dpPushed s))" using x by (auto simp: ofConn_def)
  also have "\<dots> = set (keptOf (pcQueued c))" using c by (simp add: connOK_def)
  also have "\<dots> \<subseteq> set (map fst (pcQueued c) @ inHand (pcIn c))" by (auto simp: keptOf_def)
  also have "\<dots> = set (wanted (pcRead c))" using c unfolding connOK_def by metis
  finally have "snd x \<in> set (wanted (pcRead c))" .
  then show ?thesis using c by (auto simp: connOK_def wanted_def)
qed

definition wholePackets :: "dataPath \<Rightarrow> bool" where
  "wholePackets s \<longleftrightarrow> dpGot s @ recvCh s = map snd (dpPushed s)"

lemma wholePackets_setConn [simp]: "wholePackets (setConn i c s) = wholePackets s"
  "wholePackets (s\<lparr>dpLastRecv := t\<rparr>) = wholePackets s"
  by (simp_all add: wholePackets_def setConn_def)

lemma wholePackets_conns:
  assumes "wholePackets s"
  shows "wholePackets (pumpTake i s)" "wholePackets (pumpWrite i b s)" "wholePackets (pumpQuit i s)"
    "wholePackets (pumpRead i now p s)" "wholePackets (pumpPush i s)" "wholePackets (pumpGiveUp i s)"
    "wholePackets (pumpReadError i e el now s)" "wholePackets (pumpCancel i s)" "wholePackets (pumpRestart i k s)"
proof -
  show "wholePackets (pumpTake i s)"
    using assms by (auto simp: pumpTake_def wholePackets_def setConn_def split: pump.split list.split)
  show "wholePackets (pumpPush i s)"
    using assms by (auto simp: pumpPush_def wholePackets_def setConn_def Let_def split: pump.split)
  show "wholePackets (pumpReadError i e el now s)"
    using assms by (simp add: pumpReadError_def Let_def split: readEnd.split)
qed (use assms in \<open>simp_all add: pumpWrite_def pumpQuit_def pumpRead_def pumpGiveUp_def pumpCancel_def pumpRestart_def Let_def split: pump.split\<close>)

lemma wholePackets_exec:
  assumes ok: "dataOK n s" and w: "wholePackets s" and big: "\<And>m. ev = WGReceive m \<Longrightarrow> pumpBuf \<le> m"
  shows "wholePackets (dataExec ev s)"
proof (cases ev)
  case (WGSend p)
  then show ?thesis using w by (auto simp: SendPacket_def wholePackets_def)
next
  case (WGReceive m)
  show ?thesis
  proof (cases "recvCh s")
    case Nil
    then show ?thesis using w WGReceive by (simp add: ReceivePacket_def)
  next
    case (Cons p ps)
    have "p \<in> set (map snd (dpPushed s))" using w Cons by (metis wholePackets_def in_set_conv_decomp)
    then have "length p \<le> m" using pushed_short [OF ok] big [OF WGReceive] by fastforce
    then show ?thesis using w WGReceive Cons by (simp add: ReceivePacket_def wholePackets_def Let_def)
  qed
qed (use w in \<open>simp_all add: wholePackets_conns\<close>)

lemma wholePackets_fold:
  "dataOK n s \<Longrightarrow> wholePackets s \<Longrightarrow> \<forall>m. WGReceive m \<in> set evs \<longrightarrow> pumpBuf \<le> m \<Longrightarrow> wholePackets (fold dataExec evs s)"
  by (induction evs arbitrary: s) (simp_all add: wholePackets_exec dataOK_exec)

section \<open>No packet goes astray\<close>

text \<open>
  C38. Whatever connections, goroutines, read errors, cancellations and restarts do, and in whatever order. Outward: the packets
  \<open>SendPacket\<close> accepted are, in order, those taken from the channel followed by those still in it; each was taken by one connection, which
  wrote its packets in the order it took them; and a connection lost at most one packet per session, the one whose write ended it.
  Inward: of the packets a connection read, those for WireGuard - no echo of a probe, no keepalive - were queued in order, less at
  most one per session, given up when the session was cancelled. What was queued is, in order, what \<open>ReceivePacket\<close> returned
  followed by what is still queued, and complete if WireGuard's buffers have 1600 bytes. Both channels hold at most 256 packets.
\<close>

theorem packets_conserved:
  assumes "i < length ks"
  shows "let s = dataRun ks evs; c = dpConns s ! i in
     dpAccepted s = map snd (dpTaken s) @ sendCh s \<and> (\<forall>x \<in> set (dpTaken s). fst x < length ks)
   \<and> ofConn i (dpTaken s) = map fst (pcWrote c) @ inHand (pcOut c) \<and> losses (pcWrote c) \<le> pcEnded c + ended (pcOut c)
   \<and> wanted (pcRead c) = map fst (pcQueued c) @ inHand (pcIn c) \<and> losses (pcQueued c) \<le> pcEnded c + ended (pcIn c)
   \<and> keptOf (pcQueued c) = ofConn i (dpPushed s)
   \<and> (\<exists>out. map snd (dpPushed s) = out @ recvCh s \<and> list_all2 (\<lambda>g p. \<exists>m. g = take m p) (dpGot s) out)
   \<and> ((\<forall>m. WGReceive m \<in> set evs \<longrightarrow> 1600 \<le> m) \<longrightarrow> map snd (dpPushed s) = dpGot s @ recvCh s)
   \<and> length (sendCh s) \<le> 256 \<and> length (recvCh s) \<le> 256"
proof -
  define s where "s = dataRun ks evs"
  have ok: "dataOK (length ks) s" unfolding s_def by (rule dataOK_run)
  have conn: "connOK (dpTaken s) (dpPushed s) i (dpConns s ! i)" using ok assms by (simp add: dataOK_def)
  have "wholePackets s" if "\<forall>m. WGReceive m \<in> set evs \<longrightarrow> 1600 \<le> m"
    using wholePackets_fold [OF dataOK_init] that
    by (simp add: s_def dataRun_def pumpBuf_def) (simp add: wholePackets_def dpInit_def)
  then show ?thesis using ok conn unfolding s_def [symmetric] Let_def dataOK_def connOK_def packetCap_def wholePackets_def
    by simp
qed

text \<open>Witness: two connections; one packet is lost with the failed write of the second, an echo is kept from WireGuard.\<close>

definition demoPackets :: "dataEvent list" where
  "demoPackets = [WGSend [1], WGSend [2], WGSend [3], PTake 0, PTake 1, PWrite 1 False, PWrite 0 True,
     PRead 0 0 (pingPkt 7), PRead 0 0 [9], PPush 0, WGReceive 1600]"

theorem packets_conserved_witness:
  "let s = dataRun [KSRTP, KSRTP] demoPackets in
   sendCh s = [[3]] \<and> dpGot s = [[9]] \<and> pcWrote (dpConns s ! 0) = [([1], True)] \<and> pcWrote (dpConns s ! 1) = [([2], False)]
   \<and> map snd (dpPushed s) = dpGot s @ recvCh s"
proof -
  have big: "\<forall>m. WGReceive m \<in> set demoPackets \<longrightarrow> 1600 \<le> m" by (simp add: demoPackets_def)
  show ?thesis using packets_conserved [of 0 "[KSRTP, KSRTP]" demoPackets] big
    by (simp add: Let_def) (simp add: dataRun_def demoPackets_def dpInit_def newPump_def SendPacket_def ReceivePacket_def pumpTake_def pumpWrite_def
        pumpRead_def pumpPush_def setConn_def packetCap_def pumpBuf_def Let_def isProbePacket_def pingPkt_def probePingMagic_def)
qed

section \<open>The bind\<close>

text \<open>
  \<open>TURNBind\<close>, WireGuard's interface. \<open>Send\<close> hands its packets over one by one up to the first error; once the proxy has stopped a
  packet may be refused (\<open>stops\<close>), and is if the channel is full. The receiving function fills at most one packet; \<open>isClosed\<close> is the flag when
  \<open>ReceivePacket\<close> fails.
\<close>

definition sendOrStop :: "(bytes \<Rightarrow> bool) \<Rightarrow> string \<Rightarrow> bytes \<Rightarrow> dataPath \<Rightarrow> dataPath \<times> string option" where
  "sendOrStop stops e p s =
     (if stops p then (s, Some e) else case SendPacket p s of Some t \<Rightarrow> (t, None) | None \<Rightarrow> (s, Some e))"

fun bindSend :: "(bytes \<Rightarrow> 's \<Rightarrow> 's \<times> string option) \<Rightarrow> bytes list \<Rightarrow> 's \<Rightarrow> 's \<times> string option" where
  "bindSend send [] s = (s, None)"
| "bindSend send (b # bs) s = (case send b s of (t, Some e) \<Rightarrow> (t, Some e) | (t, None) \<Rightarrow> bindSend send bs t)"

datatype bindError = NetErrClosed | ProxyErr string

definition bindReceive :: "bool \<Rightarrow> nat list \<Rightarrow> (nat \<Rightarrow> 's \<Rightarrow> 's \<times> (string + nat)) \<Rightarrow> 's \<Rightarrow> 's \<times> (bindError + nat list)" where
  "bindReceive isClosed bufs receive s =
     (case bufs of [] \<Rightarrow> (s, Inr [])
      | b # _ \<Rightarrow> (case receive b s of
           (t, Inl e) \<Rightarrow> (t, Inl (if isClosed then NetErrClosed else ProxyErr e))
         | (t, Inr n) \<Rightarrow> (t, Inr [n])))"

definition DstToString :: "string \<Rightarrow> string" where
  "DstToString a = (if a \<noteq> [] then a else ''turn:0'')"

text \<open>\<open>Open\<close> clears the flag and starts the proxy, \<open>Close\<close> sets it; the proxy runs on.\<close>

definition bindOpen :: "('s \<Rightarrow> 's \<times> string option) \<Rightarrow> bool \<times> 's \<Rightarrow> (bool \<times> 's) \<times> string option" where
  "bindOpen start b = (case start (snd b) of (t, e) \<Rightarrow> ((False, t), e))"

definition bindClose :: "bool \<times> 's \<Rightarrow> bool \<times> 's" where
  "bindClose b = (True, snd b)"

text \<open>A batch gets in as a prefix, and as a whole exactly if no error is returned.\<close>

lemma bindSend_prefix:
  assumes "bindSend (sendOrStop stops e) bufs s = (t, r)"
  shows "\<exists>k \<le> length bufs. dpAccepted t = dpAccepted s @ take k bufs \<and> (r = None \<longleftrightarrow> k = length bufs)"
  using assms
proof (induction bufs arbitrary: s)
  case (Cons b bs)
  show ?case
  proof (cases "if stops b then None else SendPacket b s")
    case None
    then show ?thesis using Cons.prems by (auto simp: sendOrStop_def split: if_splits)
  next
    case (Some u)
    then have "bindSend (sendOrStop stops e) bs u = (t, r)" using Cons.prems by (simp add: sendOrStop_def [of stops e b s] split: if_splits)
    then obtain k where "k \<le> length bs" "dpAccepted t = dpAccepted u @ take k bs" "r = None \<longleftrightarrow> k = length bs"
      using Cons.IH by blast
    then show ?thesis using Some by (intro exI [of _ "Suc k"]) (auto simp: SendPacket_def split: if_splits)
  qed
qed simp

end
