(* ===== verification/Relay.thy ===== *)
theory Relay
  imports Probe Wrap WireProps Systems
begin

text \<open>
  The relay of a connection, from \<open>runTURN\<close> of \<open>proxy.go\<close>: the steps until the relay is allocated, and the two goroutines that carry
  datagrams between the session (\<open>conn2\<close>) and the relay, through the WRAP envelope if it is on.
\<close>

section \<open>Until the relay is there\<close>

datatype turnStep = ResolveStep | DialStep | ClientStep | ListenStep | AllocateStep

fun turnPrefix :: "bool \<Rightarrow> turnStep \<Rightarrow> string" where
  "turnPrefix useUDP ResolveStep = ''resolve TURN: ''"
| "turnPrefix useUDP DialStep = (if useUDP then ''dial TURN UDP: '' else ''dial TURN TCP: '')"
| "turnPrefix useUDP ClientStep = ''TURN client: ''"
| "turnPrefix useUDP ListenStep = ''TURN listen: ''"
| "turnPrefix useUDP AllocateStep = ''TURN allocate: ''"

text \<open>The error of the first step that fails, as wrapped by \<open>fmt.Errorf\<close>; every step before it is undone by a \<open>defer\<close>.\<close>

fun turnSteps :: "bool \<Rightarrow> (turnStep \<Rightarrow> string option) \<Rightarrow> turnStep list \<Rightarrow> string option" where
  "turnSteps useUDP fails [] = None"
| "turnSteps useUDP fails (st # sts) =
     (case fails st of Some e \<Rightarrow> Some (turnPrefix useUDP st @ e) | None \<Rightarrow> turnSteps useUDP fails sts)"

definition turnSetup :: "bool \<Rightarrow> (turnStep \<Rightarrow> string option) \<Rightarrow> string option" where
  "turnSetup useUDP fails = turnSteps useUDP fails [ResolveStep, DialStep, ClientStep, ListenStep, AllocateStep]"

datatype addrFamily = FamilyIPv4 | FamilyIPv6

text \<open>\<open>peer\<close> is whether there is a peer, and whether its address has a four-byte form.\<close>

definition addrFamilyFor :: "bool option \<Rightarrow> addrFamily" where
  "addrFamilyFor peer = (if peer = Some False then FamilyIPv6 else FamilyIPv4)"

section \<open>The two goroutines\<close>

datatype relayEnd = ReadFailed | WriteFailed | WrapFailed | NoPeer

text \<open>
  \<open>rpWireBuf\<close> and \<open>rpPlain\<close> are the buffers that are used again for every packet; \<open>rpPeer\<close> says whether \<open>peerAddr\<close> is set. \<open>rpSent\<close> and
  \<open>rpSeen\<close> are for the statements: the packets that were written to the relay, before the envelope, and all that was read from it.
\<close>

record relayPump =
  rpWrap :: "wrapConn option"
  rpWireBuf :: bytes
  rpPlain :: bytes
  rpPeer :: bool
  rpOutEnd :: "relayEnd option"
  rpInEnd :: "relayEnd option"
  rpTxBytes :: "64 word"
  rpRxBytes :: "64 word"
  rpLastTx :: int
  rpLastRx :: int
  rpToRelay :: "bytes list"
  rpToConn :: "bytes list"
  rpSent :: "bytes list"
  rpSeen :: "bytes list"

definition relayBuf :: nat where "relayBuf = 1600"

text \<open>If the envelope cannot be set up, the relay goes on without one.\<close>

definition relayWrap :: "bool \<Rightarrow> wrapError + wrapConn \<Rightarrow> wrapConn option" where
  "relayWrap wanted made = (if \<not> wanted then None else case made of Inl e \<Rightarrow> None | Inr w \<Rightarrow> Some w)"

definition newRelay :: "wrapConn option \<Rightarrow> relayPump" where
  "newRelay w = \<lparr>rpWrap = w, rpWireBuf = (if w = None then [] else replicate (wrapMaxWire relayBuf) 0), rpPlain = replicate relayBuf 0,
     rpPeer = False, rpOutEnd = None, rpInEnd = None, rpTxBytes = 0, rpRxBytes = 0, rpLastTx = 0, rpLastRx = 0,
     rpToRelay = [], rpToConn = [], rpSent = [], rpSeen = []\<rparr>"

definition readBufLen :: "relayPump \<Rightarrow> nat" where
  "readBufLen s = relayBuf + (if rpWrap s = None then 0 else wrapOverhead)"

text \<open>A packet \<open>p\<close> read from \<open>conn2\<close> goes to the relay.\<close>

definition toRelay :: "gotime \<Rightarrow> bool \<Rightarrow> bytes \<Rightarrow> bytes \<Rightarrow> relayPump \<Rightarrow> relayPump" where
  "toRelay now ok p out s =
     (if \<not> ok then s\<lparr>rpOutEnd := Some WriteFailed\<rparr>
      else s\<lparr>rpToRelay := rpToRelay s @ [out], rpSent := rpSent s @ [p], rpTxBytes := rpTxBytes s + of_nat (length p),
             rpLastTx := unixNano now\<rparr>)"

definition fromConn :: "gotime \<Rightarrow> bool \<Rightarrow> bytes \<Rightarrow> relayPump \<Rightarrow> relayPump" where
  "fromConn now ok p s =
     (if rpOutEnd s \<noteq> None \<or> relayBuf < length p then s
      else
        let s1 = s\<lparr>rpPeer := True\<rparr> in
        case rpWrap s of
          None \<Rightarrow> toRelay now ok p p s1
        | Some w \<Rightarrow> (case wrapInto w (rpWireBuf s) p of
             (w', Inl e) \<Rightarrow> s1\<lparr>rpWrap := Some w', rpOutEnd := Some WrapFailed\<rparr>
           | (w', Inr (wn, wire)) \<Rightarrow> toRelay now ok p (take wn wire) (s1\<lparr>rpWrap := Some w', rpWireBuf := wire\<rparr>)))"

text \<open>A datagram read from the relay goes to \<open>conn2\<close>; one that does not unwrap is dropped.\<close>

definition toConn :: "gotime \<Rightarrow> bool \<Rightarrow> bytes \<Rightarrow> relayPump \<Rightarrow> relayPump" where
  "toConn now ok payload s =
     (if \<not> rpPeer s then s\<lparr>rpInEnd := Some NoPeer\<rparr>
      else if \<not> ok then s\<lparr>rpInEnd := Some WriteFailed\<rparr>
      else s\<lparr>rpToConn := rpToConn s @ [payload], rpRxBytes := rpRxBytes s + of_nat (length payload), rpLastRx := unixNano now\<rparr>)"

definition fromRelay :: "gotime \<Rightarrow> bool \<Rightarrow> bytes \<Rightarrow> relayPump \<Rightarrow> relayPump" where
  "fromRelay now ok d s =
     (if rpInEnd s \<noteq> None \<or> readBufLen s < length d then s
      else
        let s1 = s\<lparr>rpSeen := rpSeen s @ [d]\<rparr> in
        case rpWrap s of
          None \<Rightarrow> toConn now ok d s1
        | Some w \<Rightarrow> (case unwrapPacket w d (rpPlain s) of
             Inl e \<Rightarrow> s1
           | Inr (m, plain) \<Rightarrow> toConn now ok (take m plain) (s1\<lparr>rpPlain := plain\<rparr>)))"

text \<open>The end of one goroutine sets the deadlines of both connections, so that the other one's read fails.\<close>

datatype relayEvent = FromConn gotime bool bytes | FromRelay gotime bool bytes | ConnReadFails | RelayReadFails

fun relayExec :: "relayEvent \<Rightarrow> relayPump \<Rightarrow> relayPump" where
  "relayExec (FromConn now ok p) s = fromConn now ok p s"
| "relayExec (FromRelay now ok d) s = fromRelay now ok d s"
| "relayExec ConnReadFails s = (if rpOutEnd s = None then s\<lparr>rpOutEnd := Some ReadFailed\<rparr> else s)"
| "relayExec RelayReadFails s = (if rpInEnd s = None then s\<lparr>rpInEnd := Some ReadFailed\<rparr> else s)"

definition relayRun :: "wrapConn option \<Rightarrow> relayEvent list \<Rightarrow> relayPump" where
  "relayRun w evs = fold relayExec evs (newRelay w)"

section \<open>What gets through\<close>

text \<open>The payload of a datagram from the relay, if it has one.\<close>

definition relayOpen :: "wrapConn option \<Rightarrow> bytes \<Rightarrow> bytes option" where
  "relayOpen w d = (case w of None \<Rightarrow> Some d
     | Some v \<Rightarrow> (case unwrapPacket v d (replicate relayBuf 0) of Inl _ \<Rightarrow> None | Inr (m, plain) \<Rightarrow> Some (take m plain)))"

definition opened :: "wrapConn option \<Rightarrow> bytes list \<Rightarrow> bytes list" where
  "opened w ds = map the (filter (\<lambda>x. x \<noteq> None) (map (relayOpen w) ds))"

lemma opened_simps [simp]: "opened w [] = []"
  "opened w (ds @ [d]) = opened w ds @ (case relayOpen w d of None \<Rightarrow> [] | Some p \<Rightarrow> [p])"
  by (simp_all add: opened_def split: option.split)

text \<open>The plaintext buffer matters only by its length, the connection only by its cipher.\<close>

lemma unwrap_into:
  assumes "aead w = aead v" "length dst = relayBuf"
  shows "case unwrapPacket w d dst of
      Inl _ \<Rightarrow> relayOpen (Some v) d = None
    | Inr (m, plain) \<Rightarrow> relayOpen (Some v) d = Some (take m plain) \<and> length plain = relayBuf"
  using assms by (auto simp: unwrapPacket_def relayOpen_def Let_def split: option.splits)

lemma wrapRecv_open: "wrapRecv w d = Some p \<Longrightarrow> length p \<le> relayBuf \<Longrightarrow> relayOpen (Some w) d = Some p"
  by (auto simp: wrapRecv_def relayOpen_def unwrapPacket_def Let_def split: option.splits if_splits)

definition onWire :: "wrapConn option \<Rightarrow> bytes \<Rightarrow> bytes \<Rightarrow> bool" where
  "onWire w d p = (case w of None \<Rightarrow> d = p
     | Some v \<Rightarrow> (\<forall>r. aead r = aead v \<longrightarrow> wrapRecv r d = Some p) \<and> length d = 40 + length p)"

definition sameCipher :: "wrapConn option \<Rightarrow> wrapConn option \<Rightarrow> bytes \<Rightarrow> bool" where
  "sameCipher w0 cur buf = (case (w0, cur) of (None, None) \<Rightarrow> True
     | (Some v, Some w) \<Rightarrow> wrap_wf w \<and> aead w = aead v \<and> length buf = wrapMaxWire relayBuf
     | _ \<Rightarrow> False)"

definition relayOK :: "wrapConn option \<Rightarrow> relayPump \<Rightarrow> bool" where
  "relayOK w0 s \<longleftrightarrow> sameCipher w0 (rpWrap s) (rpWireBuf s) \<and> length (rpPlain s) = relayBuf
     \<and> rpOutEnd s \<noteq> Some WrapFailed \<and> list_all2 (onWire w0) (rpToRelay s) (rpSent s)
     \<and> prefix (rpToConn s) (opened w0 (rpSeen s))
     \<and> (rpInEnd s \<in> {None, Some ReadFailed} \<longrightarrow> rpToConn s = opened w0 (rpSeen s))
     \<and> (rpInEnd s = Some NoPeer \<longrightarrow> rpToConn s = []) \<and> (rpToConn s \<noteq> [] \<longrightarrow> rpPeer s)"

lemma relayOK_new:
  assumes "\<And>v. w = Some v \<Longrightarrow> wrap_wf v"
  shows "relayOK w (newRelay w)"
  using assms by (cases w) (simp_all add: relayOK_def newRelay_def sameCipher_def)

lemma wrapInto_wire:
  assumes w: "wrap_wf w" and p: "length p \<le> relayBuf" and b: "length buf = wrapMaxWire relayBuf" and v: "aead w = aead v"
  shows "\<exists>wn wire. wrapInto w buf p = (wrapAdvance w, Inr (wn, wire)) \<and> length wire = wrapMaxWire relayBuf \<and> onWire (Some v) (take wn wire) p"
proof -
  have fit: "wrapMaxWire (length p) \<le> length buf" using p b by (simp add: wrapMaxWire_def)
  define d where "d = wrapHeader w @ wrapNonce w @ Seal (aead w) (wrapNonce w) p (wrapHeader w @ wrapNonce w)"
  have len: "length d = wrapMaxWire (length p)" using w by (simp add: d_def wrapMaxWire_def wrap_lens)
  have i: "wrapInto w buf p = (wrapAdvance w, Inr (wrapMaxWire (length p), d @ drop (wrapMaxWire (length p)) buf))"
    using wrapInto_ok [OF w fit] by (simp add: d_def)
  have "wrapRecv r d = Some p" if "aead r = aead v" for r
    using unwrap_sealed [OF w, of r p d, folded d_def] that v len by (simp add: wrapRecv_def wrapMaxWire_def)
  then show ?thesis using i len fit b by (simp add: onWire_def) (simp add: wrapMaxWire_def wrap_lens)
qed

lemma relayOK_toRelay:
  assumes "relayOK w0 s" "onWire w0 d p" "rpOutEnd s = None"
  shows "relayOK w0 (toRelay now ok p d s)"
  using assms by (simp add: relayOK_def toRelay_def list_all2_appendI)

lemma relayOK_fromConn:
  assumes ok: "relayOK w0 s"
  shows "relayOK w0 (fromConn now b p s)"
proof (cases "rpOutEnd s \<noteq> None \<or> relayBuf < length p")
  case False
  have peer: "relayOK w0 (s\<lparr>rpPeer := True\<rparr>)" using ok by (simp add: relayOK_def)
  show ?thesis
  proof (cases w0)
    case None
    then have "rpWrap s = None" using ok by (cases "rpWrap s") (simp_all add: relayOK_def sameCipher_def)
    then show ?thesis using relayOK_toRelay [OF peer, of p p now b] False None by (simp add: fromConn_def onWire_def)
  next
    case (Some v)
    then obtain w where w: "rpWrap s = Some w" "wrap_wf w" "aead w = aead v" "length (rpWireBuf s) = wrapMaxWire relayBuf"
      using ok by (cases "rpWrap s") (auto simp: relayOK_def sameCipher_def)
    obtain wn wire where i: "wrapInto w (rpWireBuf s) p = (wrapAdvance w, Inr (wn, wire))"
      "length wire = wrapMaxWire relayBuf" "onWire (Some v) (take wn wire) p"
      using wrapInto_wire [OF w(2) _ w(4,3), of p] False by auto
    have aead_advance: "aead (wrapAdvance w) = aead w" by (simp add: wrapAdvance_def)
    have "relayOK w0 (s\<lparr>rpPeer := True, rpWrap := Some (wrapAdvance w), rpWireBuf := wire\<rparr>)"
      using ok w i(2) Some aead_advance by (simp add: relayOK_def) (simp add: sameCipher_def)
    then show ?thesis using relayOK_toRelay i(1,3) False w(1) Some by (simp add: fromConn_def)
  qed
qed (use ok in \<open>simp add: fromConn_def\<close>)

lemma relayOK_toConn:
  assumes ok: "relayOK w0 s" and ds: "opened w0 (rpSeen s @ [d]) = opened w0 (rpSeen s) @ [p]" and e: "rpInEnd s = None"
  shows "relayOK w0 (toConn now b p (s\<lparr>rpSeen := rpSeen s @ [d]\<rparr>))"
    and "length q = relayBuf \<Longrightarrow> relayOK w0 (toConn now b p (s\<lparr>rpSeen := rpSeen s @ [d], rpPlain := q\<rparr>))"
  using assms by (auto simp: relayOK_def toConn_def)

lemma relayOK_fromRelay:
  assumes ok: "relayOK w0 s"
  shows "relayOK w0 (fromRelay now b d s)"
proof (cases "rpInEnd s \<noteq> None \<or> readBufLen s < length d")
  case False
  show ?thesis
  proof (cases w0)
    case None
    then have "rpWrap s = None" using ok by (cases "rpWrap s") (simp_all add: relayOK_def sameCipher_def)
    then show ?thesis using relayOK_toConn(1) [OF ok, of d d now b] False None by (simp add: fromRelay_def relayOpen_def)
  next
    case (Some v)
    then obtain w where w: "rpWrap s = Some w" "aead w = aead v" and l: "length (rpPlain s) = relayBuf"
      using ok by (cases "rpWrap s") (auto simp: relayOK_def sameCipher_def)
    show ?thesis
    proof (cases "unwrapPacket w d (rpPlain s)")
      case (Inl e)
      then have "relayOpen w0 d = None" using unwrap_into [OF w(2) l, of d] Some by simp
      then show ?thesis using ok False w(1) Inl by (simp add: fromRelay_def Let_def relayOK_def)
    next
      case (Inr x)
      obtain m plain where x: "x = (m, plain)" by force
      then have o: "relayOpen w0 d = Some (take m plain)" "length plain = relayBuf"
        using unwrap_into [OF w(2) l, of d] Some Inr by simp_all
      have "relayOK w0 (toConn now b (take m plain) (s\<lparr>rpSeen := rpSeen s @ [d], rpPlain := plain\<rparr>))"
        by (rule relayOK_toConn(2) [OF ok _ _ o(2)]) (use o(1) False in simp_all)
      then show ?thesis using False w(1) Inr x by (simp add: fromRelay_def Let_def)
    qed
  qed
qed (use ok in \<open>simp add: fromRelay_def\<close>)

lemma relayOK_exec: "relayOK w0 s \<Longrightarrow> relayOK w0 (relayExec ev s)"
  by (cases ev) (simp_all add: relayOK_fromConn relayOK_fromRelay, auto simp: relayOK_def)

interpretation relays: event_system "\<lambda>s. \<exists>w. w0 = w \<and> s = newRelay w \<and> (\<forall>v. w = Some v \<longrightarrow> wrap_wf v)" relayExec "relayOK w0" for w0
  by unfold_locales (auto simp: relayOK_exec intro: relayOK_new)

section \<open>The relay is transparent\<close>

lemma relay_inv:
  assumes "\<And>v. w = Some v \<Longrightarrow> wrap_wf v"
  shows "relayOK w (relayRun w evs)"
  unfolding relayRun_def by (rule relays.inv_run) (use assms in auto)

text \<open>
  C39. The relay with WRAP on, the server holding the same key. Whatever is read, whichever writes fail and in whatever order: every datagram sent to
  the relay is opened by the server to the packet of the session it stands for, in order and 40 bytes longer, and the envelope never
  fails; to the session go, in order, the payloads of the datagrams that open - all of them while the goroutine lives or if a read ends it - and
  every packet of up to 1600 bytes that the server seals, at whatever point of its sequence, opens to itself. A datagram that arrives before anything
  was sent ends the goroutine, and then nothing was delivered. Without WRAP datagrams pass as they are.
\<close>

theorem relay_transparent:
  assumes "newWrapConn New key False (Some rnd) (Some cb) = Inr w" and "newWrapConn New key True (Some rnd') (Some cb') = Inr r"
    and "length rnd = 16" and "length rnd' = 16" and "new_ok New"
  shows "let s = relayRun (Some w) evs; t = relayRun None evs in
     map (wrapRecv r) (rpToRelay s) = map Some (rpSent s)
   \<and> map length (rpToRelay s) = map (\<lambda>p. 40 + length p) (rpSent s) \<and> rpOutEnd s \<noteq> Some WrapFailed
   \<and> prefix (rpToConn s) (opened (Some w) (rpSeen s))
   \<and> (rpInEnd s \<in> {None, Some ReadFailed} \<longrightarrow> rpToConn s = opened (Some w) (rpSeen s))
   \<and> (\<forall>es i wire. list_all (\<lambda>(dst, p). wrapMaxWire (length p) \<le> length dst \<and> length p \<le> 1600) es \<and> i < length es
        \<and> sendAll wrapSend r es ! i = Some wire \<longrightarrow> relayOpen (Some w) wire = Some (snd (es ! i)))
   \<and> (rpInEnd s = Some NoPeer \<longrightarrow> rpToConn s = [])
   \<and> rpToRelay t = rpSent t \<and> prefix (rpToConn t) (rpSeen t)
   \<and> (rpInEnd t \<in> {None, Some ReadFailed} \<longrightarrow> rpToConn t = rpSeen t)"
proof -
  define s t where "s = relayRun (Some w) evs" and "t = relayRun None evs"
  have wf: "wrap_wf w" by (rule newWrapConn_wf [OF assms(1,3,5)])
  have same: "aead r = aead w" using newWrapConn_peers [OF assms(1,2,3,5)] by (simp add: wrapPeers_def)
  have s: "relayOK (Some w) s" unfolding s_def by (rule relay_inv) (use wf in auto)
  have t: "relayOK None t" unfolding t_def by (rule relay_inv) auto
  have wire: "list_all2 (onWire (Some w)) (rpToRelay s) (rpSent s)" using s by (simp add: relayOK_def)
  have "map (wrapRecv r) (rpToRelay s) = map Some (rpSent s)"
    using wire same by (induction rule: list_all2_induct) (simp_all add: onWire_def)
  moreover have "map length (rpToRelay s) = map (\<lambda>p. 40 + length p) (rpSent s)"
    using wire by (induction rule: list_all2_induct) (simp_all add: onWire_def)
  moreover have "relayOpen (Some w) wire = Some (snd (es ! i))"
    if h: "list_all (\<lambda>(dst, p). wrapMaxWire (length p) \<le> length dst \<and> length p \<le> 1600) es" "i < length es"
      "sendAll wrapSend r es ! i = Some wire" for es i wire
  proof -
    have peers: "wrapPeers r w" by (rule newWrapConn_peers [OF assms(2,1,4,5)])
    have "list_all (wrapFits r) es" using h(1) by (auto simp: list_all_iff wrapFits_def)
    then have "wrapRecv w wire = Some (snd (es ! i))" using wrap_codec.delivery [OF peers _ h(2)] h(3) by auto
    moreover have "length (snd (es ! i)) \<le> 1600" using h(1,2) by (cases "es ! i") (fastforce simp: list_all_length)
    ultimately show ?thesis by (simp add: wrapRecv_open relayBuf_def)
  qed
  moreover have plain: "opened None ds = ds" for ds by (induction ds) (simp_all add: opened_def relayOpen_def)
  moreover have "rpToRelay t = rpSent t"
  proof -
    have "list_all2 (onWire None) (rpToRelay t) (rpSent t)" using t by (simp add: relayOK_def)
    then show ?thesis by (induction rule: list_all2_induct) (simp_all add: onWire_def)
  qed
  ultimately show ?thesis using s t unfolding s_def [symmetric] t_def [symmetric] Let_def relayOK_def plain by simp
qed

theorem relay_transparent_witness:
  "let s = relayRun (Some (demoWrap False)) [FromConn 0 True [1, 2], FromRelay 0 True [7]] in
   map (wrapRecv (demoWrap True)) (rpToRelay s) = [Some [1, 2]] \<and> rpToConn s = []"
proof -
  let ?evs = "[FromConn 0 True [1, 2], FromRelay 0 True [7]]"
  have "rpSent (relayRun (Some (demoWrap False)) ?evs) = [[1, 2]] \<and> rpToConn (relayRun (Some (demoWrap False)) ?evs) = []"
    by (simp add: relayRun_def newRelay_def fromConn_def fromRelay_def toRelay_def wrapInto_def unwrapPacket_def relayBuf_def
        readBufLen_def Let_def wrapMaxWire_def wrap_lens)
  then show ?thesis
    using relay_transparent [OF demoWrap_new demoWrap_new _ _ demoNew_ok, of ?evs] by (simp add: Let_def)
qed

end
