(* ===== verification/TurnSession.thy ===== *)
theory TurnSession
  imports Probe WrapA CliConfig Systems
begin

text \<open>
  The sessions over a relay goroutine, from \<open>proxy.go\<close>: \<open>runDTLSSession\<close> and \<open>runWrapASession\<close> as seen from the pool, the counters and the
  signals, with the handshakes (\<open>dialDTLS\<close>, \<open>dialDTLSWrapA\<close>) and the provision of WRAP-A; and \<open>runDirectSession\<close>, whose second
  goroutine exchanges the slot while the session runs.
\<close>

section \<open>Handshakes\<close>

text \<open>\<open>ctxErr\<close> and \<open>ctxAfter\<close> are the error of the context before an attempt and after its handshake failed.\<close>

record dialAttempt =
  ctxErr :: "string option"
  clientErr :: "string option"
  handshakeErr :: "string option"
  ctxAfter :: "string option"

definition dialDTLS :: "string option \<Rightarrow> dialAttempt \<Rightarrow> string option" where
  "dialDTLS certErr a = (case certErr of Some e \<Rightarrow> Some e
     | None \<Rightarrow> (case clientErr a of Some e \<Rightarrow> Some e | None \<Rightarrow> handshakeErr a))"

fun dialAttempts :: "dialAttempt list \<Rightarrow> string option \<Rightarrow> string option" where
  "dialAttempts [] lastErr = lastErr"
| "dialAttempts (a # as) lastErr =
     (case ctxErr a of Some e \<Rightarrow> Some e
      | None \<Rightarrow> (case clientErr a of Some e \<Rightarrow> dialAttempts as (Some e)
      | None \<Rightarrow> (case handshakeErr a of None \<Rightarrow> None
      | Some e \<Rightarrow> (if ctxAfter a \<noteq> None then Some e else dialAttempts as (Some e)))))"

definition dialDTLSWrapA :: "string option \<Rightarrow> dialAttempt \<Rightarrow> dialAttempt \<Rightarrow> string option" where
  "dialDTLSWrapA certErr a1 a2 = (case certErr of Some e \<Rightarrow> Some e | None \<Rightarrow> dialAttempts [a1, a2] None)"

section \<open>The provision\<close>

text \<open>\<open>provCh\<close> is whether the channel exists (it does only with WRAP-A) and is closed.\<close>

record provCell =
  provOnce :: bool
  provValue :: "WrapAProvision option"
  provCh :: "bool option"

definition newProvCell :: "bool \<Rightarrow> provCell" where
  "newProvCell wrapAOn = \<lparr>provOnce = False, provValue = None, provCh = (if wrapAOn then Some False else None)\<rparr>"

definition storeWrapAProvision :: "WrapAProvision \<Rightarrow> provCell \<Rightarrow> provCell" where
  "storeWrapAProvision pr c =
     (if provOnce c then c
      else \<lparr>provOnce = True, provValue = Some pr, provCh = (if provCh c = None then None else Some True)\<rparr>)"

datatype provWait = NotEnabled | Provision "WrapAProvision option" | ProvTimeout | ProvStopped

text \<open>How \<open>WaitWrapAProvision\<close> may return, with the timer or the stop of the proxy ready or not.\<close>

definition WaitWrapAProvision :: "bool \<Rightarrow> bool \<Rightarrow> provCell \<Rightarrow> provWait set" where
  "WaitWrapAProvision timeout stopped c =
     (case provCh c of None \<Rightarrow> {NotEnabled}
      | Some isClosed \<Rightarrow> (if isClosed then {Provision (provValue c)} else {}) \<union> (if timeout then {ProvTimeout} else {})
          \<union> (if stopped then {ProvStopped} else {}))"

section \<open>Sessions over DTLS\<close>

text \<open>
  What a session changes of the proxy: the pool, the counts of active and of all connections, the values in \<open>readyCh\<close> (one place; none if there
  is no channel) and the flag that goes with it, the bootstrap signal and the provision.
\<close>

record sessProxy =
  spPool :: credPool
  spActive :: int
  spTotal :: int
  spReady :: "nat option"
  spSignaled :: bool
  spBoot :: "string option bootSignal"
  spProv :: provCell

datatype sessError =
    SessGet connErr | SessDTLS string | SessDTLSTurn string string
  | SessWrapAInit wrapAError | SessWrapADTLS string | SessWrapADTLSTurn string string | SessGetconf confError

definition signalReady :: "sessProxy \<Rightarrow> sessProxy" where
  "signalReady p =
     (let q = (if spReady p = Some 0 \<and> \<not> spSignaled p then p\<lparr>spReady := Some 1\<rparr> else p) in
      q\<lparr>spSignaled := True, spBoot := signalBootstrapDone None (spBoot q)\<rparr>)"

definition established :: "sessProxy \<Rightarrow> sessProxy" where
  "established p = signalReady (p\<lparr>spActive := spActive p + 1, spTotal := spTotal p + 1\<rparr>)"

text \<open>
  What a failed handshake does to the slot: only if the relay goroutine has reported an error by then (\<open>turn\<close>; it reports at most
  once) is the slot touched.
\<close>

definition attributeTurn :: "gotime \<Rightarrow> bool \<Rightarrow> int \<Rightarrow> string option option \<Rightarrow> credPool \<Rightarrow> credPool \<times> string option" where
  "attributeTurn now wr slot turn cp =
     (case turn of Some (Some te) \<Rightarrow> (attributeError now wr slot (Some te) cp, Some te) | _ \<Rightarrow> (cp, None))"

text \<open>
  \<open>acquired\<close> is the result of the pool's \<open>get\<close>, \<open>handshake\<close> that of \<open>dialDTLS\<close>, \<open>run\<close> what happens while the session lives and \<open>later\<close> the
  time at which the slot is released.
\<close>

definition releaseSlot :: "gotime \<Rightarrow> int \<Rightarrow> sessProxy \<Rightarrow> sessProxy" where
  "releaseSlot later slot p = p\<lparr>spPool := release later slot (spPool p)\<rparr>"

definition endSession :: "gotime \<Rightarrow> int \<Rightarrow> sessProxy \<Rightarrow> sessProxy" where
  "endSession later slot p = releaseSlot later slot (p\<lparr>spActive := spActive p - 1\<rparr>)"

definition runDTLSSession ::
  "gotime \<Rightarrow> gotime \<Rightarrow> bool \<Rightarrow> credPool \<times> (connErr + int) \<Rightarrow> string option \<Rightarrow> string option option \<Rightarrow> (sessProxy \<Rightarrow> sessProxy)
    \<Rightarrow> sessProxy \<Rightarrow> sessProxy \<times> sessError option" where
  "runDTLSSession now later wr acquired handshake turn run p0 =
     (case acquired of
        (cp, Inl e) \<Rightarrow> (p0\<lparr>spPool := cp\<rparr>, Some (SessGet e))
      | (cp, Inr slot) \<Rightarrow>
          let p = p0\<lparr>spPool := cp\<rparr> in
          case handshake of
            Some e \<Rightarrow> (case attributeTurn now wr slot turn cp of (cp', te) \<Rightarrow>
              (releaseSlot later slot (p\<lparr>spPool := cp'\<rparr>),
               Some (case te of None \<Rightarrow> SessDTLS e | Some t \<Rightarrow> SessDTLSTurn e t)))
          | None \<Rightarrow> (endSession later slot (run (established p)), None))"

text \<open>\<open>runWrapASession\<close>: the envelope is set up before the handshake, and GETCONF follows it.\<close>

definition runWrapASession ::
  "gotime \<Rightarrow> gotime \<Rightarrow> bool \<Rightarrow> credPool \<times> (connErr + int) \<Rightarrow> wrapAError option \<Rightarrow> string option \<Rightarrow> string option option
    \<Rightarrow> confError + WrapAProvision \<Rightarrow> (sessProxy \<Rightarrow> sessProxy) \<Rightarrow> sessProxy \<Rightarrow> sessProxy \<times> sessError option" where
  "runWrapASession now later wr acquired envelope handshake turn getconf run p0 =
     (case acquired of
        (cp, Inl e) \<Rightarrow> (p0\<lparr>spPool := cp\<rparr>, Some (SessGet e))
      | (cp, Inr slot) \<Rightarrow>
          let p = p0\<lparr>spPool := cp\<rparr> in
          case envelope of Some e \<Rightarrow> (releaseSlot later slot p, Some (SessWrapAInit e))
          | None \<Rightarrow> (case handshake of
              Some e \<Rightarrow> (case attributeTurn now wr slot turn cp of (cp', te) \<Rightarrow>
                (releaseSlot later slot (p\<lparr>spPool := cp'\<rparr>),
                 Some (case te of None \<Rightarrow> SessWrapADTLS e | Some t \<Rightarrow> SessWrapADTLSTurn e t)))
            | None \<Rightarrow> (case getconf of
                Inl e \<Rightarrow> (releaseSlot later slot p, Some (SessGetconf e))
              | Inr pr \<Rightarrow> (endSession later slot (run (established (p\<lparr>spProv := storeWrapAProvision pr (spProv p)\<rparr>))), None))))"

text \<open>
  Sessions that fail leave counters, signals and provision alone and give the slot back after attributing the error; the others
  leave the count of active connections as it was, if what runs in between does.
\<close>

lemma runDTLSSession_end:
  assumes "runDTLSSession now later wr (cp, Inr slot) handshake turn run p = (q, err)"
    and "\<And>x. spActive (run x) = spActive x"
  shows "spActive q = spActive p" and "err \<noteq> None \<Longrightarrow> spBoot q = spBoot p \<and> spSignaled q = spSignaled p"
    and "\<exists>cp'. spPool q = release later slot cp'
      \<and> (err \<noteq> None \<longrightarrow> cp' = cp \<or> (\<exists>te. turn = Some (Some te) \<and> cp' = attributeError now wr slot (Some te) cp))"
  using assms
  by (auto simp: runDTLSSession_def attributeTurn_def releaseSlot_def endSession_def established_def signalReady_def Let_def
      split: option.splits prod.splits if_splits)

lemma runWrapASession_end:
  assumes "runWrapASession now later wr (cp, Inr slot) envelope handshake turn getconf run p = (q, err)"
    and "\<And>x. spActive (run x) = spActive x"
  shows "spActive q = spActive p" and "err \<noteq> None \<Longrightarrow> spBoot q = spBoot p \<and> spSignaled q = spSignaled p \<and> spProv q = spProv p"
    and "\<exists>cp'. spPool q = release later slot cp'
      \<and> (err \<noteq> None \<longrightarrow> cp' = cp \<or> (\<exists>te. turn = Some (Some te) \<and> cp' = attributeError now wr slot (Some te) cp))"
  using assms
  by (auto simp: runWrapASession_def attributeTurn_def releaseSlot_def endSession_def established_def signalReady_def Let_def
      split: option.splits sum.splits prod.splits if_splits)

text \<open>The first provision is the one every waiter gets, whatever is stored after it.\<close>

lemma provision_first:
  "Provision v \<in> WaitWrapAProvision timeout stopped (fold storeWrapAProvision prs (newProvCell wrapAOn))
     \<longleftrightarrow> wrapAOn \<and> prs \<noteq> [] \<and> v = Some (hd prs)"
proof -
  have stays: "provOnce c \<Longrightarrow> fold storeWrapAProvision xs c = c" for xs c
    by (induction xs arbitrary: c) (simp_all add: storeWrapAProvision_def)
  show ?thesis
    by (cases prs) (auto simp: stays storeWrapAProvision_def newProvCell_def WaitWrapAProvision_def split: if_splits)
qed

section \<open>The direct session\<close>

text \<open>
  \<open>runDirectSession\<close> keeps the slot in two variables: \<open>credSlot\<close> of the goroutine that starts the relay anew, and \<open>currentSlot\<close>, which the deferred
  release of the session reads. The phases are the places where the two can be overtaken: waiting for the relay to end, the pause after
  it, the release, the test of the context before a try, the pool's \<open>get\<close>, and the assignment of what it returned. \<open>dsCalls\<close> is the trace of
  slots taken from and given back to the pool.
\<close>

datatype directPhase = DWait | DPause | DRelease | DForget | DCheck nat | DGet nat | DRetry nat | DAssign nat | DDone

datatype slotCall = Took nat | Gave nat

record directState =
  dsPhase :: directPhase
  dsCancelled :: bool
  dsReturned :: bool
  dsCredSlot :: "nat option"
  dsCurrent :: "nat option"
  dsCalls :: "slotCall list"

definition directStart :: "nat \<Rightarrow> directState" where
  "directStart slot = \<lparr>dsPhase = DWait, dsCancelled = False, dsReturned = False, dsCredSlot = Some slot, dsCurrent = Some slot,
     dsCalls = [Took slot]\<rparr>"

definition gives :: "nat option \<Rightarrow> directState \<Rightarrow> directState" where
  "gives sl s = (case sl of None \<Rightarrow> s | Some i \<Rightarrow> s\<lparr>dsCalls := dsCalls s @ [Gave i]\<rparr>)"

text \<open>Where the goroutine waits for the context too.\<close>

fun selects :: "directPhase \<Rightarrow> bool" where
  "selects DWait = True"
| "selects DPause = True"
| "selects (DRetry n) = True"
| "selects _ = False"

text \<open>The relay ends or the goroutine sees the context done, whichever \<open>select\<close> picks. \<open>SessionReturns\<close> is the deferred release.\<close>

datatype directEvent = RelayEnds | SeesDone | PauseOver | Step | Got "nat option" | RetryOver | CancelSession | SessionReturns

fun directExec :: "directEvent \<Rightarrow> directState \<Rightarrow> directState" where
  "directExec RelayEnds s =
     (if dsPhase s = DWait then s\<lparr>dsPhase := (if dsCancelled s then DDone else DPause)\<rparr> else s)"
| "directExec SeesDone s =
     (if dsCancelled s \<and> selects (dsPhase s) then s\<lparr>dsPhase := DDone\<rparr> else s)"
| "directExec PauseOver s = (if dsPhase s = DPause then s\<lparr>dsPhase := DRelease\<rparr> else s)"
| "directExec Step s =
     (case dsPhase s of
        DRelease \<Rightarrow> (gives (dsCredSlot s) s)\<lparr>dsPhase := DForget\<rparr>
      | DForget \<Rightarrow> s\<lparr>dsCredSlot := None, dsCurrent := None, dsPhase := DCheck 0\<rparr>
      | DCheck n \<Rightarrow> (if n < 5 \<and> \<not> dsCancelled s then s\<lparr>dsPhase := DGet n\<rparr> else s\<lparr>dsPhase := DDone, dsCancelled := True\<rparr>)
      | DAssign i \<Rightarrow> s\<lparr>dsCredSlot := Some i, dsCurrent := Some i, dsPhase := DWait\<rparr>
      | _ \<Rightarrow> s)"
| "directExec (Got r) s =
     (case (dsPhase s, r) of
        (DGet n, Some i) \<Rightarrow> s\<lparr>dsPhase := DAssign i, dsCalls := dsCalls s @ [Took i]\<rparr>
      | (DGet n, None) \<Rightarrow> s\<lparr>dsPhase := DRetry (Suc n)\<rparr>
      | _ \<Rightarrow> s)"
| "directExec RetryOver s = (case dsPhase s of DRetry n \<Rightarrow> s\<lparr>dsPhase := DCheck n\<rparr> | _ \<Rightarrow> s)"
| "directExec CancelSession s = s\<lparr>dsCancelled := True\<rparr>"
| "directExec SessionReturns s =
     (if dsCancelled s \<and> \<not> dsReturned s then (gives (dsCurrent s) s)\<lparr>dsReturned := True\<rparr> else s)"

definition directRun :: "nat \<Rightarrow> directEvent list \<Rightarrow> directState" where
  "directRun slot evs = fold directExec evs (directStart slot)"

text \<open>How often a slot was taken, less how often it was given back.\<close>

definition slotBalance :: "nat \<Rightarrow> slotCall list \<Rightarrow> int" where
  "slotBalance i cs = int (length (filter (\<lambda>c. c = Took i) cs)) - int (length (filter (\<lambda>c. c = Gave i) cs))"

lemma slotBalance_simps [simp]: "slotBalance i [] = 0" "slotBalance i (cs @ ds) = slotBalance i cs + slotBalance i ds"
  "slotBalance i [Took j] = (if j = i then 1 else 0)" "slotBalance i [Gave j] = (if j = i then - 1 else 0)"
  by (simp_all add: slotBalance_def)

text \<open>The session returns at a moment when the other goroutine is not between the end of a relay and the next one.\<close>

fun quiet :: "directPhase \<Rightarrow> bool" where
  "quiet DWait = True"
| "quiet DDone = True"
| "quiet (DCheck n) = True"
| "quiet (DRetry n) = True"
| "quiet _ = False"

fun orderlyDirect :: "directEvent list \<Rightarrow> directState \<Rightarrow> bool" where
  "orderlyDirect [] s = True"
| "orderlyDirect (e # es) s = ((e = SessionReturns \<longrightarrow> quiet (dsPhase s)) \<and> orderlyDirect es (directExec e s))"

definition directOK :: "directState \<Rightarrow> bool" where
  "directOK s \<longleftrightarrow> (dsReturned s \<longrightarrow> dsCancelled s \<and> quiet (dsPhase s))
     \<and> (\<forall>i. slotBalance i (dsCalls s) =
          (if dsReturned s then 0
           else (if dsCurrent s = Some i \<and> dsPhase s \<noteq> DForget then 1 else 0) + (if dsPhase s = DAssign i then 1 else 0)))
     \<and> (\<not> dsReturned s \<longrightarrow> dsCredSlot s = dsCurrent s)
     \<and> ((\<exists>n. dsPhase s = DCheck n \<or> dsPhase s = DGet n \<or> dsPhase s = DRetry n) \<or> (\<exists>i. dsPhase s = DAssign i) \<longrightarrow> dsCurrent s = None)"

lemma directOK_start: "directOK (directStart slot)"
  by (simp add: directOK_def directStart_def)

lemma directOK_exec:
  assumes "directOK s" "e = SessionReturns \<longrightarrow> quiet (dsPhase s)"
  shows "directOK (directExec e s)"
  using assms
  by (cases e; cases "dsPhase s"; cases "dsCurrent s"; cases "dsReturned s")
    (auto simp: directOK_def gives_def split: option.splits)

lemma directOK_run: "directOK s \<Longrightarrow> orderlyDirect evs s \<Longrightarrow> directOK (fold directExec evs s)"
  by (induction evs arbitrary: s) (simp_all add: directOK_exec)

text \<open>Without that condition at most one slot is miscounted, by one.\<close>

definition directAny :: "directState \<Rightarrow> bool" where
  "directAny s \<longleftrightarrow> (if dsReturned s
     then dsCancelled s \<and> (\<exists>k. (\<forall>i. i \<noteq> k \<longrightarrow> slotBalance i (dsCalls s) = 0) \<and> \<bar>slotBalance k (dsCalls s)\<bar> \<le> 1)
       \<and> (dsPhase s = DPause \<or> dsPhase s = DRelease \<or> (\<exists>n. dsPhase s = DGet n) \<longrightarrow> (\<forall>i. slotBalance i (dsCalls s) = 0))
     else directOK s)"

lemma directOK_balance:
  assumes ok: "directOK s" and r: "\<not> dsReturned s"
  shows "\<exists>k. (\<forall>i. i \<noteq> k \<longrightarrow> slotBalance i (dsCalls s) = 0) \<and> 0 \<le> slotBalance k (dsCalls s) \<and> slotBalance k (dsCalls s) \<le> 1"
proof (cases "dsCurrent s")
  case None
  then show ?thesis using ok r by (cases "\<exists>i. dsPhase s = DAssign i") (auto simp: directOK_def)
next
  case (Some c)
  then show ?thesis using ok r by (intro exI [of _ c]) (auto simp: directOK_def)
qed

lemma directAny_exec:
  assumes any: "directAny s"
  shows "directAny (directExec e s)"
proof (cases "dsReturned s")
  case False
  then have ok: "directOK s" using any by (simp add: directAny_def)
  show ?thesis
  proof (cases "e = SessionReturns \<and> dsCancelled s")
    case True
    then show ?thesis using ok False
      by (cases "dsCurrent s"; cases "dsPhase s") (auto simp: directAny_def directOK_def gives_def)
  next
    case nr: False
    have "directOK (directExec e s)"
    proof (cases "e = SessionReturns")
      case True
      then show ?thesis using nr ok by simp
    qed (rule directOK_exec [OF ok], simp)
    moreover have "\<not> dsReturned (directExec e s)"
      using False nr by (cases e; cases "dsPhase s") (auto simp: gives_def split: option.splits)
    ultimately show ?thesis by (simp add: directAny_def)
  qed
next
  case True
  then show ?thesis using any
    by (cases e; cases "dsPhase s"; cases "dsCredSlot s") (auto simp: directAny_def gives_def split: option.splits)
qed

interpretation direct: event_system "\<lambda>s. \<exists>slot. s = directStart slot" directExec directAny
proof unfold_locales
  show "\<exists>slot. s = directStart slot \<Longrightarrow> directAny s" for s
    using directOK_start by (auto simp: directAny_def directStart_def)
qed (rule directAny_exec)

text \<open>
  C40. The slots of a direct session, through any number of relays, failed tries and cancellations. If the session returns while
  the goroutine that renews the relay waits for the relay to end, is about to try, pauses after a failed try or has ended, then every slot
  taken was given back exactly as often; until then the session holds at most one slot. In every other order of events at most
  one slot ends up miscounted, by one.
\<close>

theorem direct_session_slots:
  "let s = directRun slot evs in
   (orderlyDirect evs (directStart slot) \<longrightarrow> (dsReturned s \<longrightarrow> (\<forall>i. slotBalance i (dsCalls s) = 0))
      \<and> (\<not> dsReturned s \<longrightarrow> (\<exists>k. (\<forall>i. i \<noteq> k \<longrightarrow> slotBalance i (dsCalls s) = 0) \<and> slotBalance k (dsCalls s) \<in> {0, 1})))
   \<and> (\<exists>k. (\<forall>i. i \<noteq> k \<longrightarrow> slotBalance i (dsCalls s) = 0) \<and> \<bar>slotBalance k (dsCalls s)\<bar> \<le> 1)"
proof -
  define s where "s = directRun slot evs"
  have any: "directAny s" unfolding s_def directRun_def by (rule direct.inv_run) blast
  have "directOK s" if "orderlyDirect evs (directStart slot)"
    using directOK_run [OF directOK_start that] by (simp add: s_def directRun_def)
  moreover have "\<exists>k. (\<forall>i. i \<noteq> k \<longrightarrow> slotBalance i (dsCalls s) = 0) \<and> \<bar>slotBalance k (dsCalls s)\<bar> \<le> 1"
    using any directOK_balance [of s] by (cases "dsReturned s") (auto simp: directAny_def)
  moreover have "\<exists>k. (\<forall>i. i \<noteq> k \<longrightarrow> slotBalance i (dsCalls s) = 0) \<and> slotBalance k (dsCalls s) \<in> {0, 1}"
    if ok: "directOK s" "\<not> dsReturned s"
  proof -
    obtain k where "\<forall>i. i \<noteq> k \<longrightarrow> slotBalance i (dsCalls s) = 0" "0 \<le> slotBalance k (dsCalls s)" "slotBalance k (dsCalls s) \<le> 1"
      using directOK_balance [OF ok] by blast
    then show ?thesis by (intro exI [of _ k]) auto
  qed
  ultimately show ?thesis unfolding s_def [symmetric] Let_def by (simp add: directOK_def)
qed

theorem direct_session_slots_witness:
  "let s = directRun 2 [RelayEnds, PauseOver, Step, Step, Step, Got (Some 5), Step, CancelSession, SeesDone, SessionReturns] in
   dsReturned s \<and> (\<forall>i. slotBalance i (dsCalls s) = 0) \<and> dsCalls s = [Took 2, Gave 2, Took 5, Gave 5]"
proof -
  let ?evs = "[RelayEnds, PauseOver, Step, Step, Step, Got (Some 5), Step, CancelSession, SeesDone, SessionReturns]"
  have "orderlyDirect ?evs (directStart 2)" by code_simp
  moreover have "dsReturned (directRun 2 ?evs) \<and> dsCalls (directRun 2 ?evs) = [Took 2, Gave 2, Took 5, Gave 5]" by code_simp
  ultimately show ?thesis unfolding Let_def using direct_session_slots [of 2 ?evs, unfolded Let_def] by blast
qed

text \<open>The other orders. The session returns while \<open>get\<close> runs: the slot is never given back. It returns before the release: given back twice.\<close>

lemma direct_slot_leak:
  "dsCalls (directRun 2 [RelayEnds, PauseOver, Step, Step, Step, CancelSession, SessionReturns, Got (Some 5), Step, SeesDone])
     = [Took 2, Gave 2, Took 5]"
  by (simp add: directRun_def directStart_def gives_def)

lemma direct_double_release:
  "dsCalls (directRun 2 [RelayEnds, PauseOver, CancelSession, SessionReturns, Step, Step, Step]) = [Took 2, Gave 2, Gave 2]"
  by (simp add: directRun_def directStart_def gives_def)

end
