(* ===== verification/Spec2Isabelle.thy ===== *)
theory Spec2Isabelle
  imports CredPoolProps WireProps SliderSolve SocksProps CliConfigProps DeadlineProps SrtpProps VkCookieProps VkFetchProps
    BootProps SessionsProps ProbeProps BridgeProps CaptchaPowProps LogWriter Control DataPath Relay TurnSession
begin

text \<open>
  A model of \<open>vk-turn-proxy\<close>: a tunnel that carries WireGuard packets over the TURN relays of VK calls. The theories follow the
  Go sources under \<open>src/\<close>; definitions keep the names of the functions and types they translate, except where a name
  clashes (\<open>Pause'\<close>, \<open>Stop'\<close>, \<open>closeSrtpSession\<close>, \<open>onReadError\<close>).

  \<^bold>\<open>How the program works.\<close> The app calls the bridge (\<open>WireGuardBridge/bridge.go\<close>) or the command line client
  (\<open>cmd/vk-turn-socks\<close>) starts by itself. Either creates a proxy (\<open>pkg/proxy/proxy.go\<close>), which opens several connections. Each takes TURN
  credentials from a shared pool (\<open>creds.go\<close>), allocates a relay and runs one session over it: DTLS, DTLS under
  the WRAP envelope (\<open>wrap.go\<close>), SRTP (\<open>srtpwrap/srtp.go\<close>), or WRAP-A (\<open>wrapa.go\<close>, with its configuration from \<open>getconf.go\<close>). The pool
  mints credentials by talking to VK, anonymously (\<open>creds.go\<close>, \<open>creds_vkcalls.go\<close>), which can demand a captcha
  (\<open>captcha_pow.go\<close>, \<open>captcha_slider.go\<close>, or the user), or with a cookie (\<open>creds_vkcookie.go\<close>). Liveness probes, a watchdog and
  pause and resume restart sessions. The command line client serves SOCKS5 on top of the tunnel.

  \<^bold>\<open>Shared base.\<close> \<open>Prelude\<close> (Go's 64-bit integers with \<open>wrap64\<close>, time as nanoseconds, strings as byte lists, lists), \<open>Systems\<close>
  (reachable states, the locales \<open>invariant_system\<close> and \<open>event_system\<close>), \<open>Bytes\<close> (big-endian accessors), \<open>Encoding\<close> (base64 and
  hexadecimal with their round trips), \<open>Json\<close> (decoded JSON and the string functions), \<open>NetAddr\<close> (addresses, host and port).

  \<^bold>\<open>Credential pool\<close> (\<open>creds.go\<close>).
  \<open>CredEntry\<close> is one slot (\<open>credPoolEntry\<close>) with expiry and availability; \<open>CredPool\<close> has the methods of \<open>credPool\<close>. The fetch runs
  outside the lock, so \<open>get\<close> and \<open>tryFill\<close> are split there (\<open>getBegin\<close>, \<open>getFinish\<close>, \<open>tryFillBegin\<close>, \<open>tryFillFinish\<close>).
  \<open>CredPoolInv\<close> has the shape and quota invariant of each method; \<open>CredPoolSys\<close> interleaves connections, grower, timers and path
  changes as a step relation with the ownership invariant; \<open>CredPoolTimers\<close> shows that a timer stands behind every deadline a
  parked connection waits for; \<open>CredPoolDisk\<close> treats \<open>saveToDisk\<close> and \<open>loadFromDisk\<close>; \<open>CredPoolProps\<close> states the properties.

  \<^bold>\<open>Packet formats.\<close> \<open>Codec\<close> states the laws of the cipher and two contracts as locales, \<open>datagram_codec\<close> (what is sealed opens to the
  same) and \<open>nonce_schedule\<close> (nonces do not repeat within a period); \<open>Wrap\<close> and \<open>WrapA\<close> are the two envelopes and their
  interpretations; \<open>WireProps\<close> states delivery and nonce uniqueness.

  \<^bold>\<open>SRTP transport\<close> (\<open>srtpwrap/srtp.go\<close>). \<open>Srtp\<close> has the demultiplexers of client and server, the sessions of the server and the connection; \<open>Deadline\<close>
  the two implementations of read deadlines, against one abstract deadline (locale \<open>deadline_impl\<close>, interpreted for both in
  \<open>DeadlineProps\<close>); \<open>SrtpProps\<close> shows that demultiplexing loses nothing, sessions do not see each other's packets and a stream arrives.

  \<^bold>\<open>Talking to VK.\<close> \<open>VkApi\<close> reads answers; \<open>VkFetch\<close> is the anonymous conversation (\<open>getVKCredsWithClientID\<close>, \<open>GetVKCreds\<close>,
  \<open>getVKCredsViaVKCallsPath\<close>) with its captcha loops; \<open>VkCookie\<close> the logged-in one with relay discovery and \<open>fetchFreshCreds\<close>;
  \<open>CaptchaPow\<close> is \<open>solveCaptchaPoW\<close> with its forms and the proof of work, \<open>Slider\<close> the slider puzzle. The server is a function of the
  requests sent so far, so that every theorem holds for every behaviour of it. \<open>VkFetchProps\<close>, \<open>VkCookieProps\<close>, \<open>CaptchaPowProps\<close>,
  \<open>SliderProps\<close>, \<open>SliderGeometry\<close>, \<open>SliderSolve\<close>: outcomes, the order of requests, where tokens come from, that loops end.

  \<^bold>\<open>The proxy\<close> (\<open>proxy.go\<close>). \<open>Boot\<close>: the checks of \<open>NewProxy\<close>, the bootstrap signal, the attempts for the first connection, \<open>runConnection\<close>'s
  retries, \<open>growCredPool\<close>. \<open>Sessions\<close>: \<open>Pause\<close>, \<open>Resume\<close>, \<open>ForceReconnect\<close>, the captcha waiter and the watchdog as steps on one state
  that holds a pool. \<open>Probe\<close>: one session with its probe, receive loop, set-up and error attribution. The properties are in the
  theories of the same name with \<open>Props\<close>. \<open>DataPath\<close>: the packets between WireGuard and the connections, over the goroutines of all four kinds of
  session, and \<open>turnbind\<close> above them; \<open>Relay\<close>: \<open>runTURN\<close>, which carries the datagrams of a session through the envelope of \<open>Wrap\<close>;
  \<open>TurnSession\<close>: the sessions that run over it, the WRAP-A provision, and the slots of \<open>runDirectSession\<close>.

  \<^bold>\<open>The bridge.\<close> \<open>Bridge\<close>: settings, WRAP key and the table of tunnels, with attaching and turning off as sequences of steps between
  which other calls run; \<open>BridgeProps\<close>: the invariant of every interleaving, ownership in orderly runs, and the two leaks of
  disorderly ones. It uses \<open>SetVKCookieAuth\<close> of \<open>VkCookie\<close> and hands its configuration to \<open>checkTransport\<close> of \<open>Boot\<close>.
  \<open>LogWriter\<close>: the log file.

  \<^bold>\<open>The command line client.\<close> \<open>Socks\<close> and \<open>SocksProps\<close>: the SOCKS5 server, the guard against dialling into the tunnel itself, UDP associations, the HTTP proxy;
  \<open>CliConfig\<close> and \<open>CliConfigProps\<close>: import and loading of configurations, keys and UAPI text, and the answer of GETCONF;
  \<open>Control\<close>: the control API, whose handlers act on the state of \<open>Sessions\<close>.

  \<^bold>\<open>Bounds.\<close> There is no fuel anywhere: loops are structural recursions on the attempts the code allows (\<open>maxPoWRetries\<close>,
  \<open>maxBootstrapAttempts\<close>), on the list they walk, or on the distance to their limit (\<open>powFrom\<close>, up to \<open>powLimit\<close>). Clocks are bounded by
  \<open>2 ^ 63 * second\<close> where seconds are converted. Nonces repeat after \<open>2 ^ 64\<close> (WRAP) and \<open>2 ^ 48\<close> (WRAP-A) packets, handles of
  the bridge after \<open>2 ^ 32\<close> starts.

  \<^bold>\<open>Parameters.\<close> The ciphers and HKDF of \<open>golang.org/x/crypto\<close>, pion's DTLS, SRTP and TURN, the WireGuard device and netstack, HTTP and VK itself,
  SHA-256, JSON texts, files, random numbers and clocks are arguments, with the laws used as named hypotheses (\<open>aead_ok\<close> and others)
  that the witnesses instantiate.

  \<^bold>\<open>Not modelled.\<close> What is I/O around the modelled code: sockets, deadlines and
  interface binding, TLS fingerprints and HTTP headers (\<open>utls.go\<close>, \<open>profiles.go\<close>), logging and statistics
  loops, the forwarding methods of the bridge, the programs under \<open>tools/\<close>, and everything in Swift. Not
  modelled either: the diagnostic environment variables (\<open>VK_TEST_CREDS\<close>, \<open>VK_CLIENT_ID_ONLY\<close>, \<open>VK_COOKIE_DEBUG\<close>, \<open>VK_DESKTOP_CHROME\<close>), the solver
  \<open>waitForCaptchaAnswer\<close>, which no caller reaches, the text-band weights of the slider's third metric (a parameter) and Unicode in
  \<open>TrimSpace\<close> and \<open>ToLower\<close>, which are those of ASCII.
\<close>

end
